(* ===== verification/EvmPrelude.thy ===== *)
theory EvmPrelude
  imports Main "HOL-Library.Word" "HOL-Library.AList"
begin

text \<open>
  Shared vocabulary of the development: the machine types of the Rust program, the outcome of
  a computation that may panic, checked and saturating arithmetic on \<open>u64\<close> and \<open>usize\<close>,
  slices of a \<open>Vec\<close>, big-endian byte codecs and the \<open>HashMap\<close> operations.

  Conventions.  \<open>U256\<close> and \<open>u8\<close> are words, because the source uses their wrap-around and
  their bits.  \<open>u64\<close>, \<open>u128\<close> and \<open>usize\<close> (64 bits) are natural numbers whose bound is
  written out by the operations of this theory and kept as an invariant.  The Rust operators
  \<open>+\<close>, \<open>-\<close>, \<open>*\<close> on \<open>u64\<close> and \<open>usize\<close> panic on overflow, as they do in the profile that
  \<open>cargo build\<close>, \<open>cargo run\<close> and \<open>cargo test\<close> select; the operators of \<open>ruint\<close>'s \<open>U256\<close>
  wrap around in every profile.
\<close>

unbundle bit_operations_syntax

named_theorems codec_simps \<open>rewriting of the byte codecs\<close>
named_theorems arith_defs \<open>definitions of the checked, saturating and panicking arithmetic\<close>

type_synonym byte = "8 word"
type_synonym u256 = "256 word"
type_synonym u64 = nat
type_synonym u128 = nat
type_synonym usize = nat
type_synonym bytes = "byte list"
type_synonym address = "byte list"

abbreviation U64_MAX :: nat where "U64_MAX \<equiv> 2 ^ 64 - 1"
abbreviation U128_MAX :: nat where "U128_MAX \<equiv> 2 ^ 128 - 1"
abbreviation zero_address :: address where "zero_address \<equiv> replicate 20 0"

section \<open>Outcomes\<close>

text \<open>
  A computation returns, panics (a failed bounds check, \<open>unwrap\<close> or an arithmetic overflow), or
  has used up the recursion fuel that the executable model of the interpreter loop carries.
\<close>

datatype 'a outcome = Done 'a | Panic | NoFuel

fun obind :: "'a outcome \<Rightarrow> ('a \<Rightarrow> 'b outcome) \<Rightarrow> 'b outcome" where
  "obind (Done x) f = f x"
| "obind Panic f = Panic"
| "obind NoFuel f = NoFuel"

lemma obind_Done_iff: "obind m f = Done y \<longleftrightarrow> (\<exists>x. m = Done x \<and> f x = Done y)"
  by (cases m) auto

lemma obind_NoFuel_iff: "obind m f = NoFuel \<longleftrightarrow> m = NoFuel \<or> (\<exists>x. m = Done x \<and> f x = NoFuel)"
  by (cases m) auto

lemma obind_Panic_iff: "obind m f = Panic \<longleftrightarrow> m = Panic \<or> (\<exists>x. m = Done x \<and> f x = Panic)"
  by (cases m) auto

lemma obind_assoc: "obind (obind m f) g = obind m (\<lambda>x. obind (f x) g)"
  by (cases m) auto

lemma obind_cong [fundef_cong]:
  "m = m' \<Longrightarrow> (\<And>x. m' = Done x \<Longrightarrow> f x = g x) \<Longrightarrow> obind m f = obind m' g"
  by (cases m') auto

lemmas obind_iffs = obind_Done_iff obind_NoFuel_iff obind_Panic_iff

text \<open>A loop over a list whose body may panic.\<close>

primrec ofold :: "('s \<Rightarrow> 'a \<Rightarrow> 's outcome) \<Rightarrow> 's \<Rightarrow> 'a list \<Rightarrow> 's outcome" where
  "ofold f s [] = Done s"
| "ofold f s (x # xs) = obind (f s x) (\<lambda>s'. ofold f s' xs)"

text \<open>
  A computation that takes fuel is settled when from some fuel on its outcome is fixed and is not the lack of fuel,
  that is, when the program it models comes to an end.
\<close>

named_theorems settled_intros \<open>computations that come to an end\<close>

definition settled :: "(nat \<Rightarrow> 'a outcome) \<Rightarrow> bool" where
  "settled f \<longleftrightarrow> (\<exists>n out. out \<noteq> NoFuel \<and> (\<forall>m \<ge> n. f m = out))"

lemma settled_const [settled_intros]: "out \<noteq> NoFuel \<Longrightarrow> settled (\<lambda>n. out)"
  by (auto simp: settled_def)

lemma settled_obind [settled_intros]:
  assumes "settled f" "\<And>x. settled (\<lambda>n. g n x)"
  shows "settled (\<lambda>n. obind (f n) (g n))"
proof -
  obtain n out where n: "out \<noteq> NoFuel" "\<And>m. n \<le> m \<Longrightarrow> f m = out"
    using assms(1) by (auto simp: settled_def)
  show ?thesis
  proof (cases out)
    case (Done x)
    obtain n' out' where n': "out' \<noteq> NoFuel" "\<And>m. n' \<le> m \<Longrightarrow> g m x = out'"
      using assms(2)[of x] by (auto simp: settled_def)
    have "\<forall>m \<ge> max n n'. obind (f m) (g m) = out'" using n(2) n'(2) Done by simp
    with n'(1) show ?thesis unfolding settled_def by blast
  next
    case Panic
    then have "\<forall>m \<ge> n. obind (f m) (g m) = Panic" using n(2) by simp
    then show ?thesis unfolding settled_def by blast
  qed (use n(1) in simp)
qed

lemma settled_if [settled_intros]:
  "(c \<Longrightarrow> settled f) \<Longrightarrow> (\<not> c \<Longrightarrow> settled g) \<Longrightarrow> settled (\<lambda>n. if c then f n else g n)"
  by (cases c) simp_all

lemma settled_option [settled_intros]:
  "settled f \<Longrightarrow> (\<And>x. settled (\<lambda>n. g n x)) \<Longrightarrow> settled (\<lambda>n. case_option (f n) (g n) y)"
  by (cases y) simp_all

lemma settled_sum [settled_intros]:
  "(\<And>x. settled (\<lambda>n. f n x)) \<Longrightarrow> (\<And>x. settled (\<lambda>n. g n x)) \<Longrightarrow> settled (\<lambda>n. case_sum (f n) (g n) s)"
  by (cases s) simp_all

lemma settled_prod [settled_intros]:
  "(\<And>x y. settled (\<lambda>n. f n x y)) \<Longrightarrow> settled (\<lambda>n. case_prod (f n) p)"
  by (cases p) simp

lemma settled_ofold [settled_intros]:
  "(\<And>s x. settled (\<lambda>n. f n s x)) \<Longrightarrow> settled (\<lambda>n. ofold (f n) s xs)"
proof (induction xs arbitrary: s)
  case (Cons x xs)
  then show ?case by (simp add: settled_obind)
qed (simp add: settled_const)

section \<open>Arithmetic on u64 and usize\<close>

definition checked_add :: "nat \<Rightarrow> nat \<Rightarrow> nat option" where
  [arith_defs]: "checked_add a b = (if a + b \<le> U64_MAX then Some (a + b) else None)"

definition checked_sub :: "nat \<Rightarrow> nat \<Rightarrow> nat option" where
  [arith_defs]: "checked_sub a b = (if b \<le> a then Some (a - b) else None)"

definition checked_mul :: "nat \<Rightarrow> nat \<Rightarrow> nat option" where
  [arith_defs]: "checked_mul a b = (if a * b \<le> U64_MAX then Some (a * b) else None)"

definition saturating_add :: "nat \<Rightarrow> nat \<Rightarrow> nat" where
  [arith_defs]: "saturating_add a b = min (a + b) U64_MAX"

definition saturating_mul :: "nat \<Rightarrow> nat \<Rightarrow> nat" where
  [arith_defs]: "saturating_mul a b = min (a * b) U64_MAX"

definition saturating_sub :: "nat \<Rightarrow> nat \<Rightarrow> nat" where
  [arith_defs]: "saturating_sub a b = a - b"

definition add_u64 :: "nat \<Rightarrow> nat \<Rightarrow> nat outcome" where
  [arith_defs]: "add_u64 a b = (if a + b \<le> U64_MAX then Done (a + b) else Panic)"

definition sub_u64 :: "nat \<Rightarrow> nat \<Rightarrow> nat outcome" where
  [arith_defs]: "sub_u64 a b = (if b \<le> a then Done (a - b) else Panic)"

definition mul_u64 :: "nat \<Rightarrow> nat \<Rightarrow> nat outcome" where
  [arith_defs]: "mul_u64 a b = (if a * b \<le> U64_MAX then Done (a * b) else Panic)"

lemma saturating_add_le: "saturating_add a b \<le> a + b"
  by (simp add: saturating_add_def)

lemma saturating_add_u64: "saturating_add a b \<le> U64_MAX"
  by (simp add: saturating_add_def)

lemma checked_add_Some: "checked_add a b = Some c \<longleftrightarrow> c = a + b \<and> c \<le> U64_MAX"
  by (auto simp: checked_add_def)

lemma checked_mul_Some: "checked_mul a b = Some c \<longleftrightarrow> c = a * b \<and> c \<le> U64_MAX"
  by (auto simp: checked_mul_def)

lemma checked_sub_Some: "checked_sub a b = Some c \<longleftrightarrow> b \<le> a \<and> c = a - b"
  by (auto simp: checked_sub_def)

lemmas checked_Some = checked_add_Some checked_mul_Some checked_sub_Some

text \<open>Conversions from \<open>U256\<close>: \<open>u64::try_from\<close> and \<open>usize::try_from\<close> fail above 64 bits,
  \<open>u128::try_from\<close> above 128 bits.\<close>

lemma unat_u256_less: "unat (w :: u256) < 2 ^ 256"
  using unsigned_less[of w] by simp

definition try_u64 :: "u256 \<Rightarrow> nat option" where
  "try_u64 w = (if unat w \<le> U64_MAX then Some (unat w) else None)"

definition try_u128 :: "u256 \<Rightarrow> nat option" where
  "try_u128 w = (if unat w \<le> U128_MAX then Some (unat w) else None)"

lemma try_u64_Some: "try_u64 w = Some n \<longleftrightarrow> n = unat w \<and> n \<le> U64_MAX"
  by (auto simp: try_u64_def)

definition unwrap_or :: "'a \<Rightarrow> 'a option \<Rightarrow> 'a" where
  "unwrap_or d x = (case x of None \<Rightarrow> d | Some y \<Rightarrow> y)"

lemma unwrap_or_simps [simp]: "unwrap_or d None = d" "unwrap_or d (Some y) = y"
  by (simp_all add: unwrap_or_def)

section \<open>Slices\<close>

text \<open>\<open>&v[a..b]\<close>, \<open>v[off..off + n].copy_from_slice(ys)\<close> and \<open>v.resize(n, x)\<close>.\<close>

definition slice :: "'a list \<Rightarrow> nat \<Rightarrow> nat \<Rightarrow> 'a list outcome" where
  "slice xs a b = (if a \<le> b \<and> b \<le> length xs then Done (take (b - a) (drop a xs)) else Panic)"

definition write_slice :: "'a list \<Rightarrow> nat \<Rightarrow> 'a list \<Rightarrow> 'a list outcome" where
  "write_slice xs off ys =
     (if off + length ys \<le> length xs
      then Done (take off xs @ ys @ drop (off + length ys) xs) else Panic)"

definition resize :: "'a list \<Rightarrow> nat \<Rightarrow> 'a \<Rightarrow> 'a list" where
  "resize xs n x = take n xs @ replicate (n - length xs) x"

lemma slice_Done:
  "slice xs a b = Done ys \<longleftrightarrow> a \<le> b \<and> b \<le> length xs \<and> ys = take (b - a) (drop a xs)"
  by (auto simp: slice_def)

lemma length_slice: "slice xs a b = Done ys \<Longrightarrow> length ys = b - a"
  by (auto simp: slice_def split: if_splits)

lemma write_slice_Done:
  "write_slice xs off ys = Done zs \<longleftrightarrow>
     off + length ys \<le> length xs \<and> zs = take off xs @ ys @ drop (off + length ys) xs"
  by (auto simp: write_slice_def)

lemma length_write_slice: "write_slice xs off ys = Done zs \<Longrightarrow> length zs = length xs"
  by (auto simp: write_slice_Done)

lemma slice_NoFuel [simp]: "slice xs a b \<noteq> NoFuel"
  by (simp add: slice_def)

lemma write_slice_NoFuel [simp]: "write_slice xs off ys \<noteq> NoFuel"
  by (simp add: write_slice_def)

lemma slice_write_slice:
  assumes "write_slice xs off ys = Done zs"
  shows "slice zs off (off + length ys) = Done ys"
  using assms by (auto simp: write_slice_Done slice_def)

lemma nth_write_slice:
  assumes "write_slice xs off ys = Done zs" "i < length xs"
  shows "zs ! i = (if off \<le> i \<and> i < off + length ys then ys ! (i - off) else xs ! i)"
  using assms by (auto simp: write_slice_Done nth_append min_def) 

lemma length_resize [simp]: "length (resize xs n x) = n"
  by (simp add: resize_def)

lemma nth_resize:
  "i < n \<Longrightarrow> resize xs n x ! i = (if i < length xs then xs ! i else x)"
  by (auto simp: resize_def nth_append)

lemma resize_id [simp]: "resize xs (length xs) x = xs"
  by (simp add: resize_def)

text \<open>\<open>iter().position(p)\<close>\<close>

fun position :: "('a \<Rightarrow> bool) \<Rightarrow> 'a list \<Rightarrow> nat option" where
  "position p [] = None"
| "position p (x # xs) = (if p x then Some 0 else map_option Suc (position p xs))"

lemma drop_position:
  "drop (unwrap_or (length xs) (position p xs)) xs = dropWhile (\<lambda>x. \<not> p x) xs"
proof (induction xs)
  case (Cons x xs)
  then show ?case by (cases "position p xs") auto
qed simp

lemma position_None: "position p xs = None \<longleftrightarrow> (\<forall>x \<in> set xs. \<not> p x)"
  by (induction xs) auto

lemma position_Some:
  "position p xs = Some i \<Longrightarrow> i < length xs \<and> p (xs ! i) \<and> (\<forall>j < i. \<not> p (xs ! j))"
proof (induction xs arbitrary: i)
  case (Cons x xs)
  then show ?case by (auto split: if_splits simp: less_Suc_eq_0_disj)
qed simp

section \<open>Big-endian bytes\<close>

text \<open>\<open>to_be_bytes\<close> of an \<open>n\<close>-byte integer and \<open>from_be_bytes\<close>.\<close>

fun nat_to_be_bytes :: "nat \<Rightarrow> nat \<Rightarrow> bytes" where
  "nat_to_be_bytes 0 x = []"
| "nat_to_be_bytes (Suc n) x = nat_to_be_bytes n (x div 256) @ [of_nat (x mod 256)]"

definition nat_from_be_bytes :: "bytes \<Rightarrow> nat" where
  "nat_from_be_bytes bs = foldl (\<lambda>acc b. acc * 256 + unat b) 0 bs"

definition u256_to_be_bytes :: "u256 \<Rightarrow> bytes" where
  "u256_to_be_bytes w = nat_to_be_bytes 32 (unat w)"

definition u256_from_be_bytes :: "bytes \<Rightarrow> u256" where
  "u256_from_be_bytes bs = of_nat (nat_from_be_bytes bs)"

lemma length_nat_to_be_bytes [simp]: "length (nat_to_be_bytes n x) = n"
  by (induction n arbitrary: x) auto

lemma length_u256_to_be_bytes [simp]: "length (u256_to_be_bytes w) = 32"
  by (simp add: u256_to_be_bytes_def)

lemma nat_from_be_bytes_Nil [simp]: "nat_from_be_bytes [] = 0"
  by (simp add: nat_from_be_bytes_def)

lemma nat_from_be_bytes_snoc [codec_simps]:
  "nat_from_be_bytes (bs @ [b]) = nat_from_be_bytes bs * 256 + unat b"
  by (simp add: nat_from_be_bytes_def)

lemma unat_byte_less [simp]: "unat (b :: byte) < 256"
  using unsigned_less[of b] by simp

lemma nat_from_be_bytes_less: "nat_from_be_bytes bs < 256 ^ length bs"
proof (induction bs rule: rev_induct)
  case (snoc b bs)
  have "unat b < 256" by simp
  moreover from snoc have "Suc (nat_from_be_bytes bs) * 256 \<le> 256 ^ length bs * 256"
    by (intro mult_le_mono1) simp
  ultimately have "nat_from_be_bytes bs * 256 + unat b < 256 ^ length bs * 256"
    unfolding mult_Suc by (rule_tac less_le_trans) simp_all
  then show ?case by (simp add: codec_simps mult.commute)
qed simp

lemma unat_of_nat_byte: "unat (of_nat (x mod 256) :: byte) = x mod 256"
  by (simp add: unat_of_nat)

lemma nat_from_to_be_bytes [codec_simps]:
  "nat_from_be_bytes (nat_to_be_bytes n x) = x mod 256 ^ n"
proof (induction n arbitrary: x)
  case (Suc n)
  have "x mod (256 * 256 ^ n) = 256 * (x div 256 mod 256 ^ n) + x mod 256"
    by (rule mod_mult2_eq)
  with Suc show ?case by (simp add: codec_simps unat_of_nat_byte)
qed simp

lemma nat_to_from_be_bytes [codec_simps]:
  "nat_to_be_bytes (length bs) (nat_from_be_bytes bs) = bs"
proof (induction bs rule: rev_induct)
  case (snoc b bs)
  have "unat b < 256" by simp
  then have "(nat_from_be_bytes bs * 256 + unat b) div 256 = nat_from_be_bytes bs"
    and "(nat_from_be_bytes bs * 256 + unat b) mod 256 = unat b" by auto
  with snoc show ?case by (simp add: codec_simps)
qed simp

lemma nat_from_be_bytes_append:
  "nat_from_be_bytes (as @ bs) = nat_from_be_bytes as * 256 ^ length bs + nat_from_be_bytes bs"
proof (induction bs rule: rev_induct)
  case (snoc b bs)
  have "nat_from_be_bytes (as @ bs @ [b]) = nat_from_be_bytes (as @ bs) * 256 + unat b"
    using nat_from_be_bytes_snoc[of "as @ bs" b] by simp
  with snoc show ?case by (simp add: nat_from_be_bytes_snoc algebra_simps)
qed simp

lemma nat_from_be_bytes_zeros [simp]: "nat_from_be_bytes (replicate n 0) = 0"
proof (induction n)
  case (Suc n)
  have "nat_from_be_bytes (replicate n 0 @ [0]) = 0"
    using Suc by (simp add: nat_from_be_bytes_snoc)
  then show ?case by (simp add: replicate_append_same)
qed simp

lemma nat_from_be_bytes_drop_zeros:
  "nat_from_be_bytes (dropWhile (\<lambda>b. \<not> b \<noteq> 0) bs) = nat_from_be_bytes bs"
proof (induction bs)
  case (Cons b bs)
  have "nat_from_be_bytes (0 # bs) = nat_from_be_bytes bs"
    using nat_from_be_bytes_append[of "[0]" bs] by (simp add: nat_from_be_bytes_def)
  with Cons show ?case by simp
qed simp

lemma u256_from_to_be_bytes [simp, codec_simps]: "u256_from_be_bytes (u256_to_be_bytes w) = w"
proof -
  have "unat w < 256 ^ 32" using unsigned_less[of w] by simp
  then show ?thesis
    by (simp add: u256_from_be_bytes_def u256_to_be_bytes_def nat_from_to_be_bytes)
qed

lemma unat_u256_from_be_bytes:
  "length bs \<le> 32 \<Longrightarrow> unat (u256_from_be_bytes bs) = nat_from_be_bytes bs"
proof -
  assume "length bs \<le> 32"
  then have "(256::nat) ^ length bs \<le> 256 ^ 32" by (rule power_increasing) simp
  with nat_from_be_bytes_less[of bs] have "nat_from_be_bytes bs < 2 ^ 256" by simp
  then show ?thesis by (simp add: u256_from_be_bytes_def unat_of_nat)
qed

lemma u256_to_from_be_bytes [codec_simps]:
  "length bs = 32 \<Longrightarrow> u256_to_be_bytes (u256_from_be_bytes bs) = bs"
  using nat_to_from_be_bytes[of bs]
  by (simp add: u256_to_be_bytes_def unat_u256_from_be_bytes)

lemma u256_to_be_bytes_inj: "u256_to_be_bytes x = u256_to_be_bytes y \<longleftrightarrow> x = y"
  by (metis u256_from_to_be_bytes)

section \<open>HashMap\<close>

text \<open>
  A \<open>HashMap\<close> is an association list with distinct keys; the list order stands for an iteration
  order.  Only the result of the loops that the components single out depends on it.
\<close>

type_synonym ('k, 'v) hashmap = "('k \<times> 'v) list"

abbreviation hm_get :: "('k, 'v) hashmap \<Rightarrow> 'k \<Rightarrow> 'v option" where
  "hm_get m k \<equiv> map_of m k"

abbreviation hm_insert :: "'k \<Rightarrow> 'v \<Rightarrow> ('k, 'v) hashmap \<Rightarrow> ('k, 'v) hashmap" where
  "hm_insert k v m \<equiv> AList.update k v m"

abbreviation hm_remove :: "'k \<Rightarrow> ('k, 'v) hashmap \<Rightarrow> ('k, 'v) hashmap" where
  "hm_remove k m \<equiv> AList.delete k m"

abbreviation hm_wf :: "('k, 'v) hashmap \<Rightarrow> bool" where
  "hm_wf m \<equiv> distinct (map fst m)"

lemma hm_get_insert [simp]:
  "hm_get (hm_insert k v m) k' = (if k = k' then Some v else hm_get m k')"
  by (simp add: AList.update_conv')

lemma hm_get_remove [simp]:
  "hm_get (hm_remove k m) k' = (if k = k' then None else hm_get m k')"
  by (simp add: AList.delete_conv')

lemma hm_wf_insert [simp]: "hm_wf m \<Longrightarrow> hm_wf (hm_insert k v m)"
  by (rule AList.distinct_update)

lemma hm_wf_remove [simp]: "hm_wf m \<Longrightarrow> hm_wf (hm_remove k m)"
  by (rule AList.distinct_delete)

end
