(* ===== verification/EvmStack.thy ===== *)
theory EvmStack
  imports EvmPrelude
begin

text \<open>
  The operand stack of \<open>src/stack.rs\<close>: a fixed array of \<open>CAP\<close> words and a stack pointer.  The
  array keeps the words that have been popped, so the contents are the first \<open>sp\<close> entries.  The
  interface the interpreter relies on is the locale \<open>bounded_lifo\<close>, a bounded last-in first-out
  sequence; the array implementation is an instance.
\<close>

section \<open>The array implementation\<close>

record stack =
  data :: "u256 list"
  sp :: nat

definition stack_new :: "nat \<Rightarrow> stack" where
  "stack_new cap = \<lparr>data = replicate cap 0, sp = 0\<rparr>"

definition stack_push :: "stack \<Rightarrow> u256 \<Rightarrow> (string + unit) \<times> stack" where
  "stack_push s v =
     (if sp s \<ge> length (data s) then (Inl ''Stack Overflow'', s)
      else (Inr (), s\<lparr>data := (data s)[sp s := v], sp := sp s + 1\<rparr>))"

definition stack_pop :: "stack \<Rightarrow> (string + u256) \<times> stack" where
  "stack_pop s =
     (if sp s = 0 then (Inl ''Stack Underflow'', s)
      else (let s' = s\<lparr>sp := sp s - 1\<rparr> in (Inr (data s' ! sp s'), s')))"

definition stack_peek :: "stack \<Rightarrow> nat \<Rightarrow> string + u256" where
  "stack_peek s depth =
     (if depth = 0 \<or> sp s < depth then Inl ''Stack Underflow on Peek''
      else Inr (data s ! (sp s - depth)))"

definition stack_swap :: "stack \<Rightarrow> nat \<Rightarrow> (string + unit) \<times> stack" where
  "stack_swap s depth =
     (if depth = 0 \<or> sp s \<le> depth then (Inl ''Stack Underflow on Swap'', s)
      else (let top = sp s - 1; target = sp s - 1 - depth
            in (Inr (), s\<lparr>data := (data s)[top := data s ! target, target := data s ! top]\<rparr>)))"

definition stack_values :: "stack \<Rightarrow> u256 list" where
  "stack_values s = take (sp s) (data s)"

text \<open>The invariant: the pointer stays inside the array, so every index above is in range.\<close>

definition stack_ok :: "stack \<Rightarrow> bool" where
  "stack_ok s \<longleftrightarrow> sp s \<le> length (data s)"

lemma length_stack_values: "stack_ok s \<Longrightarrow> length (stack_values s) = sp s"
  by (simp add: stack_ok_def stack_values_def)

lemma stack_new_ok [simp]:
  "stack_ok (stack_new cap)" "stack_values (stack_new cap) = []" "length (data (stack_new cap)) = cap"
  by (simp_all add: stack_ok_def stack_new_def stack_values_def)

lemma stack_push_full:
  "stack_ok s \<Longrightarrow> length (stack_values s) = length (data s) \<Longrightarrow>
   stack_push s v = (Inl ''Stack Overflow'', s)"
  by (simp add: stack_push_def length_stack_values)

lemma stack_push_room:
  assumes "stack_ok s" "length (stack_values s) < length (data s)"
  shows "\<exists>s'. stack_push s v = (Inr (), s') \<and> stack_ok s' \<and> length (data s') = length (data s)
           \<and> stack_values s' = stack_values s @ [v]"
  using assms
  by (auto simp: stack_push_def stack_ok_def stack_values_def take_Suc_conv_app_nth)

lemma stack_pop_empty:
  "stack_ok s \<Longrightarrow> stack_values s = [] \<Longrightarrow> stack_pop s = (Inl ''Stack Underflow'', s)"
  by (auto simp: stack_pop_def stack_ok_def stack_values_def)

lemma stack_pop_snoc:
  assumes "stack_ok s" "stack_values s = xs @ [v]"
  shows "\<exists>s'. stack_pop s = (Inr v, s') \<and> stack_ok s' \<and> length (data s') = length (data s)
           \<and> stack_values s' = xs"
proof -
  have "sp s = Suc (length xs)" using assms length_stack_values[of s] by simp
  moreover have "take (Suc (length xs)) (data s) = xs @ [v]"
    using assms(2) calculation by (simp add: stack_values_def)
  moreover have "length xs < length (data s)"
    using assms(1) calculation(1) by (simp add: stack_ok_def)
  ultimately show ?thesis
    using assms(1)
    by (auto simp: stack_pop_def stack_ok_def stack_values_def take_Suc_conv_app_nth)
qed

lemma stack_peek_values:
  assumes "stack_ok s"
  shows "stack_peek s depth =
           (if 0 < depth \<and> depth \<le> length (stack_values s)
            then Inr (stack_values s ! (length (stack_values s) - depth))
            else Inl ''Stack Underflow on Peek'')"
  using assms by (auto simp: stack_peek_def length_stack_values) (auto simp: stack_values_def)

lemma stack_swap_values:
  assumes "stack_ok s" "0 < depth" "depth < length (stack_values s)"
  defines "n \<equiv> length (stack_values s)"
  shows "\<exists>s'. stack_swap s depth = (Inr (), s') \<and> stack_ok s' \<and> length (data s') = length (data s)
           \<and> stack_values s' = (stack_values s)[n - 1 := stack_values s ! (n - 1 - depth),
                                               n - 1 - depth := stack_values s ! (n - 1)]"
  using assms unfolding n_def
  by (auto simp: stack_swap_def length_stack_values Let_def stack_ok_def)
     (auto simp: stack_values_def take_update_swap)

lemma stack_swap_underflow:
  "stack_ok s \<Longrightarrow> depth = 0 \<or> length (stack_values s) \<le> depth \<Longrightarrow>
   stack_swap s depth = (Inl ''Stack Underflow on Swap'', s)"
  by (auto simp: stack_swap_def length_stack_values)

section \<open>The interface\<close>

locale bounded_lifo =
  fixes vals :: "'s \<Rightarrow> 'v list"
    and cap :: "'s \<Rightarrow> nat"
    and ok :: "'s \<Rightarrow> bool"
    and push :: "'s \<Rightarrow> 'v \<Rightarrow> (string + unit) \<times> 's"
    and pop :: "'s \<Rightarrow> (string + 'v) \<times> 's"
  assumes vals_cap: "ok s \<Longrightarrow> length (vals s) \<le> cap s"
    and push_full: "ok s \<Longrightarrow> length (vals s) = cap s \<Longrightarrow> push s v = (Inl ''Stack Overflow'', s)"
    and push_room: "ok s \<Longrightarrow> length (vals s) < cap s \<Longrightarrow>
          \<exists>s'. push s v = (Inr (), s') \<and> ok s' \<and> cap s' = cap s \<and> vals s' = vals s @ [v]"
    and pop_empty: "ok s \<Longrightarrow> vals s = [] \<Longrightarrow> pop s = (Inl ''Stack Underflow'', s)"
    and pop_snoc: "ok s \<Longrightarrow> vals s = xs @ [v] \<Longrightarrow>
          \<exists>s'. pop s = (Inr v, s') \<and> ok s' \<and> cap s' = cap s \<and> vals s' = xs"
begin

lemma push_ok: "ok s \<Longrightarrow> push s v = (r, s') \<Longrightarrow> ok s' \<and> cap s' = cap s"
proof -
  assume a: "ok s" "push s v = (r, s')"
  show ?thesis
  proof (cases "length (vals s) = cap s")
    case True
    with a push_full[of s v] show ?thesis by auto
  next
    case False
    with a vals_cap[of s] push_room[of s v] show ?thesis by force
  qed
qed

lemma pop_ok: "ok s \<Longrightarrow> pop s = (r, s') \<Longrightarrow> ok s' \<and> cap s' = cap s"
proof -
  assume a: "ok s" "pop s = (r, s')"
  show ?thesis
  proof (cases "vals s" rule: rev_cases)
    case Nil
    with a pop_empty[of s] show ?thesis by auto
  next
    case (snoc xs v)
    with a pop_snoc[of s xs v] show ?thesis by auto
  qed
qed

lemma push_Inr: "ok s \<Longrightarrow> push s v = (Inr u, s') \<Longrightarrow> vals s' = vals s @ [v]"
proof -
  assume a: "ok s" "push s v = (Inr u, s')"
  then have "length (vals s) \<noteq> cap s" using push_full[of s v] by auto
  with a vals_cap[of s] push_room[of s v] show ?thesis by force
qed

lemma push_Inl: "ok s \<Longrightarrow> push s v = (Inl e, s') \<Longrightarrow> s' = s \<and> length (vals s) = cap s"
proof -
  assume a: "ok s" "push s v = (Inl e, s')"
  show ?thesis
  proof (cases "length (vals s) = cap s")
    case True
    with a push_full[of s v] show ?thesis by auto
  next
    case False
    with a vals_cap[of s] push_room[of s v] show ?thesis by force
  qed
qed

lemma pop_Inr: "ok s \<Longrightarrow> pop s = (Inr v, s') \<Longrightarrow> vals s = vals s' @ [v]"
proof -
  assume a: "ok s" "pop s = (Inr v, s')"
  show ?thesis
  proof (cases "vals s" rule: rev_cases)
    case Nil
    with a pop_empty[of s] show ?thesis by auto
  next
    case (snoc xs w)
    with a pop_snoc[of s xs w] show ?thesis by auto
  qed
qed

lemma pop_Inl: "ok s \<Longrightarrow> pop s = (Inl e, s') \<Longrightarrow> s' = s \<and> vals s = []"
proof -
  assume a: "ok s" "pop s = (Inl e, s')"
  show ?thesis
  proof (cases "vals s" rule: rev_cases)
    case Nil
    with a pop_empty[of s] show ?thesis by auto
  next
    case (snoc xs v)
    with a pop_snoc[of s xs v] show ?thesis by auto
  qed
qed

lemma pop_after_push:
  assumes "ok s" "push s v = (Inr u, s1)"
  shows "\<exists>s2. pop s1 = (Inr v, s2) \<and> ok s2 \<and> vals s2 = vals s"
proof -
  from assms have "ok s1" "vals s1 = vals s @ [v]" using push_ok push_Inr by blast+
  then show ?thesis using pop_snoc[of s1 "vals s" v] by auto
qed

end

interpretation evm_stack: bounded_lifo stack_values "\<lambda>s. length (data s)" stack_ok stack_push stack_pop
proof unfold_locales
  show "stack_ok s \<Longrightarrow> length (stack_values s) \<le> length (data s)" for s
    by (simp add: length_stack_values stack_ok_def)
qed (use stack_push_full stack_push_room stack_pop_empty stack_pop_snoc in auto)

lemma stack_swap_ok:
  "stack_ok s \<Longrightarrow> stack_swap s d = (r, s') \<Longrightarrow> stack_ok s' \<and> length (data s') = length (data s)"
  by (auto simp: stack_swap_def stack_ok_def Let_def split: if_splits)

end
