(* ===== verification/EvmOpcodes.thy ===== *)
theory EvmOpcodes
  imports EvmPrelude
begin

text \<open>
  The opcode constants of \<open>src/opcodes.rs\<close>, under their names prefixed with \<open>OP_\<close>.
\<close>

abbreviation OP_STOP :: byte where "OP_STOP \<equiv> 0x00"
abbreviation OP_ADD :: byte where "OP_ADD \<equiv> 0x01"
abbreviation OP_MUL :: byte where "OP_MUL \<equiv> 0x02"
abbreviation OP_SUB :: byte where "OP_SUB \<equiv> 0x03"
abbreviation OP_DIV :: byte where "OP_DIV \<equiv> 0x04"
abbreviation OP_SDIV :: byte where "OP_SDIV \<equiv> 0x05"
abbreviation OP_MOD :: byte where "OP_MOD \<equiv> 0x06"
abbreviation OP_SMOD :: byte where "OP_SMOD \<equiv> 0x07"
abbreviation OP_ADDMOD :: byte where "OP_ADDMOD \<equiv> 0x08"
abbreviation OP_MULMOD :: byte where "OP_MULMOD \<equiv> 0x09"
abbreviation OP_EXP :: byte where "OP_EXP \<equiv> 0x0a"
abbreviation OP_SIGNEXTEND :: byte where "OP_SIGNEXTEND \<equiv> 0x0b"
abbreviation OP_KECCAK256 :: byte where "OP_KECCAK256 \<equiv> 0x20"
abbreviation OP_MLOAD :: byte where "OP_MLOAD \<equiv> 0x51"
abbreviation OP_MSTORE :: byte where "OP_MSTORE \<equiv> 0x52"
abbreviation OP_MSTORE8 :: byte where "OP_MSTORE8 \<equiv> 0x53"
abbreviation OP_JUMP :: byte where "OP_JUMP \<equiv> 0x56"
abbreviation OP_JUMPI :: byte where "OP_JUMPI \<equiv> 0x57"
abbreviation OP_MSIZE :: byte where "OP_MSIZE \<equiv> 0x59"
abbreviation OP_MCOPY :: byte where "OP_MCOPY \<equiv> 0x5e"
abbreviation OP_JUMPDEST :: byte where "OP_JUMPDEST \<equiv> 0x5b"
abbreviation OP_PUSH1 :: byte where "OP_PUSH1 \<equiv> 0x60"
abbreviation OP_PUSH2 :: byte where "OP_PUSH2 \<equiv> 0x61"
abbreviation OP_LT :: byte where "OP_LT \<equiv> 0x10"
abbreviation OP_GT :: byte where "OP_GT \<equiv> 0x11"
abbreviation OP_EQ :: byte where "OP_EQ \<equiv> 0x14"
abbreviation OP_ISZERO :: byte where "OP_ISZERO \<equiv> 0x15"
abbreviation OP_AND :: byte where "OP_AND \<equiv> 0x16"
abbreviation OP_OR :: byte where "OP_OR \<equiv> 0x17"
abbreviation OP_XOR :: byte where "OP_XOR \<equiv> 0x18"
abbreviation OP_NOT :: byte where "OP_NOT \<equiv> 0x19"
abbreviation OP_BYTE :: byte where "OP_BYTE \<equiv> 0x1a"
abbreviation OP_SHL :: byte where "OP_SHL \<equiv> 0x1b"
abbreviation OP_SHR :: byte where "OP_SHR \<equiv> 0x1c"
abbreviation OP_SAR :: byte where "OP_SAR \<equiv> 0x1d"
abbreviation OP_SLOAD :: byte where "OP_SLOAD \<equiv> 0x54"
abbreviation OP_SSTORE :: byte where "OP_SSTORE \<equiv> 0x55"
abbreviation OP_TLOAD :: byte where "OP_TLOAD \<equiv> 0x5c"
abbreviation OP_TSTORE :: byte where "OP_TSTORE \<equiv> 0x5d"
abbreviation OP_RETURN :: byte where "OP_RETURN \<equiv> 0xf3"
abbreviation OP_REVERT :: byte where "OP_REVERT \<equiv> 0xfd"
abbreviation OP_CALLDATALOAD :: byte where "OP_CALLDATALOAD \<equiv> 0x35"
abbreviation OP_CALLDATASIZE :: byte where "OP_CALLDATASIZE \<equiv> 0x36"
abbreviation OP_CALLDATACOPY :: byte where "OP_CALLDATACOPY \<equiv> 0x37"
abbreviation OP_CODECOPY :: byte where "OP_CODECOPY \<equiv> 0x39"
abbreviation OP_ADDRESS :: byte where "OP_ADDRESS \<equiv> 0x30"
abbreviation OP_BALANCE :: byte where "OP_BALANCE \<equiv> 0x31"
abbreviation OP_BLOCKHASH :: byte where "OP_BLOCKHASH \<equiv> 0x40"
abbreviation OP_CALLER :: byte where "OP_CALLER \<equiv> 0x33"
abbreviation OP_CALLVALUE :: byte where "OP_CALLVALUE \<equiv> 0x34"
abbreviation OP_CODESIZE :: byte where "OP_CODESIZE \<equiv> 0x38"
abbreviation OP_EXTCODESIZE :: byte where "OP_EXTCODESIZE \<equiv> 0x3b"
abbreviation OP_EXTCODECOPY :: byte where "OP_EXTCODECOPY \<equiv> 0x3c"
abbreviation OP_GASPRICE :: byte where "OP_GASPRICE \<equiv> 0x3a"
abbreviation OP_EXTCODEHASH :: byte where "OP_EXTCODEHASH \<equiv> 0x3f"
abbreviation OP_RETURNDATASIZE :: byte where "OP_RETURNDATASIZE \<equiv> 0x3d"
abbreviation OP_RETURNDATACOPY :: byte where "OP_RETURNDATACOPY \<equiv> 0x3e"
abbreviation OP_ORIGIN :: byte where "OP_ORIGIN \<equiv> 0x32"
abbreviation OP_COINBASE :: byte where "OP_COINBASE \<equiv> 0x41"
abbreviation OP_TIMESTAMP :: byte where "OP_TIMESTAMP \<equiv> 0x42"
abbreviation OP_NUMBER :: byte where "OP_NUMBER \<equiv> 0x43"
abbreviation OP_PREVRANDAO :: byte where "OP_PREVRANDAO \<equiv> 0x44"
abbreviation OP_GASLIMIT :: byte where "OP_GASLIMIT \<equiv> 0x45"
abbreviation OP_CHAINID :: byte where "OP_CHAINID \<equiv> 0x46"
abbreviation OP_BASEFEE :: byte where "OP_BASEFEE \<equiv> 0x48"
abbreviation OP_SELFBALANCE :: byte where "OP_SELFBALANCE \<equiv> 0x47"
abbreviation OP_BLOBHASH :: byte where "OP_BLOBHASH \<equiv> 0x49"
abbreviation OP_BLOBBASEFEE :: byte where "OP_BLOBBASEFEE \<equiv> 0x4a"
abbreviation OP_GAS :: byte where "OP_GAS \<equiv> 0x5a"
abbreviation OP_LOG0 :: byte where "OP_LOG0 \<equiv> 0xa0"
abbreviation OP_LOG1 :: byte where "OP_LOG1 \<equiv> 0xa1"
abbreviation OP_LOG2 :: byte where "OP_LOG2 \<equiv> 0xa2"
abbreviation OP_LOG3 :: byte where "OP_LOG3 \<equiv> 0xa3"
abbreviation OP_LOG4 :: byte where "OP_LOG4 \<equiv> 0xa4"
abbreviation OP_CALL :: byte where "OP_CALL \<equiv> 0xf1"
abbreviation OP_CREATE :: byte where "OP_CREATE \<equiv> 0xf0"
abbreviation OP_DELEGATECALL :: byte where "OP_DELEGATECALL \<equiv> 0xf4"
abbreviation OP_CREATE2 :: byte where "OP_CREATE2 \<equiv> 0xf5"
abbreviation OP_STATICCALL :: byte where "OP_STATICCALL \<equiv> 0xfa"
abbreviation OP_INVALID :: byte where "OP_INVALID \<equiv> 0xfe"
abbreviation OP_SELFDESTRUCT :: byte where "OP_SELFDESTRUCT \<equiv> 0xff"
abbreviation OP_PUSH3 :: byte where "OP_PUSH3 \<equiv> 0x62"
abbreviation OP_PUSH4 :: byte where "OP_PUSH4 \<equiv> 0x63"
abbreviation OP_PUSH5 :: byte where "OP_PUSH5 \<equiv> 0x64"
abbreviation OP_PUSH6 :: byte where "OP_PUSH6 \<equiv> 0x65"
abbreviation OP_PUSH7 :: byte where "OP_PUSH7 \<equiv> 0x66"
abbreviation OP_PUSH8 :: byte where "OP_PUSH8 \<equiv> 0x67"
abbreviation OP_PUSH9 :: byte where "OP_PUSH9 \<equiv> 0x68"
abbreviation OP_PUSH10 :: byte where "OP_PUSH10 \<equiv> 0x69"
abbreviation OP_PUSH11 :: byte where "OP_PUSH11 \<equiv> 0x6a"
abbreviation OP_PUSH12 :: byte where "OP_PUSH12 \<equiv> 0x6b"
abbreviation OP_PUSH13 :: byte where "OP_PUSH13 \<equiv> 0x6c"
abbreviation OP_PUSH14 :: byte where "OP_PUSH14 \<equiv> 0x6d"
abbreviation OP_PUSH15 :: byte where "OP_PUSH15 \<equiv> 0x6e"
abbreviation OP_PUSH16 :: byte where "OP_PUSH16 \<equiv> 0x6f"
abbreviation OP_PUSH17 :: byte where "OP_PUSH17 \<equiv> 0x70"
abbreviation OP_PUSH18 :: byte where "OP_PUSH18 \<equiv> 0x71"
abbreviation OP_PUSH19 :: byte where "OP_PUSH19 \<equiv> 0x72"
abbreviation OP_PUSH20 :: byte where "OP_PUSH20 \<equiv> 0x73"
abbreviation OP_PUSH21 :: byte where "OP_PUSH21 \<equiv> 0x74"
abbreviation OP_PUSH22 :: byte where "OP_PUSH22 \<equiv> 0x75"
abbreviation OP_PUSH23 :: byte where "OP_PUSH23 \<equiv> 0x76"
abbreviation OP_PUSH24 :: byte where "OP_PUSH24 \<equiv> 0x77"
abbreviation OP_PUSH25 :: byte where "OP_PUSH25 \<equiv> 0x78"
abbreviation OP_PUSH26 :: byte where "OP_PUSH26 \<equiv> 0x79"
abbreviation OP_PUSH27 :: byte where "OP_PUSH27 \<equiv> 0x7a"
abbreviation OP_PUSH28 :: byte where "OP_PUSH28 \<equiv> 0x7b"
abbreviation OP_PUSH29 :: byte where "OP_PUSH29 \<equiv> 0x7c"
abbreviation OP_PUSH30 :: byte where "OP_PUSH30 \<equiv> 0x7d"
abbreviation OP_PUSH31 :: byte where "OP_PUSH31 \<equiv> 0x7e"
abbreviation OP_PUSH32 :: byte where "OP_PUSH32 \<equiv> 0x7f"
abbreviation OP_DUP1 :: byte where "OP_DUP1 \<equiv> 0x80"
abbreviation OP_DUP2 :: byte where "OP_DUP2 \<equiv> 0x81"
abbreviation OP_DUP3 :: byte where "OP_DUP3 \<equiv> 0x82"
abbreviation OP_DUP4 :: byte where "OP_DUP4 \<equiv> 0x83"
abbreviation OP_DUP5 :: byte where "OP_DUP5 \<equiv> 0x84"
abbreviation OP_DUP6 :: byte where "OP_DUP6 \<equiv> 0x85"
abbreviation OP_DUP7 :: byte where "OP_DUP7 \<equiv> 0x86"
abbreviation OP_DUP8 :: byte where "OP_DUP8 \<equiv> 0x87"
abbreviation OP_DUP9 :: byte where "OP_DUP9 \<equiv> 0x88"
abbreviation OP_DUP10 :: byte where "OP_DUP10 \<equiv> 0x89"
abbreviation OP_DUP11 :: byte where "OP_DUP11 \<equiv> 0x8a"
abbreviation OP_DUP12 :: byte where "OP_DUP12 \<equiv> 0x8b"
abbreviation OP_DUP13 :: byte where "OP_DUP13 \<equiv> 0x8c"
abbreviation OP_DUP14 :: byte where "OP_DUP14 \<equiv> 0x8d"
abbreviation OP_DUP15 :: byte where "OP_DUP15 \<equiv> 0x8e"
abbreviation OP_DUP16 :: byte where "OP_DUP16 \<equiv> 0x8f"
abbreviation OP_SWAP1 :: byte where "OP_SWAP1 \<equiv> 0x90"
abbreviation OP_SWAP2 :: byte where "OP_SWAP2 \<equiv> 0x91"
abbreviation OP_SWAP3 :: byte where "OP_SWAP3 \<equiv> 0x92"
abbreviation OP_SWAP4 :: byte where "OP_SWAP4 \<equiv> 0x93"
abbreviation OP_SWAP5 :: byte where "OP_SWAP5 \<equiv> 0x94"
abbreviation OP_SWAP6 :: byte where "OP_SWAP6 \<equiv> 0x95"
abbreviation OP_SWAP7 :: byte where "OP_SWAP7 \<equiv> 0x96"
abbreviation OP_SWAP8 :: byte where "OP_SWAP8 \<equiv> 0x97"
abbreviation OP_SWAP9 :: byte where "OP_SWAP9 \<equiv> 0x98"
abbreviation OP_SWAP10 :: byte where "OP_SWAP10 \<equiv> 0x99"
abbreviation OP_SWAP11 :: byte where "OP_SWAP11 \<equiv> 0x9a"
abbreviation OP_SWAP12 :: byte where "OP_SWAP12 \<equiv> 0x9b"
abbreviation OP_SWAP13 :: byte where "OP_SWAP13 \<equiv> 0x9c"
abbreviation OP_SWAP14 :: byte where "OP_SWAP14 \<equiv> 0x9d"
abbreviation OP_SWAP15 :: byte where "OP_SWAP15 \<equiv> 0x9e"
abbreviation OP_SWAP16 :: byte where "OP_SWAP16 \<equiv> 0x9f"

end
