(* ===== verification/EvmDisasm.thy ===== *)
theory EvmDisasm
  imports EvmOpcodes
begin

text \<open>
  The disassembler of \<open>src/disasm.rs\<close> and the jump-destination analysis of \<open>src/vm.rs\<close>.  Both
  walk the code from its first byte, over the immediate bytes of each \<open>PUSH\<close>; the relation
  \<open>follows\<close> is that walk.  Disassembling loses no byte, and the analysis marks exactly the
  \<open>JUMPDEST\<close> instructions of the disassembly.
\<close>

section \<open>Mnemonics\<close>

record instruction =
  ins_pc :: usize
  ins_opcode :: byte
  ins_mnemonic :: string
  push_bytes :: "bytes option"

definition push_mnemonic :: "byte \<Rightarrow> string" where
  "push_mnemonic n =
     [''PUSH1'', ''PUSH2'', ''PUSH3'', ''PUSH4'', ''PUSH5'', ''PUSH6'', ''PUSH7'', ''PUSH8'',
      ''PUSH9'', ''PUSH10'', ''PUSH11'', ''PUSH12'', ''PUSH13'', ''PUSH14'', ''PUSH15'',
      ''PUSH16'', ''PUSH17'', ''PUSH18'', ''PUSH19'', ''PUSH20'', ''PUSH21'', ''PUSH22'',
      ''PUSH23'', ''PUSH24'', ''PUSH25'', ''PUSH26'', ''PUSH27'', ''PUSH28'', ''PUSH29'',
      ''PUSH30'', ''PUSH31'', ''PUSH32''] ! unat (n - 1)"

definition dup_mnemonic :: "byte \<Rightarrow> string" where
  "dup_mnemonic index =
     [''DUP1'', ''DUP2'', ''DUP3'', ''DUP4'', ''DUP5'', ''DUP6'', ''DUP7'', ''DUP8'',
      ''DUP9'', ''DUP10'', ''DUP11'', ''DUP12'', ''DUP13'', ''DUP14'', ''DUP15'', ''DUP16''] ! unat (index - 1)"

definition swap_mnemonic :: "byte \<Rightarrow> string" where
  "swap_mnemonic index =
     [''SWAP1'', ''SWAP2'', ''SWAP3'', ''SWAP4'', ''SWAP5'', ''SWAP6'', ''SWAP7'', ''SWAP8'',
      ''SWAP9'', ''SWAP10'', ''SWAP11'', ''SWAP12'', ''SWAP13'', ''SWAP14'', ''SWAP15'',
      ''SWAP16''] ! unat (index - 1)"

definition log_mnemonic :: "byte \<Rightarrow> string" where
  "log_mnemonic index = [''LOG0'', ''LOG1'', ''LOG2'', ''LOG3'', ''LOG4''] ! unat index"

definition opcode_mnemonic :: "byte \<Rightarrow> string" where
  "opcode_mnemonic opcode =
     (case map_of [
      (OP_STOP, ''STOP''), (OP_ADD, ''ADD''), (OP_MUL, ''MUL''), (OP_SUB, ''SUB''),
      (OP_DIV, ''DIV''), (OP_SDIV, ''SDIV''), (OP_MOD, ''MOD''), (OP_SMOD, ''SMOD''),
      (OP_ADDMOD, ''ADDMOD''), (OP_MULMOD, ''MULMOD''), (OP_EXP, ''EXP''),
      (OP_SIGNEXTEND, ''SIGNEXTEND''), (OP_LT, ''LT''), (OP_GT, ''GT''), (OP_EQ, ''EQ''),
      (OP_ISZERO, ''ISZERO''), (OP_AND, ''AND''), (OP_OR, ''OR''), (OP_XOR, ''XOR''),
      (OP_NOT, ''NOT''), (OP_BYTE, ''BYTE''), (OP_SHL, ''SHL''), (OP_SHR, ''SHR''),
      (OP_SAR, ''SAR''), (OP_KECCAK256, ''KECCAK256''), (OP_ADDRESS, ''ADDRESS''),
      (OP_ORIGIN, ''ORIGIN''), (OP_CALLER, ''CALLER''), (OP_CALLVALUE, ''CALLVALUE''),
      (OP_CALLDATALOAD, ''CALLDATALOAD''), (OP_CALLDATASIZE, ''CALLDATASIZE''),
      (OP_CALLDATACOPY, ''CALLDATACOPY''), (OP_CODESIZE, ''CODESIZE''),
      (OP_CODECOPY, ''CODECOPY''), (OP_GASPRICE, ''GASPRICE''),
      (OP_RETURNDATASIZE, ''RETURNDATASIZE''), (OP_RETURNDATACOPY, ''RETURNDATACOPY''),
      (OP_COINBASE, ''COINBASE''), (OP_TIMESTAMP, ''TIMESTAMP''), (OP_NUMBER, ''NUMBER''),
      (OP_PREVRANDAO, ''PREVRANDAO''), (OP_GASLIMIT, ''GASLIMIT''), (OP_CHAINID, ''CHAINID''),
      (OP_BASEFEE, ''BASEFEE''), (OP_BLOBHASH, ''BLOBHASH''), (OP_BLOBBASEFEE, ''BLOBBASEFEE''),
      (OP_MLOAD, ''MLOAD''), (OP_MSTORE, ''MSTORE''), (OP_MSTORE8, ''MSTORE8''),
      (OP_SLOAD, ''SLOAD''), (OP_SSTORE, ''SSTORE''), (OP_JUMP, ''JUMP''),
      (OP_JUMPI, ''JUMPI''), (OP_MSIZE, ''MSIZE''), (OP_MCOPY, ''MCOPY''), (OP_GAS, ''GAS''),
      (OP_JUMPDEST, ''JUMPDEST''), (OP_CREATE, ''CREATE''), (OP_CALL, ''CALL''),
      (OP_DELEGATECALL, ''DELEGATECALL''), (OP_CREATE2, ''CREATE2''),
      (OP_STATICCALL, ''STATICCALL''), (OP_RETURN, ''RETURN''), (OP_REVERT, ''REVERT'')] opcode of
        Some name \<Rightarrow> name
      | None \<Rightarrow>
          if 0x80 \<le> opcode \<and> opcode \<le> 0x8f then dup_mnemonic (opcode - 0x7f)
          else if 0x90 \<le> opcode \<and> opcode \<le> 0x9f then swap_mnemonic (opcode - 0x8f)
          else if 0xa0 \<le> opcode \<and> opcode \<le> 0xa4 then log_mnemonic (opcode - 0xa0)
          else if 0x60 \<le> opcode \<and> opcode \<le> 0x7f then push_mnemonic (opcode - 0x5f)
          else ''INVALID'')"

section \<open>Disassembly\<close>

definition is_push :: "byte \<Rightarrow> bool" where
  "is_push op \<longleftrightarrow> OP_PUSH1 \<le> op \<and> op \<le> OP_PUSH32"

definition push_len :: "byte \<Rightarrow> nat" where
  "push_len op = unat (op - OP_PUSH1 + 1)"

text \<open>One round of the loop: the instruction at \<open>pc\<close>.\<close>

definition instruction_at :: "bytes \<Rightarrow> nat \<Rightarrow> instruction" where
  "instruction_at code pc =
     (let opcode = code ! pc;
          imm = (if is_push opcode
                 then let available = min (length code - (pc + 1)) (push_len opcode)
                      in Some (take available (drop (pc + 1) code))
                 else None)
      in \<lparr>ins_pc = pc, ins_opcode = opcode, ins_mnemonic = opcode_mnemonic opcode, push_bytes = imm\<rparr>)"

definition immediate_len :: "instruction \<Rightarrow> nat" where
  "immediate_len ins = (case push_bytes ins of None \<Rightarrow> 0 | Some bs \<Rightarrow> length bs)"

function disassemble_from :: "bytes \<Rightarrow> nat \<Rightarrow> instruction list" where
  "disassemble_from code pc =
     (if pc < length code
      then let ins = instruction_at code pc; imm = immediate_len ins
           in ins # (if is_push (ins_opcode ins) \<and> imm < push_len (ins_opcode ins) then []
                     else disassemble_from code (pc + (1 + imm)))
      else [])"
  by pat_completeness auto
termination
  by (relation "measure (\<lambda>(code, pc). length code - pc)") auto

declare disassemble_from.simps [simp del]

definition disassemble :: "bytes \<Rightarrow> instruction list" where
  "disassemble code = disassemble_from code 0"

text \<open>The bytes an instruction was read from.\<close>

definition instruction_bytes :: "instruction \<Rightarrow> bytes" where
  "instruction_bytes ins = ins_opcode ins # (case push_bytes ins of None \<Rightarrow> [] | Some bs \<Rightarrow> bs)"

section \<open>Jump destinations\<close>

function analyze_jumpdests_from :: "bytes \<Rightarrow> nat \<Rightarrow> bool list \<Rightarrow> bool list" where
  "analyze_jumpdests_from code i valid =
     (if i < length code
      then let op = code ! i
           in if op = OP_JUMPDEST then analyze_jumpdests_from code (i + 1) (valid[i := True])
              else if OP_PUSH1 \<le> op \<and> op \<le> 0x7F
                   then analyze_jumpdests_from code (i + unat (op - OP_PUSH1 + 1) + 1) valid
                   else analyze_jumpdests_from code (i + 1) valid
      else valid)"
  by pat_completeness auto
termination
  by (relation "measure (\<lambda>(code, i, valid). length code - i)") auto

declare analyze_jumpdests_from.simps [simp del]

definition analyze_jumpdests :: "bytes \<Rightarrow> bool list" where
  "analyze_jumpdests code = analyze_jumpdests_from code 0 (replicate (length code) False)"

section \<open>The walk over the instructions\<close>

definition next_pc :: "bytes \<Rightarrow> nat \<Rightarrow> nat" where
  "next_pc code i = i + 1 + (if is_push (code ! i) then push_len (code ! i) else 0)"

inductive follows :: "bytes \<Rightarrow> nat \<Rightarrow> nat \<Rightarrow> bool" for code where
  here: "follows code i i"
| step: "i < length code \<Longrightarrow> follows code (next_pc code i) k \<Longrightarrow> follows code i k"

inductive_simps follows_unfold: "follows code i k"

lemma next_pc_gt: "i < next_pc code i"
  by (simp add: next_pc_def)

lemma follows_le: "follows code i k \<Longrightarrow> i \<le> k"
  by (induction rule: follows.induct) (use next_pc_gt less_imp_le_nat le_trans in blast)+

lemma follows_past: "length code \<le> i \<Longrightarrow> follows code i k \<longleftrightarrow> k = i"
  by (subst follows_unfold) auto

lemma follows_next: "follows code i k \<Longrightarrow> k < length code \<Longrightarrow> follows code i (next_pc code k)"
proof (induction rule: follows.induct)
  case (here i)
  then show ?case by (blast intro: follows.intros)
next
  case (step i k)
  then show ?case by (blast intro: follows.step)
qed

text \<open>No instruction starts inside another one.\<close>

lemma follows_gap:
  assumes "follows code i k" "follows code i j" "j < k" "j < length code"
  shows "next_pc code j \<le> k"
  using assms
proof (induction arbitrary: j rule: follows.induct)
  case (here i)
  then show ?case using follows_le by force
next
  case (step i k)
  show ?case
  proof (cases "j = i")
    case True
    then show ?thesis using step.hyps(2) follows_le by blast
  next
    case False
    then have "follows code (next_pc code i) j"
      using step.prems(1) follows_unfold[of code i j] by blast
    then show ?thesis using step by blast
  qed
qed

section \<open>What the two passes compute\<close>

lemma instruction_at_fields [simp]:
  "ins_pc (instruction_at code pc) = pc" "ins_opcode (instruction_at code pc) = code ! pc"
  by (simp_all add: instruction_at_def Let_def)

lemma push_bytes_instruction_at:
  "push_bytes (instruction_at code pc) =
     (if is_push (code ! pc) then Some (take (push_len (code ! pc)) (drop (pc + 1) code)) else None)"
  by (simp add: instruction_at_def Let_def min_def)

lemma immediate_len_instruction_at:
  "immediate_len (instruction_at code pc) =
     (if is_push (code ! pc) then min (length code - (pc + 1)) (push_len (code ! pc)) else 0)"
  by (simp add: immediate_len_def push_bytes_instruction_at)

lemma disassemble_from_pcs:
  "set (disassemble_from code i) = {instruction_at code k | k. k < length code \<and> follows code i k}"
proof (induction code i rule: disassemble_from.induct)
  case (1 code i)
  show ?case
  proof (cases "i < length code")
    case False
    then show ?thesis
      by (subst disassemble_from.simps) (auto simp: follows_past)
  next
    case True
    let ?ins = "instruction_at code i"
    let ?stop = "is_push (code ! i) \<and> immediate_len ?ins < push_len (code ! i)"
    have walk: "follows code i k \<longleftrightarrow> k = i \<or> follows code (next_pc code i) k" for k
      using True follows_unfold[of code i k] by auto
    show ?thesis
    proof (cases ?stop)
      case True
      then have "length code \<le> next_pc code i"
        by (auto simp: immediate_len_instruction_at next_pc_def min_def split: if_splits)
      then have one: "k < length code \<and> follows code i k \<longleftrightarrow> k = i" for k
        using walk[of k] follows_past[of code "next_pc code i" k] \<open>i < length code\<close> by auto
      have "disassemble_from code i = [?ins]"
        using True \<open>i < length code\<close> by (subst disassemble_from.simps) (simp add: Let_def)
      then show ?thesis by (simp add: one)
    next
      case False
      then have np: "i + (1 + immediate_len ?ins) = next_pc code i"
        by (auto simp: immediate_len_instruction_at next_pc_def)
      have "set (disassemble_from code (next_pc code i)) =
          {instruction_at code k | k. k < length code \<and> follows code (next_pc code i) k}"
        using "1.IH"[OF True refl refl] False np by simp
      moreover have "disassemble_from code i = ?ins # disassemble_from code (next_pc code i)"
        using False np \<open>i < length code\<close> by (subst disassemble_from.simps) (auto simp: Let_def)
      ultimately show ?thesis using walk \<open>i < length code\<close> by auto
    qed
  qed
qed

lemma disassemble_from_bytes:
  "concat (map instruction_bytes (disassemble_from code i)) = drop i code"
proof (induction code i rule: disassemble_from.induct)
  case (1 code i)
  show ?case
  proof (cases "i < length code")
    case False
    then show ?thesis by (subst disassemble_from.simps) simp
  next
    case True
    let ?ins = "instruction_at code i"
    let ?imm = "immediate_len ?ins"
    have ins: "instruction_bytes ?ins = code ! i # take ?imm (drop (i + 1) code)"
      by (auto simp: instruction_bytes_def immediate_len_instruction_at push_bytes_instruction_at min_def)
    have split: "drop i code = code ! i # take ?imm (drop (i + 1) code) @ drop (i + (1 + ?imm)) code"
      using True append_take_drop_id[of ?imm "drop (Suc i) code"]
      by (simp add: Cons_nth_drop_Suc[symmetric] add.commute)
    show ?thesis
    proof (cases "is_push (code ! i) \<and> ?imm < push_len (code ! i)")
      case stop: True
      then have "length code \<le> i + (1 + ?imm)"
        by (auto simp: immediate_len_instruction_at min_def split: if_splits)
      with True stop ins split show ?thesis
        by (subst disassemble_from.simps) (simp add: Let_def)
    next
      case go: False
      with "1.IH"[OF True refl refl] True ins split show ?thesis
        by (subst disassemble_from.simps) (auto simp: Let_def)
    qed
  qed
qed

lemma length_analyze_jumpdests_from [simp]:
  "length (analyze_jumpdests_from code i valid) = length valid"
proof (induction code i valid rule: analyze_jumpdests_from.induct)
  case (1 code i valid)
  then show ?case
    by (subst analyze_jumpdests_from.simps) (auto simp: Let_def)
qed

lemma analyze_jumpdests_from_nth:
  assumes "length valid = length code" "k < length code"
  shows "analyze_jumpdests_from code i valid ! k \<longleftrightarrow>
           valid ! k \<or> (follows code i k \<and> code ! k = OP_JUMPDEST)"
  using assms
proof (induction code i valid rule: analyze_jumpdests_from.induct)
  case (1 code i valid)
  show ?case
  proof (cases "i < length code")
    case False
    then show ?thesis
      using 1 by (subst analyze_jumpdests_from.simps) (auto simp: follows_past)
  next
    case True
    have walk: "follows code i k \<longleftrightarrow> k = i \<or> follows code (next_pc code i) k"
      using True follows_unfold[of code i k] by auto
    show ?thesis
    proof (cases "code ! i = OP_JUMPDEST")
      case jd: True
      then have "next_pc code i = i + 1" by (simp add: next_pc_def is_push_def)
      with 1 True jd walk show ?thesis
        by (subst analyze_jumpdests_from.simps) (auto simp: nth_list_update Let_def)
    next
      case njd: False
      then have "next_pc code i =
          (if OP_PUSH1 \<le> code ! i \<and> code ! i \<le> 0x7F then i + unat (code ! i - OP_PUSH1 + 1) + 1 else i + 1)"
        by (simp add: next_pc_def is_push_def push_len_def)
      with 1 True njd walk show ?thesis
        by (subst analyze_jumpdests_from.simps) (auto simp: Let_def)
    qed
  qed
qed

lemma length_analyze_jumpdests [simp]: "length (analyze_jumpdests code) = length code"
  by (simp add: analyze_jumpdests_def)

lemma analyze_jumpdests_nth:
  "k < length code \<Longrightarrow>
   analyze_jumpdests code ! k \<longleftrightarrow> follows code 0 k \<and> code ! k = OP_JUMPDEST"
  by (simp add: analyze_jumpdests_def analyze_jumpdests_from_nth)

section \<open>Properties\<close>

text \<open>C20.  Disassembling loses nothing: the opcodes and immediates of the listed instructions, in order, are the code,
  also when a final PUSH is cut short.\<close>

theorem disassemble_roundtrip: "concat (map instruction_bytes (disassemble code)) = code"
  using disassemble_from_bytes[of code 0] by (simp add: disassemble_def)

text \<open>C21.  The interpreter and the disassembler agree on where instructions start: a position is a valid jump target
  exactly if the listing has a JUMPDEST instruction there.\<close>

theorem jumpdests_are_listed:
  assumes "k < length code"
  shows "analyze_jumpdests code ! k \<longleftrightarrow>
    (\<exists>ins \<in> set (disassemble code). ins_pc ins = k \<and> ins_opcode ins = OP_JUMPDEST)"
  using assms disassemble_from_pcs[of code 0]
  by (auto simp: analyze_jumpdests_nth disassemble_def)

theorem jumpdests_are_listed_witness:
  "\<not> analyze_jumpdests [0x60, 0x5b, 0x5b] ! 1 \<and> analyze_jumpdests [0x60, 0x5b, 0x5b] ! 2"
  using jumpdests_are_listed[of 1 "[0x60, 0x5b, 0x5b]"] jumpdests_are_listed[of 2 "[0x60, 0x5b, 0x5b]"]
  by (simp add: analyze_jumpdests_def analyze_jumpdests_from.simps)

end
