(* ===== verification/EvmRlp.thy ===== *)
theory EvmRlp
  imports EvmPrelude
begin

text \<open>
  The RLP encoders of the program: \<open>rlp_bytes\<close> and \<open>rlp_list\<close> of \<open>src/mpt/node.rs\<close>, the nonce and
  creation encoders of \<open>src/crypto.rs\<close> with the addresses derived from them, and the account
  encoder of \<open>src/mpt/account.rs\<close>.  The Keccak-256 of the \<open>tiny-keccak\<close> package is the parameter
  \<open>K\<close>.  The lemmas show that an encoding determines what was encoded.
\<close>

section \<open>Strings and lists\<close>

text \<open>\<open>len.to_be_bytes()\<close> of a \<open>usize\<close> without its leading zero bytes, the last byte kept.\<close>

definition length_bytes :: "nat \<Rightarrow> bytes" where
  "length_bytes n =
     (let len = nat_to_be_bytes 8 n
      in drop (unwrap_or (length len - 1) (position (\<lambda>b. b \<noteq> 0) len)) len)"

definition rlp_bytes :: "bytes \<Rightarrow> bytes" where
  "rlp_bytes bs =
     (if length bs = 1 \<and> bs ! 0 < 0x80 then bs
      else if length bs \<le> 55 then (0x80 + of_nat (length bs)) # bs
      else let lb = length_bytes (length bs) in (0xb7 + of_nat (length lb)) # lb @ bs)"

definition rlp_list :: "bytes list \<Rightarrow> bytes" where
  "rlp_list items =
     (let payload_len = sum_list (map length items); payload = concat items
      in if payload_len \<le> 55 then (0xc0 + of_nat payload_len) # payload
         else let lb = length_bytes payload_len in (0xf7 + of_nat (length lb)) # lb @ payload)"

section \<open>Creation addresses\<close>

definition encode_nonce :: "u64 \<Rightarrow> bytes" where
  "encode_nonce nonce =
     (if nonce = 0 then [0x80]
      else let bs = nat_to_be_bytes 8 nonce;
               v = drop (unwrap_or 8 (position (\<lambda>b. b \<noteq> 0) bs)) bs
           in if length v = 1 \<and> v ! 0 < 0x80 then v else (0x80 + of_nat (length v)) # v)"

definition rlp_encode_create :: "address \<Rightarrow> u64 \<Rightarrow> bytes" where
  "rlp_encode_create sender nonce =
     (let payload = 0x94 # sender @ encode_nonce nonce
      in (0xc0 + of_nat (length payload)) # payload)"

definition derive_create_address :: "(bytes \<Rightarrow> bytes) \<Rightarrow> address \<Rightarrow> u64 \<Rightarrow> address" where
  "derive_create_address K sender nonce = drop 12 (K (rlp_encode_create sender nonce))"

definition create2_preimage :: "(bytes \<Rightarrow> bytes) \<Rightarrow> address \<Rightarrow> u256 \<Rightarrow> bytes \<Rightarrow> bytes" where
  "create2_preimage K sender salt init_code =
     0xff # sender @ u256_to_be_bytes salt @ K init_code"

definition derive_create2_address :: "(bytes \<Rightarrow> bytes) \<Rightarrow> address \<Rightarrow> u256 \<Rightarrow> bytes \<Rightarrow> address" where
  "derive_create2_address K sender salt init_code =
     drop 12 (K (create2_preimage K sender salt init_code))"

section \<open>Accounts\<close>

record state_account =
  sa_nonce :: u64
  sa_balance :: u256
  sa_storage_root :: bytes
  sa_code_hash :: bytes

text \<open>The local functions \<open>bytes\<close> and \<open>integer\<close> of \<open>StateAccount::rlp_encode\<close>.\<close>

definition account_bytes :: "bytes \<Rightarrow> bytes" where
  "account_bytes v =
     (if length v = 1 \<and> v ! 0 < 0x80 then v else (0x80 + of_nat (length v)) # v)"

definition account_integer :: "u64 \<Rightarrow> bytes" where
  "account_integer n =
     (if n = 0 then account_bytes []
      else let raw = nat_to_be_bytes 8 n
           in account_bytes (drop (unwrap_or 8 (position (\<lambda>b. b \<noteq> 0) raw)) raw))"

definition account_balance :: "u256 \<Rightarrow> bytes" where
  "account_balance b =
     (let raw = u256_to_be_bytes b
      in account_bytes (drop (unwrap_or 32 (position (\<lambda>b. b \<noteq> 0) raw)) raw))"

definition account_rlp_encode :: "state_account \<Rightarrow> bytes" where
  "account_rlp_encode acc =
     (let fields = [account_integer (sa_nonce acc), account_balance (sa_balance acc),
                    account_bytes (sa_storage_root acc), account_bytes (sa_code_hash acc)];
          payload_len = sum_list (map length fields);
          prefix = (if payload_len \<le> 55 then [0xc0 + of_nat payload_len]
                    else let lb = length_bytes payload_len in (0xf7 + of_nat (length lb)) # lb)
      in prefix @ concat fields)"

section \<open>The trimmed big-endian form\<close>

definition trim :: "bytes \<Rightarrow> bytes" where
  "trim bs = dropWhile (\<lambda>b. \<not> b \<noteq> 0) bs"

lemma drop_position_trim:
  "length bs = n \<Longrightarrow> drop (unwrap_or n (position (\<lambda>b. b \<noteq> 0) bs)) bs = trim bs"
  unfolding trim_def using drop_position[of bs "\<lambda>b. b \<noteq> 0"] by simp

lemma trim_value [simp]: "nat_from_be_bytes (trim bs) = nat_from_be_bytes bs"
  unfolding trim_def by (rule nat_from_be_bytes_drop_zeros)

lemma length_trim_le: "length (trim bs) \<le> length bs"
  by (simp add: trim_def length_dropWhile_le)

lemma trim_eq_Nil: "trim bs = [] \<longleftrightarrow> nat_from_be_bytes bs = 0"
proof
  assume "trim bs = []"
  then show "nat_from_be_bytes bs = 0" using trim_value[of bs] by simp
next
  assume z: "nat_from_be_bytes bs = 0"
  then have "bs = replicate (length bs) 0"
    using nat_to_from_be_bytes[of bs] nat_to_from_be_bytes[of "replicate (length bs) 0"] by simp
  then show "trim bs = []" unfolding trim_def by (simp add: dropWhile_eq_Nil_conv) (metis in_set_replicate)
qed

lemma trim_nat_inj:
  assumes "m < 256 ^ k" "n < 256 ^ k" "trim (nat_to_be_bytes k m) = trim (nat_to_be_bytes k n)"
  shows "m = n"
  using assms(1,2) arg_cong[OF assms(3), of nat_from_be_bytes]
  by (simp add: nat_from_to_be_bytes)

lemma trim_length_bound: "nat_from_be_bytes bs \<noteq> 0 \<Longrightarrow> 0 < length (trim bs)"
  by (simp add: trim_eq_Nil)

lemma length_bytes_trim: "0 < n \<Longrightarrow> n < 2 ^ 64 \<Longrightarrow> length_bytes n = trim (nat_to_be_bytes 8 n)"
proof -
  assume n: "0 < n" "n < 2 ^ 64"
  then have "nat_from_be_bytes (nat_to_be_bytes 8 n) \<noteq> 0" by (simp add: nat_from_to_be_bytes)
  then have "position (\<lambda>b. b \<noteq> 0) (nat_to_be_bytes 8 n) \<noteq> None"
    using trim_eq_Nil[of "nat_to_be_bytes 8 n"]
    by (simp add: position_None trim_def dropWhile_eq_Nil_conv)
  then show ?thesis
    using drop_position_trim[of "nat_to_be_bytes 8 n" 8] by (auto simp: length_bytes_def)
qed

section \<open>Strings are self-delimiting\<close>

lemma byte_less_nat: "(a :: byte) < b \<longleftrightarrow> unat a < unat b"
  by (rule word_less_nat_alt)

lemma unat_prefix: "n \<le> 55 \<Longrightarrow> unat (0x80 + of_nat n :: byte) = 128 + n"
  by (simp add: unat_word_ariths unat_of_nat)

lemma unat_long_prefix: "n \<le> 8 \<Longrightarrow> unat (0xb7 + of_nat n :: byte) = 183 + n"
  by (simp add: unat_word_ariths unat_of_nat)

lemma length_bytes_range:
  assumes "55 < n" "n < 2 ^ 64"
  shows "0 < length (length_bytes n)" "length (length_bytes n) \<le> 8"
    "nat_from_be_bytes (length_bytes n) = n"
proof -
  have lb: "length_bytes n = trim (nat_to_be_bytes 8 n)"
    using assms by (intro length_bytes_trim) auto
  have v: "nat_from_be_bytes (nat_to_be_bytes 8 n) = n"
    using assms by (simp add: nat_from_to_be_bytes)
  show "nat_from_be_bytes (length_bytes n) = n" using lb v by simp
  show "0 < length (length_bytes n)" using lb trim_length_bound[of "nat_to_be_bytes 8 n"] v assms(1) by simp
  show "length (length_bytes n) \<le> 8" using lb length_trim_le[of "nat_to_be_bytes 8 n"] by simp
qed

text \<open>A decoder for one RLP string: the string and the rest of the input.\<close>

definition rlp_decode_bytes :: "bytes \<Rightarrow> (bytes \<times> bytes) option" where
  "rlp_decode_bytes inp =
     (case inp of [] \<Rightarrow> None
      | p # rest \<Rightarrow>
          if unat p < 0x80 then Some ([p], rest)
          else if unat p \<le> 0xb7 then Some (take (unat p - 0x80) rest, drop (unat p - 0x80) rest)
          else if unat p \<le> 0xbf then
            let k = unat p - 0xb7; n = nat_from_be_bytes (take k rest); body = drop k rest
            in Some (take n body, drop n body)
          else None)"

lemma rlp_decode_long:
  assumes "unat q = 183 + length lb" "0 < length lb" "length lb \<le> 8" "nat_from_be_bytes lb = length bs"
  shows "rlp_decode_bytes (q # lb @ bs @ rest) = Some (bs, rest)"
proof -
  have "\<not> unat q < 0x80" "\<not> unat q \<le> 0xb7" "unat q \<le> 0xbf" "unat q - 0xb7 = length lb"
    using assms(1,2,3) by linarith+
  then show ?thesis
    using assms(4) by (simp only: rlp_decode_bytes_def list.case if_False if_True Let_def append_eq_conv_conj)
      simp
qed

lemma rlp_decode_encode:
  assumes "length bs < 2 ^ 64"
  shows "rlp_decode_bytes (rlp_bytes bs @ rest) = Some (bs, rest)"
proof (cases "length bs = 1 \<and> bs ! 0 < 0x80")
  case True
  then obtain b where "bs = [b]" by (cases bs) auto
  with True show ?thesis
    by (simp add: rlp_bytes_def rlp_decode_bytes_def byte_less_nat)
next
  case single: False
  show ?thesis
  proof (cases "length bs \<le> 55")
    case True
    with single have e: "rlp_bytes bs = (0x80 + of_nat (length bs)) # bs"
      by (simp only: rlp_bytes_def if_False if_True)
    show ?thesis
      by (simp add: e rlp_decode_bytes_def unat_prefix[OF True] True)
  next
    case False
    let ?lb = "length_bytes (length bs)"
    from False assms have r: "0 < length ?lb" "length ?lb \<le> 8" "nat_from_be_bytes ?lb = length bs"
      using length_bytes_range[of "length bs"] by auto
    from single False have e: "rlp_bytes bs = (0xb7 + of_nat (length ?lb)) # ?lb @ bs"
      by (simp only: rlp_bytes_def if_False Let_def)
    have p: "unat (0xb7 + of_nat (length ?lb) :: byte) = 183 + length ?lb"
      using r(2) by (rule unat_long_prefix)
    show ?thesis
      unfolding e append_Cons append_assoc using p r by (rule rlp_decode_long)
  qed
qed

lemma rlp_bytes_prefix_free:
  assumes "length a < 2 ^ 64" "length b < 2 ^ 64" "rlp_bytes a @ x = rlp_bytes b @ y"
  shows "a = b \<and> x = y"
proof -
  have "Some (a, x) = Some (b, y)"
    unfolding rlp_decode_encode[OF assms(1), of x, symmetric]
      rlp_decode_encode[OF assms(2), of y, symmetric] assms(3) ..
  then show ?thesis by simp
qed

section \<open>Creation preimages\<close>

lemma encode_nonce_rlp:
  assumes "n \<le> U64_MAX"
  shows "encode_nonce n = rlp_bytes (trim (nat_to_be_bytes 8 n))"
proof (cases "n = 0")
  case True
  have "trim (nat_to_be_bytes 8 n) = []" using True by (simp add: trim_eq_Nil nat_from_to_be_bytes)
  with True show ?thesis by (simp add: encode_nonce_def rlp_bytes_def)
next
  case False
  let ?v = "trim (nat_to_be_bytes 8 n)"
  have "length ?v \<le> 55" using length_trim_le[of "nat_to_be_bytes 8 n"] by simp
  with False show ?thesis
    by (simp add: encode_nonce_def rlp_bytes_def Let_def
        drop_position_trim[OF length_nat_to_be_bytes] del: length_drop)
qed

lemma encode_nonce_inj:
  assumes "m \<le> U64_MAX" "n \<le> U64_MAX" "encode_nonce m = encode_nonce n"
  shows "m = n"
proof -
  have len: "length (trim (nat_to_be_bytes 8 k)) < 2 ^ 64" for k
    using length_trim_le[of "nat_to_be_bytes 8 k"] by simp
  have "rlp_bytes (trim (nat_to_be_bytes 8 m)) @ [] = rlp_bytes (trim (nat_to_be_bytes 8 n)) @ []"
    using assms by (simp add: encode_nonce_rlp)
  then have "trim (nat_to_be_bytes 8 m) = trim (nat_to_be_bytes 8 n)"
    using rlp_bytes_prefix_free[OF len len] by blast
  then show ?thesis using assms(1,2) by (intro trim_nat_inj[of m 8 n]) auto
qed

lemma rlp_encode_create_inj:
  assumes "length s = 20" "length s' = 20" "m \<le> U64_MAX" "n \<le> U64_MAX"
    and "rlp_encode_create s m = rlp_encode_create s' n"
  shows "s = s' \<and> m = n"
  using assms encode_nonce_inj by (simp add: rlp_encode_create_def Let_def)

lemma length_derive_create_address:
  "length (K (rlp_encode_create s n)) = 32 \<Longrightarrow> length (derive_create_address K s n) = 20"
  by (simp add: derive_create_address_def)

lemma create2_preimage_inj:
  assumes "length s = 20" "length s' = 20" "create2_preimage K s salt c = create2_preimage K s' salt' c'"
  shows "s = s' \<and> salt = salt' \<and> K c = K c'"
  using assms by (auto simp: create2_preimage_def u256_to_be_bytes_inj)

section \<open>Account encodings\<close>

lemma account_bytes_rlp: "length v \<le> 55 \<Longrightarrow> account_bytes v = rlp_bytes v"
  by (simp add: account_bytes_def rlp_bytes_def)

lemma account_integer_rlp:
  "n \<le> U64_MAX \<Longrightarrow> account_integer n = rlp_bytes (trim (nat_to_be_bytes 8 n))"
  using drop_position_trim[of "nat_to_be_bytes 8 n" 8] length_trim_le[of "nat_to_be_bytes 8 n"]
    trim_eq_Nil[of "nat_to_be_bytes 8 0"]
  by (auto simp: account_integer_def account_bytes_rlp Let_def nat_from_to_be_bytes)

lemma account_balance_rlp: "account_balance b = rlp_bytes (trim (u256_to_be_bytes b))"
  using drop_position_trim[of "u256_to_be_bytes b" 32] length_trim_le[of "u256_to_be_bytes b"]
  by (simp add: account_balance_def account_bytes_rlp)

text \<open>\<open>StateAccount::rlp_encode\<close> is the generic list encoder on the four fields.\<close>

lemma account_rlp_encode_list:
  assumes "sa_nonce a \<le> U64_MAX" "length (sa_storage_root a) = 32" "length (sa_code_hash a) = 32"
  shows "account_rlp_encode a =
    rlp_list [rlp_bytes (trim (nat_to_be_bytes 8 (sa_nonce a))),
              rlp_bytes (trim (u256_to_be_bytes (sa_balance a))),
              rlp_bytes (sa_storage_root a), rlp_bytes (sa_code_hash a)]"
  using assms
  by (simp add: account_rlp_encode_def rlp_list_def Let_def account_integer_rlp account_balance_rlp
      account_bytes_rlp)

section \<open>Properties\<close>

text \<open>RLP strings can be decoded, whatever follows them: one-byte, short and long forms.\<close>

lemma rlp_roundtrip:
  assumes "length bs < 2 ^ 64"
  shows "rlp_decode_bytes (rlp_bytes bs @ rest) = Some (bs, rest)"
  by (rule rlp_decode_encode[OF assms])

lemma rlp_roundtrip_example: "rlp_decode_bytes (rlp_bytes [1, 2] @ [9]) = Some ([1, 2], [9])"
  using rlp_roundtrip[of "[1, 2]" "[9]"] by simp

text \<open>C19.  Distinct creations hash distinct preimages: CREATE's determines the sender and the nonce, CREATE2's the sender, the
  salt and the hash of the init code.\<close>

theorem create_preimages_injective:
  assumes "length s = 20" "length s' = 20" "m \<le> U64_MAX" "n \<le> U64_MAX"
  shows "(rlp_encode_create s m = rlp_encode_create s' n \<longleftrightarrow> s = s' \<and> m = n) \<and>
    (create2_preimage K s salt c = create2_preimage K s' salt' c' \<longleftrightarrow> s = s' \<and> salt = salt' \<and> K c = K c')"
  using rlp_encode_create_inj[OF assms] create2_preimage_inj[OF assms(1,2)]
  by (auto simp: create2_preimage_def)

theorem create_preimages_injective_witness:
  "rlp_encode_create (replicate 20 1) 127 \<noteq> rlp_encode_create (replicate 20 1) 128"
  using create_preimages_injective[of "replicate 20 1" "replicate 20 1" 127 128] by simp

end
