(* ===== verification/EvmMpt.thy ===== *)
theory EvmMpt
  imports EvmRlp "HOL-Library.Sublist" "HOL-Library.Multiset"
begin

text \<open>
  The Merkle Patricia trie of \<open>src/mpt/node.rs\<close> and \<open>src/mpt/trie.rs\<close>: nodes, nibble paths, the
  compact path encoding, insertion, lookup and the root hash.  An index \<open>children[n]\<close> panics for
  \<open>n \<ge> 16\<close>, so the two recursive functions return outcomes.  The abstraction function \<open>node_map\<close>
  reads a node as a finite map from nibble paths; insertion refines map update, which is the
  locale \<open>path_map\<close>.
\<close>

section \<open>Nodes and paths\<close>

type_synonym nibbles = "byte list"

datatype node =
    Null
  | Leaf nibbles bytes
  | Extension nibbles node
  | Branch "node list" "bytes option"

definition byte_nibbles :: "byte \<Rightarrow> nibbles" where
  "byte_nibbles b = [drop_bit 4 b, b AND 0x0f]"

definition bytes_to_nibbles :: "bytes \<Rightarrow> nibbles" where
  "bytes_to_nibbles bs = concat (map byte_nibbles bs)"

text \<open>The loop of \<open>compact_encode\<close> over pairs; a path of odd length would index past its end.\<close>

fun pack_nibbles :: "nibbles \<Rightarrow> bytes" where
  "pack_nibbles (a # b # rest) = (push_bit 4 a OR b) # pack_nibbles rest"
| "pack_nibbles _ = []"

definition compact_encode :: "nibbles \<Rightarrow> bool \<Rightarrow> bytes" where
  "compact_encode path leaf =
     (let odd_len = (length path mod 2 = 1);
          flags = (if leaf then 2 else 0) + (if odd_len then 1 else 0)
      in if odd_len then (push_bit 4 flags OR path ! 0) # pack_nibbles (drop 1 path)
         else push_bit 4 flags # pack_nibbles path)"

definition compact_decode :: "bytes \<Rightarrow> nibbles \<times> bool" where
  "compact_decode encoded =
     (case encoded of [] \<Rightarrow> ([], False)
      | e # rest \<Rightarrow>
          let flags = drop_bit 4 e; odd_len = (flags AND 1 = 1); leaf = (flags AND 2 = 2)
          in ((if odd_len then [e AND 0x0f] else []) @ bytes_to_nibbles rest, leaf))"

section \<open>Hashing\<close>

definition reference_of_encoding :: "(bytes \<Rightarrow> bytes) \<Rightarrow> bytes \<Rightarrow> bytes" where
  "reference_of_encoding K encoded = (if length encoded \<ge> 32 then K encoded else encoded)"

fun rlp_encode :: "(bytes \<Rightarrow> bytes) \<Rightarrow> node \<Rightarrow> bytes" where
  "rlp_encode K Null = rlp_bytes []"
| "rlp_encode K (Leaf key_path v) = rlp_list [rlp_bytes (compact_encode key_path True), rlp_bytes v]"
| "rlp_encode K (Extension key_path child) =
     rlp_list [rlp_bytes (compact_encode key_path False), reference_of_encoding K (rlp_encode K child)]"
| "rlp_encode K (Branch children v) =
     rlp_list (map (\<lambda>c. reference_of_encoding K (rlp_encode K c)) children
               @ [rlp_bytes (unwrap_or [] v)])"

definition node_reference :: "(bytes \<Rightarrow> bytes) \<Rightarrow> node \<Rightarrow> bytes" where
  "node_reference K n = reference_of_encoding K (rlp_encode K n)"

section \<open>Insertion and lookup\<close>

definition empty_children :: "node list" where
  "empty_children = replicate 16 Null"

definition common_prefix :: "nibbles \<Rightarrow> nibbles \<Rightarrow> nat" where
  "common_prefix left right = length (takeWhile (\<lambda>(a, b). a = b) (zip left right))"

definition child_for :: "nibbles \<Rightarrow> bytes \<Rightarrow> node" where
  "child_for path v = Leaf path v"

text \<open>\<open>children[n as usize] = Box::new(c)\<close> and the wrapping of a branch behind a shared prefix.\<close>

definition set_child :: "node list \<Rightarrow> byte \<Rightarrow> node \<Rightarrow> node list outcome" where
  "set_child children n c =
     (if unat n < length children then Done (children[unat n := c]) else Panic)"

definition under_prefix :: "nibbles \<Rightarrow> nat \<Rightarrow> node \<Rightarrow> node" where
  "under_prefix path common branch =
     (if common = 0 then branch else Extension (take common path) branch)"

text \<open>The new value beside an old subtree: the branch that holds both (lines 90--103 and 139--152).\<close>

definition branch_with :: "node list \<Rightarrow> nibbles \<Rightarrow> bytes \<Rightarrow> node outcome" where
  "branch_with children new_remaining v =
     (case new_remaining of
        [] \<Rightarrow> Done (Branch children (Some v))
      | n # rest \<Rightarrow> obind (set_child children n (child_for rest v)) (\<lambda>cs. Done (Branch cs None)))"

fun insert_node :: "node \<Rightarrow> nibbles \<Rightarrow> bytes \<Rightarrow> node outcome" where
  "insert_node Null path v = Done (child_for path v)"
| "insert_node (Leaf key_path old_value) path v =
     (let common = common_prefix key_path path
      in if common = length key_path \<and> common = length path then Done (child_for path v)
         else (case drop common key_path of
             [] \<Rightarrow> (case drop common path of
                 [] \<Rightarrow> Done (Branch empty_children (Some v))
               | n # rest \<Rightarrow>
                   obind (set_child empty_children n (child_for rest v)) (\<lambda>cs.
                   Done (under_prefix path common (Branch cs (Some old_value)))))
           | o1 # o_rest \<Rightarrow>
               obind (set_child empty_children o1 (child_for o_rest old_value)) (\<lambda>cs.
               obind (branch_with cs (drop common path) v) (\<lambda>branch.
               Done (under_prefix path common branch)))))"
| "insert_node (Extension key_path child) path v =
     (let common = common_prefix key_path path
      in if common = length key_path
         then obind (insert_node child (drop common path) v) (\<lambda>c. Done (Extension key_path c))
         else (case drop common key_path of
             [] \<Rightarrow> Panic
           | o1 # o_rest \<Rightarrow>
               obind (set_child empty_children o1
                        (if o_rest = [] then child else Extension o_rest child)) (\<lambda>cs.
               obind (branch_with cs (drop common path) v) (\<lambda>branch.
               Done (under_prefix path common branch)))))"
| "insert_node (Branch children branch_value) path v =
     (case path of
        [] \<Rightarrow> Done (Branch children (Some v))
      | n # rest \<Rightarrow>
          if unat n < length children
          then obind (insert_node (children ! unat n) rest v)
                 (\<lambda>c. Done (Branch (children[unat n := c]) branch_value))
          else Panic)"

fun get_node :: "node \<Rightarrow> nibbles \<Rightarrow> bytes option outcome" where
  "get_node Null path = Done None"
| "get_node (Leaf key_path v) path = Done (if key_path = path then Some v else None)"
| "get_node (Extension key_path child) path =
     (if prefix key_path path then get_node child (drop (length key_path) path) else Done None)"
| "get_node (Branch children v) path =
     (case path of
        [] \<Rightarrow> Done v
      | n # rest \<Rightarrow> if unat n < length children then get_node (children ! unat n) rest else Panic)"

section \<open>The trie\<close>

record merkle_patricia_trie =
  root :: node

definition trie_new :: merkle_patricia_trie where
  "trie_new = \<lparr>root = Null\<rparr>"

definition trie_insert :: "merkle_patricia_trie \<Rightarrow> bytes \<Rightarrow> bytes \<Rightarrow> merkle_patricia_trie outcome" where
  "trie_insert t key v =
     obind (insert_node (root t) (bytes_to_nibbles key) v) (\<lambda>n. Done (t\<lparr>root := n\<rparr>))"

definition trie_get :: "merkle_patricia_trie \<Rightarrow> bytes \<Rightarrow> bytes option outcome" where
  "trie_get t key = get_node (root t) (bytes_to_nibbles key)"

definition root_hash :: "(bytes \<Rightarrow> bytes) \<Rightarrow> merkle_patricia_trie \<Rightarrow> bytes" where
  "root_hash K t = (if root t = Null then K [0x80] else K (rlp_encode K (root t)))"

section \<open>Nibbles\<close>

definition nibs :: "nibbles \<Rightarrow> bool" where
  "nibs p \<longleftrightarrow> (\<forall>n \<in> set p. unat n < 16)"

lemma nibs_simps [simp]:
  "nibs []" "nibs (n # p) \<longleftrightarrow> unat n < 16 \<and> nibs p" "nibs (p @ q) \<longleftrightarrow> nibs p \<and> nibs q"
  by (auto simp: nibs_def)

lemma nibs_drop: "nibs p \<Longrightarrow> nibs (drop i p)"
  by (auto simp: nibs_def dest: in_set_dropD)

lemma nibs_take: "nibs p \<Longrightarrow> nibs (take i p)"
  by (auto simp: nibs_def dest: in_set_takeD)

lemma low_nibble_mask: "(0x0f :: byte) = mask 4"
  by (simp add: mask_eq_exp_minus_1)

lemma nibble_range: "unat (drop_bit 4 b :: byte) < 16" "unat (b AND 0x0f :: byte) < 16"
proof -
  have "unat b div 2 ^ 4 < 16" using unat_byte_less[of b] by (intro less_mult_imp_div_less) simp
  then show "unat (drop_bit 4 b) < 16" unfolding unat_drop_bit_eq unfolding drop_bit_eq_div .
  show "unat (b AND 0x0f) < 16"
    unfolding low_nibble_mask take_bit_eq_mask[symmetric] unsigned_take_bit_eq
    unfolding take_bit_eq_mod by simp
qed

lemma byte_of_nibbles: "push_bit 4 (drop_bit 4 b) OR (b AND 0x0f) = (b :: byte)"
proof (rule bit_word_eqI)
  fix n assume "n < LENGTH(8)"
  then show "bit (push_bit 4 (drop_bit 4 b) OR (b AND 0x0f)) n \<longleftrightarrow> bit b n"
    unfolding low_nibble_mask bit_or_iff bit_and_iff bit_push_bit_iff bit_drop_bit_eq bit_mask_iff
    by (auto simp add: not_le comp_def)
qed

lemma nibble_bit: "unat (a :: byte) < 16 \<Longrightarrow> bit a n \<Longrightarrow> n < 4"
proof -
  assume a: "unat a < 16" "bit a n"
  have "unat (take_bit 4 a) = unat a"
    unfolding unsigned_take_bit_eq unfolding take_bit_eq_mod using a(1) by simp
  then have "take_bit 4 a = a" by (rule unsigned_word_eqI)
  then have "bit (take_bit 4 a) n" using a(2) by simp
  then show "n < 4" by (simp add: bit_take_bit_iff)
qed

lemma nibble_join:
  fixes a b :: byte
  assumes "unat a < 16" "unat b < 16"
  shows "drop_bit 4 (push_bit 4 a OR b) = a" "(push_bit 4 a OR b) AND 0x0f = b"
proof -
  show "drop_bit 4 (push_bit 4 a OR b) = a"
  proof (rule bit_word_eqI)
    fix n assume "n < LENGTH(8)"
    then show "bit (drop_bit 4 (push_bit 4 a OR b)) n \<longleftrightarrow> bit a n"
      unfolding bit_or_iff bit_push_bit_iff bit_drop_bit_eq comp_def
      using nibble_bit[OF assms(1), of n] nibble_bit[OF assms(2), of "4 + n"] by auto
  qed
  show "(push_bit 4 a OR b) AND 0x0f = b"
  proof (rule bit_word_eqI)
    fix n assume "n < LENGTH(8)"
    then show "bit ((push_bit 4 a OR b) AND 0x0f) n \<longleftrightarrow> bit b n"
      unfolding low_nibble_mask bit_or_iff bit_and_iff bit_push_bit_iff bit_mask_iff
      using nibble_bit[OF assms(2), of n] by auto
  qed
qed

lemma nibs_bytes_to_nibbles [simp]: "nibs (bytes_to_nibbles bs)"
  by (induction bs) (simp_all add: bytes_to_nibbles_def byte_nibbles_def nibble_range)

lemma byte_nibbles_inj: "byte_nibbles a = byte_nibbles b \<Longrightarrow> a = b"
  unfolding byte_nibbles_def list.inject by (metis byte_of_nibbles)

lemma bytes_to_nibbles_inj: "bytes_to_nibbles a = bytes_to_nibbles b \<longleftrightarrow> a = b"
proof
  show "bytes_to_nibbles a = bytes_to_nibbles b \<Longrightarrow> a = b"
  proof (induction a arbitrary: b)
    case Nil
    then show ?case by (cases b) (simp_all add: bytes_to_nibbles_def byte_nibbles_def)
  next
    case (Cons x a)
    then obtain y b' where b: "b = y # b'"
      by (cases b) (simp_all add: bytes_to_nibbles_def byte_nibbles_def)
    with Cons.prems have "byte_nibbles x = byte_nibbles y" "bytes_to_nibbles a = bytes_to_nibbles b'"
      by (simp_all add: bytes_to_nibbles_def byte_nibbles_def)
    with b Cons.IH byte_nibbles_inj show ?case by blast
  qed
qed simp

lemma nibbles_of_pack:
  "length p mod 2 = 0 \<Longrightarrow> nibs p \<Longrightarrow> bytes_to_nibbles (pack_nibbles p) = p"
proof (induction p rule: pack_nibbles.induct)
  case (1 a b rest)
  have "drop_bit 4 (push_bit 4 a OR b) = a" "(push_bit 4 a OR b) AND 0x0f = b"
    using "1.prems"(2) nibble_join[of a b] by simp_all
  with 1 show ?case by (simp add: bytes_to_nibbles_def byte_nibbles_def)
qed (simp_all add: bytes_to_nibbles_def)

section \<open>The compact path encoding\<close>

lemma compact_flags:
  fixes leaf odd_len :: bool
  defines "flags \<equiv> (if leaf then 2 else 0) + (if odd_len then 1 else 0) :: byte"
  shows "unat flags < 16" "flags AND 1 = 1 \<longleftrightarrow> odd_len" "flags AND 2 = 2 \<longleftrightarrow> leaf"
  by (auto simp: flags_def)

lemma compact_decode_Cons:
  assumes "unat flags < 16" "unat n < 16"
  shows "compact_decode ((push_bit 4 flags OR n) # rest) =
           ((if flags AND 1 = 1 then [n] else []) @ bytes_to_nibbles rest, flags AND 2 = 2)"
  unfolding compact_decode_def list.case Let_def nibble_join[OF assms] ..

lemma compact_decode_encode:
  assumes "nibs path"
  shows "compact_decode (compact_encode path leaf) = (path, leaf)"
proof -
  define flags :: byte where
    "flags = (if leaf then 2 else 0) + (if length path mod 2 = 1 then 1 else 0)"
  have f: "unat flags < 16" "flags AND 1 = 1 \<longleftrightarrow> length path mod 2 = 1" "flags AND 2 = 2 \<longleftrightarrow> leaf"
    unfolding flags_def by (rule compact_flags)+
  show ?thesis
  proof (cases "length path mod 2 = 1")
    case True
    then obtain n rest where p: "path = n # rest" by (cases path) auto
    have e: "compact_encode path leaf = (push_bit 4 flags OR n) # pack_nibbles rest"
      using True p by (simp add: compact_encode_def flags_def Let_def)
    have "length rest mod 2 = 0" using True p by (simp add: mod_Suc split: if_splits)
    then have "bytes_to_nibbles (pack_nibbles rest) = rest"
      using assms p by (intro nibbles_of_pack) auto
    moreover have "unat n < 16" using assms p by simp
    ultimately show ?thesis
      unfolding e compact_decode_Cons[OF f(1) \<open>unat n < 16\<close>] f(2,3) using True p by simp
  next
    case False
    have e: "compact_encode path leaf = (push_bit 4 flags OR 0) # pack_nibbles path"
      using False by (simp add: compact_encode_def flags_def Let_def)
    have "bytes_to_nibbles (pack_nibbles path) = path"
      using False assms by (intro nibbles_of_pack) auto
    moreover have "unat (0 :: byte) < 16" by simp
    ultimately show ?thesis
      unfolding e compact_decode_Cons[OF f(1) \<open>unat (0 :: byte) < 16\<close>] f(2,3) using False by simp
  qed
qed

section \<open>A node as a map from paths\<close>

fun node_map :: "node \<Rightarrow> nibbles \<Rightarrow> bytes option" where
  "node_map Null q = None"
| "node_map (Leaf p v) q = (if q = p then Some v else None)"
| "node_map (Extension p c) q = (if prefix p q then node_map c (drop (length p) q) else None)"
| "node_map (Branch cs v) q =
     (case q of [] \<Rightarrow> v
      | n # r \<Rightarrow> if unat n < length cs then node_map (cs ! unat n) r else None)"

fun is_branch :: "node \<Rightarrow> bool" where
  "is_branch (Branch cs v) = True"
| "is_branch _ = False"

text \<open>
  The normal form of a trie: sixteen children per branch, nibbles on every path, a non-empty path
  above a branch in an extension, and at least two entries below a branch.
\<close>

definition branch_entries :: "node list \<Rightarrow> bytes option \<Rightarrow> nat" where
  "branch_entries cs v = length (filter (\<lambda>c. c \<noteq> Null) cs) + (if v = None then 0 else 1)"

fun canon :: "node \<Rightarrow> bool" where
  "canon Null = True"
| "canon (Leaf p v) = nibs p"
| "canon (Extension p c) = (p \<noteq> [] \<and> nibs p \<and> is_branch c \<and> canon c)"
| "canon (Branch cs v) = (length cs = 16 \<and> (\<forall>c \<in> set cs. canon c) \<and> 2 \<le> branch_entries cs v)"

lemma get_node_node_map:
  "canon t \<Longrightarrow> nibs q \<Longrightarrow> get_node t q = Done (node_map t q)"
proof (induction t q rule: get_node.induct)
  case (4 children v path)
  then show ?case by (cases path) auto
qed (auto simp: nibs_drop)

section \<open>Insertion refines map update\<close>

lemma common_prefix_split:
  obtains pre ko po where "k = pre @ ko" "p = pre @ po" "common_prefix k p = length pre"
    "ko = [] \<or> po = [] \<or> hd ko \<noteq> hd po"
proof -
  have "\<exists>pre ko po. k = pre @ ko \<and> p = pre @ po \<and> common_prefix k p = length pre \<and>
          (ko = [] \<or> po = [] \<or> hd ko \<noteq> hd po)"
  proof (induction k arbitrary: p)
    case Nil
    then show ?case by (simp add: common_prefix_def)
  next
    case (Cons a k)
    show ?case
    proof (cases p)
      case Nil
      then show ?thesis by (simp add: common_prefix_def)
    next
      case p: (Cons b p')
      show ?thesis
      proof (cases "a = b")
        case True
        from Cons.IH[of p'] obtain pre ko po where "k = pre @ ko" "p' = pre @ po"
          "common_prefix k p' = length pre" "ko = [] \<or> po = [] \<or> hd ko \<noteq> hd po" by blast
        then show ?thesis
          using True p by (intro exI[of _ "b # pre"] exI[of _ ko] exI[of _ po]) (simp add: common_prefix_def)
      next
        case False
        then show ?thesis
          using p by (intro exI[of _ "[]"] exI[of _ "a # k"] exI[of _ p]) (simp add: common_prefix_def)
      qed
    qed
  qed
  then show thesis using that by blast
qed

lemma empty_children_simps [simp]:
  "length empty_children = 16" "i < 16 \<Longrightarrow> empty_children ! i = Null"
  "set empty_children = {Null}" "filter (\<lambda>c. c \<noteq> Null) empty_children = []"
  by (simp_all add: empty_children_def)

lemma node_map_under_prefix:
  "node_map (under_prefix (pre @ po) (length pre) b) q =
     (if prefix pre q then node_map b (drop (length pre) q) else None)"
  by (simp add: under_prefix_def)

lemma canon_under_prefix:
  "nibs pre \<Longrightarrow> is_branch b \<Longrightarrow> canon b \<Longrightarrow> canon (under_prefix (pre @ po) (length pre) b)"
  by (simp add: under_prefix_def)

lemma set_child_Done: "unat n < length cs \<Longrightarrow> set_child cs n c = Done (cs[unat n := c])"
  by (simp add: set_child_def)

lemma node_map_Branch_update:
  assumes "unat n < length cs"
  shows "node_map (Branch (cs[unat n := c]) v) q =
           (case q of m # r \<Rightarrow> if m = n then node_map c r else node_map (Branch cs v) q | [] \<Rightarrow> v)"
  using assms by (auto simp: nth_list_update split: list.splits dest: unsigned_word_eqI)

lemma node_map_Branch_empty [simp]: "node_map (Branch empty_children v) q = (if q = [] then v else None)"
  by (auto split: list.splits)

lemma entries_update_Null:
  "i < length cs \<Longrightarrow> cs ! i = Null \<Longrightarrow> c \<noteq> Null \<Longrightarrow>
   length (filter (\<lambda>c. c \<noteq> Null) (cs[i := c])) = Suc (length (filter (\<lambda>c. c \<noteq> Null) cs))"
  by (induction cs arbitrary: i) (auto split: nat.splits simp: nth_Cons')

lemma entries_update_mono:
  "c \<noteq> Null \<Longrightarrow> length (filter (\<lambda>c. c \<noteq> Null) cs) \<le> length (filter (\<lambda>c. c \<noteq> Null) (cs[i := c]))"
  by (induction cs arbitrary: i) (auto split: nat.splits intro: le_SucI)

lemma split_branch:
  assumes o1: "unat o1 < 16" and oc: "canon oc" "oc \<noteq> Null"
    and rem: "nibs rem" "rem = [] \<or> hd rem \<noteq> o1"
  shows "\<exists>b. branch_with (empty_children[unat o1 := oc]) rem v = Done b \<and> is_branch b \<and> canon b \<and>
    (\<forall>q. node_map b q = (if q = rem then Some v
       else case q of [] \<Rightarrow> None | m # r \<Rightarrow> if m = o1 then node_map oc r else None))"
proof -
  let ?cs = "empty_children[unat o1 := oc]"
  have canon_cs: "\<forall>c \<in> set ?cs. canon c"
    using oc(1) by (auto dest: set_update_subset_insert[THEN subsetD])
  have one: "length (filter (\<lambda>c. c \<noteq> Null) ?cs) = 1"
    using entries_update_Null[of "unat o1" empty_children oc] o1 oc(2) by simp
  show ?thesis
  proof (cases rem)
    case Nil
    then show ?thesis
      using o1 canon_cs one
      by (auto simp: branch_with_def branch_entries_def node_map_Branch_update split: list.splits
          simp del: node_map.simps)
  next
    case (Cons n rest)
    then have n: "unat n < 16" "n \<noteq> o1" "unat n \<noteq> unat o1" "nibs rest"
      using rem by (auto dest: unsigned_word_eqI)
    let ?b = "Branch (?cs[unat n := Leaf rest v]) None"
    have "\<forall>c \<in> set (?cs[unat n := Leaf rest v]). canon c"
      using canon_cs n(4) by (auto dest: set_update_subset_insert[THEN subsetD])
    moreover have "length (filter (\<lambda>c. c \<noteq> Null) (?cs[unat n := Leaf rest v])) = 2"
      using entries_update_Null[of "unat n" ?cs "Leaf rest v"] n one by (simp add: nth_list_update)
    ultimately have "canon ?b" by (simp add: branch_entries_def)
    moreover have "node_map ?b q = (if q = rem then Some v
       else case q of [] \<Rightarrow> None | m # r \<Rightarrow> if m = o1 then node_map oc r else None)" for q
      using Cons n o1 by (auto simp: node_map_Branch_update split: list.splits simp del: node_map.simps(4))
    moreover have "branch_with ?cs rem v = Done ?b"
      using Cons n by (simp add: branch_with_def set_child_Done child_for_def)
    ultimately show ?thesis by auto
  qed
qed

lemma insert_Leaf_spec:
  assumes "nibs k" "nibs p"
  shows "\<exists>t'. insert_node (Leaf k ov) p v = Done t' \<and> canon t' \<and> t' \<noteq> Null \<and>
           node_map t' = (node_map (Leaf k ov))(p \<mapsto> v)"
proof -
  obtain pre ko po where s: "k = pre @ ko" "p = pre @ po" "common_prefix k p = length pre"
    "ko = [] \<or> po = [] \<or> hd ko \<noteq> hd po" by (rule common_prefix_split)
  show ?thesis
  proof (cases ko)
    case ko: (Cons o1 orest)
    obtain b where b: "branch_with (empty_children[unat o1 := Leaf orest ov]) po v = Done b"
      "is_branch b" "canon b"
      "\<forall>q. node_map b q = (if q = po then Some v
         else case q of [] \<Rightarrow> None | m # r \<Rightarrow> if m = o1 then node_map (Leaf orest ov) r else None)"
      using split_branch[of o1 "Leaf orest ov" po v] s ko assms by auto
    let ?t = "under_prefix p (length pre) b"
    have "insert_node (Leaf k ov) p v = Done ?t"
      using s ko b(1) assms(1) by (simp add: set_child_Done child_for_def)
    moreover have "canon ?t" "?t \<noteq> Null"
      using s assms b canon_under_prefix[of pre b po] by (auto simp: under_prefix_def)
    moreover have "node_map ?t q = ((node_map (Leaf k ov))(p \<mapsto> v)) q" for q
      using s ko b(4) node_map_under_prefix[of pre po b q]
      by (auto simp: prefix_def split: list.splits)
    ultimately show ?thesis by auto
  next
    case ko: Nil
    show ?thesis
    proof (cases po)
      case Nil
      then show ?thesis using s ko assms by (auto simp: child_for_def)
    next
      case po: (Cons n rest)
      let ?b = "Branch (empty_children[unat n := Leaf rest v]) (Some ov)"
      let ?t = "under_prefix p (length pre) ?b"
      have n: "unat n < 16" "nibs rest" using s po assms by auto
      have "insert_node (Leaf k ov) p v = Done ?t"
        using s ko po n by (simp add: set_child_Done child_for_def)
      moreover have "canon ?b"
        using n entries_update_Null[of "unat n" empty_children "Leaf rest v"]
        by (auto simp: branch_entries_def dest: set_update_subset_insert[THEN subsetD])
      then have "canon ?t" "?t \<noteq> Null"
        using s assms canon_under_prefix[of pre ?b po] by (auto simp: under_prefix_def)
      moreover have "node_map ?t q = ((node_map (Leaf k ov))(p \<mapsto> v)) q" for q
        using s ko po n node_map_under_prefix[of pre po ?b q]
        by (auto simp: prefix_def node_map_Branch_update split: list.splits simp del: node_map.simps(4))
      ultimately show ?thesis by auto
    qed
  qed
qed

lemma insert_Extension_split_spec:
  assumes "canon (Extension k c)" "nibs p" "common_prefix k p \<noteq> length k"
  shows "\<exists>t'. insert_node (Extension k c) p v = Done t' \<and> canon t' \<and> t' \<noteq> Null \<and>
           node_map t' = (node_map (Extension k c))(p \<mapsto> v)"
proof -
  obtain pre ko po where s: "k = pre @ ko" "p = pre @ po" "common_prefix k p = length pre"
    "ko = [] \<or> po = [] \<or> hd ko \<noteq> hd po" by (rule common_prefix_split)
  with assms(3) obtain o1 orest where ko: "ko = o1 # orest" by (cases ko) auto
  define oc where "oc = (if orest = [] then c else Extension orest c)"
  have oc: "canon oc" "oc \<noteq> Null"
    using assms(1) s ko by (cases c; auto simp: oc_def)+
  have oc_map: "node_map oc r = (if prefix orest r then node_map c (drop (length orest) r) else None)" for r
    by (simp add: oc_def)
  obtain b where b: "branch_with (empty_children[unat o1 := oc]) po v = Done b"
    "is_branch b" "canon b"
    "\<forall>q. node_map b q = (if q = po then Some v
       else case q of [] \<Rightarrow> None | m # r \<Rightarrow> if m = o1 then node_map oc r else None)"
    using split_branch[of o1 oc po v] s ko assms oc by auto
  let ?t = "under_prefix p (length pre) b"
  have "insert_node (Extension k c) p v = Done ?t"
    using s ko b(1) assms(1) by (simp add: set_child_Done oc_def)
  moreover have "canon ?t" "?t \<noteq> Null"
    using s assms b canon_under_prefix[of pre b po] by (auto simp: under_prefix_def)
  moreover have "node_map ?t q = ((node_map (Extension k c))(p \<mapsto> v)) q" for q
  proof (cases "prefix pre q")
    case True
    then obtain r where q: "q = pre @ r" by (auto simp: prefix_def)
    have "node_map ?t q = node_map b r" by (simp add: s(2) q node_map_under_prefix)
    also have "\<dots> = ((node_map (Extension ko c))(po \<mapsto> v)) r"
      unfolding b(4)[rule_format] ko by (cases r) (simp_all add: oc_map)
    also have "\<dots> = ((node_map (Extension k c))(p \<mapsto> v)) q" by (simp add: s(1,2) q)
    finally show ?thesis .
  next
    case False
    then have "q \<noteq> p" "\<not> prefix k q" using s(1,2) by (auto dest: append_prefixD)
    with False show ?thesis by (simp add: s(2) node_map_under_prefix)
  qed
  then have "node_map ?t = (node_map (Extension k c))(p \<mapsto> v)" by blast
  ultimately show ?thesis by blast
qed

text \<open>The three places at which an insertion leaves the shape of the node as it is.\<close>

lemma below_Extension:
  assumes "canon (Extension k c)" "canon c'" "is_branch c'" "node_map c' = (node_map c)(po \<mapsto> v)"
  shows "canon (Extension k c') \<and> node_map (Extension k c') = (node_map (Extension k c))(k @ po \<mapsto> v)"
proof -
  have "node_map (Extension k c') q = ((node_map (Extension k c))(k @ po \<mapsto> v)) q" for q
    using assms(4) by (auto simp: prefix_def)
  then have "node_map (Extension k c') = (node_map (Extension k c))(k @ po \<mapsto> v)" by blast
  with assms show ?thesis by simp
qed

lemma at_Branch:
  assumes "canon (Branch cs bv)"
  shows "canon (Branch cs (Some v)) \<and> node_map (Branch cs (Some v)) = (node_map (Branch cs bv))([] \<mapsto> v)"
proof -
  have "branch_entries cs bv \<le> branch_entries cs (Some v)" by (simp add: branch_entries_def)
  then have "canon (Branch cs (Some v))" using assms by simp
  moreover have "node_map (Branch cs (Some v)) q = ((node_map (Branch cs bv))([] \<mapsto> v)) q" for q
    by (cases q) simp_all
  ultimately show ?thesis by blast
qed

lemma below_Branch:
  assumes "canon (Branch cs bv)" "unat n < length cs" "canon c'" "c' \<noteq> Null"
    "node_map c' = (node_map (cs ! unat n))(rest \<mapsto> v)"
  shows "canon (Branch (cs[unat n := c']) bv) \<and>
    node_map (Branch (cs[unat n := c']) bv) = (node_map (Branch cs bv))(n # rest \<mapsto> v)"
proof -
  have "2 \<le> branch_entries (cs[unat n := c']) bv"
    using assms(1) entries_update_mono[OF assms(4), of cs "unat n"] by (simp add: branch_entries_def)
  then have "canon (Branch (cs[unat n := c']) bv)"
    using assms(1,3) by (auto dest: set_update_subset_insert[THEN subsetD])
  moreover have "node_map (Branch (cs[unat n := c']) bv) q = ((node_map (Branch cs bv))(n # rest \<mapsto> v)) q" for q
    using assms(2,5)
    by (cases q) (auto simp: node_map_Branch_update nth_list_update dest: unsigned_word_eqI)
  ultimately show ?thesis by blast
qed

lemma insert_node_spec:
  assumes "canon t" "nibs p"
  shows "\<exists>t'. insert_node t p v = Done t' \<and> canon t' \<and> t' \<noteq> Null \<and> (is_branch t \<longrightarrow> is_branch t') \<and>
           node_map t' = (node_map t)(p \<mapsto> v)"
  using assms
proof (induction t p v rule: insert_node.induct)
  case (1 path v)
  then show ?case by (auto simp: child_for_def)
next
  case (2 key_path old_value path v)
  then have "nibs key_path" "nibs path" by simp_all
  from insert_Leaf_spec[OF this] show ?case by (simp only: is_branch.simps simp_thms)
next
  case (3 k c p v)
  show ?case
  proof (cases "common_prefix k p = length k")
    case False
    from insert_Extension_split_spec[OF 3(2,3) False] show ?thesis
      by (simp only: is_branch.simps simp_thms)
  next
    case True
    obtain pre ko po where s: "k = pre @ ko" "p = pre @ po" "common_prefix k p = length pre"
      by (rule common_prefix_split)
    with True have kp: "p = k @ po" by simp
    have "canon c" "is_branch c" "nibs po" "drop (common_prefix k p) p = po"
      using 3(2,3) True kp by simp_all
    then obtain c' where c': "insert_node c po v = Done c'" "canon c'" "is_branch c'"
      "node_map c' = (node_map c)(po \<mapsto> v)"
      using 3(1)[OF refl True] by metis
    from below_Extension[OF 3(2) c'(2-4)] show ?thesis
      using True c'(1) kp by (simp del: node_map.simps canon.simps fun_upd_apply)
  qed
next
  case (4 cs bv p v)
  show ?case
  proof (cases p)
    case Nil
    with at_Branch[OF 4(2)] show ?thesis by (simp del: node_map.simps canon.simps fun_upd_apply)
  next
    case (Cons n rest)
    with 4 have n: "unat n < length cs" "length cs = 16" by auto
    have "canon (cs ! unat n)" "nibs rest" using 4(2,3) Cons n by simp_all
    then obtain c' where c': "insert_node (cs ! unat n) rest v = Done c'" "canon c'" "c' \<noteq> Null"
      "node_map c' = (node_map (cs ! unat n))(rest \<mapsto> v)"
      using 4(1)[OF Cons n(1)] by metis
    from below_Branch[OF 4(2) n(1) c'(2-4)] show ?thesis
      using c'(1) Cons n by (simp del: node_map.simps canon.simps fun_upd_apply)
  qed
qed

section \<open>The normal form is unique\<close>

lemma two_entries:
  "2 \<le> length (filter P xs) \<Longrightarrow> \<exists>i j. i < j \<and> j < length xs \<and> P (xs ! i) \<and> P (xs ! j)"
proof (induction xs)
  case (Cons x xs)
  show ?case
  proof (cases "P x")
    case True
    with Cons.prems have "filter P xs \<noteq> []" by auto
    then obtain y where "y \<in> set xs" "P y" by (auto simp: filter_empty_conv)
    then obtain j where "j < length xs" "P (xs ! j)" by (auto simp: in_set_conv_nth)
    with True show ?thesis by (intro exI[of _ 0] exI[of _ "Suc j"]) simp
  next
    case False
    with Cons obtain i j where "i < j" "j < length xs" "P (xs ! i)" "P (xs ! j)" by auto
    then show ?thesis by (intro exI[of _ "Suc i"] exI[of _ "Suc j"]) simp
  qed
qed simp

definition diverging :: "nibbles set \<Rightarrow> bool" where
  "diverging D \<longleftrightarrow> (\<exists>q1 \<in> D. \<exists>q2 \<in> D. q1 \<noteq> q2 \<and> (q1 = [] \<or> q2 = [] \<or> hd q1 \<noteq> hd q2))"

lemma Branch_child_key:
  assumes "i < 16" "length cs = 16" "node_map (cs ! i) r \<noteq> None"
  shows "node_map (Branch cs v) (word_of_nat i # r) \<noteq> None"
  using assms by (simp add: unat_of_nat)

lemma small_nibble_neq: "i < j \<Longrightarrow> j < 16 \<Longrightarrow> (word_of_nat i :: byte) \<noteq> word_of_nat j"
proof
  assume "i < j" "j < 16" "(word_of_nat i :: byte) = word_of_nat j"
  then have "unat (word_of_nat i :: byte) = unat (word_of_nat j :: byte)" by simp
  with \<open>i < j\<close> \<open>j < 16\<close> show False by (simp add: unat_of_nat)
qed

lemma canon_Branch_diverging:
  assumes "length cs = 16" "2 \<le> branch_entries cs v"
    and sub: "\<And>c. c \<in> set cs \<Longrightarrow> c \<noteq> Null \<Longrightarrow> \<exists>q. node_map c q \<noteq> None"
  shows "diverging (dom (node_map (Branch cs v)))"
proof (cases "2 \<le> length (filter (\<lambda>c. c \<noteq> Null) cs)")
  case True
  from two_entries[OF this] obtain i j where
    ij: "i < j" "j < 16" "cs ! i \<noteq> Null" "cs ! j \<noteq> Null" using assms(1) by auto
  then obtain q r where "node_map (cs ! i) q \<noteq> None" "node_map (cs ! j) r \<noteq> None"
    using sub[of "cs ! i"] sub[of "cs ! j"] assms(1) by auto
  then have "word_of_nat i # q \<in> dom (node_map (Branch cs v))"
    "word_of_nat j # r \<in> dom (node_map (Branch cs v))"
    using ij assms(1) Branch_child_key[of i cs q v] Branch_child_key[of j cs r v] by auto
  then show ?thesis unfolding diverging_def using small_nibble_neq[OF ij(1,2)]
    by (metis list.inject list.sel(1))
next
  case False
  with assms(2) have v: "v \<noteq> None" "filter (\<lambda>c. c \<noteq> Null) cs \<noteq> []"
    by (auto simp: branch_entries_def split: if_splits)
  then obtain i where i: "i < 16" "cs ! i \<noteq> Null"
    using assms(1) by (auto simp: filter_empty_conv in_set_conv_nth)
  then obtain q where "node_map (cs ! i) q \<noteq> None" using sub[of "cs ! i"] assms(1) by auto
  then have "word_of_nat i # q \<in> dom (node_map (Branch cs v))" "[] \<in> dom (node_map (Branch cs v))"
    using i assms(1) v(1) Branch_child_key[of i cs q v] by auto
  then show ?thesis unfolding diverging_def by (metis list.distinct(1))
qed

lemma diverging_nonempty: "diverging D \<Longrightarrow> \<exists>q. q \<in> D"
  by (auto simp: diverging_def)

lemma canon_nonempty: "canon t \<Longrightarrow> t \<noteq> Null \<Longrightarrow> \<exists>q. node_map t q \<noteq> None"
proof (induction t)
  case (Extension p c)
  then obtain q where "node_map c q \<noteq> None" by (cases c) auto
  then show ?case by (intro exI[of _ "p @ q"]) simp
next
  case (Branch cs v)
  then have "diverging (dom (node_map (Branch cs v)))"
    by (intro canon_Branch_diverging) auto
  then show ?case using diverging_nonempty by (metis domIff)
qed auto

lemma canon_diverging: "canon t \<Longrightarrow> is_branch t \<Longrightarrow> diverging (dom (node_map t))"
  by (cases t) (auto intro!: canon_Branch_diverging canon_nonempty simp del: node_map.simps)

lemma common_path_of_diverging:
  assumes "diverging D" "\<forall>q \<in> D. prefix p' (p @ q)"
  shows "prefix p' p"
proof -
  obtain q1 q2 where q: "q1 \<in> D" "q2 \<in> D" "q1 \<noteq> q2" "q1 = [] \<or> q2 = [] \<or> hd q1 \<noteq> hd q2"
    using assms(1) by (auto simp: diverging_def)
  then have "prefix p' (p @ q1)" "prefix p' (p @ q2)" using assms(2) by auto
  then show ?thesis
    using q(3,4) by (cases q1; cases q2) (auto simp: prefix_append prefix_Cons)
qed

lemma Extension_prefix:
  assumes "canon c" "is_branch c" "node_map (Extension p c) = node_map (Extension p' c')"
  shows "prefix p' p"
proof (rule common_path_of_diverging)
  show "diverging (dom (node_map c))" using assms by (intro canon_diverging)
  show "\<forall>q \<in> dom (node_map c). prefix p' (p @ q)"
  proof
    fix q assume "q \<in> dom (node_map c)"
    then have "node_map (Extension p c) (p @ q) \<noteq> None" by auto
    then have "node_map (Extension p' c') (p @ q) \<noteq> None" using assms(3) by simp
    then show "prefix p' (p @ q)" by (simp split: if_splits)
  qed
qed

lemma Extension_child_eq:
  "node_map (Extension p c) = node_map (Extension p c') \<Longrightarrow> node_map c = node_map c'"
proof
  fix q assume "node_map (Extension p c) = node_map (Extension p c')"
  then have "node_map (Extension p c) (p @ q) = node_map (Extension p c') (p @ q)" by simp
  then show "node_map c q = node_map c' q" by simp
qed

lemma Branch_child_eq:
  assumes "node_map (Branch cs v) = node_map (Branch cs' v')" "length cs = 16" "length cs' = 16" "i < 16"
  shows "node_map (cs ! i) = node_map (cs' ! i)"
proof
  fix q
  have "node_map (Branch cs v) (word_of_nat i # q) = node_map (Branch cs' v') (word_of_nat i # q)"
    using assms(1) by simp
  then show "node_map (cs ! i) q = node_map (cs' ! i) q" using assms(2-) by (simp add: unat_of_nat)
qed

text \<open>The shape of a normal form is visible in the keys of its map.\<close>

lemma shape_Leaf: "dom (node_map (Leaf p v)) = {p}"
  by (auto split: if_splits)

lemma not_diverging_Extension: "p \<noteq> [] \<Longrightarrow> \<not> diverging (dom (node_map (Extension p c)))"
  by (cases p) (auto simp: diverging_def prefix_def split: if_splits)

lemma Extension_two_keys:
  assumes "canon (Extension p c)" shows "\<nexists>q. dom (node_map (Extension p c)) = {q}"
proof
  assume "\<exists>q. dom (node_map (Extension p c)) = {q}"
  then obtain q where q: "dom (node_map (Extension p c)) = {q}" by blast
  have "diverging (dom (node_map c))" using assms by (intro canon_diverging) auto
  then obtain q1 q2 where d: "q1 \<in> dom (node_map c)" "q2 \<in> dom (node_map c)" "q1 \<noteq> q2"
    by (auto simp: diverging_def)
  then have "p @ q1 \<in> dom (node_map (Extension p c))" "p @ q2 \<in> dom (node_map (Extension p c))"
    by auto
  with q d(3) show False by auto
qed

lemma not_diverging_Leaf: "\<not> diverging (dom (node_map (Leaf p v)))"
  unfolding shape_Leaf by (simp add: diverging_def)

lemma same_map_Null: "canon t' \<Longrightarrow> node_map t' = node_map Null \<Longrightarrow> t' = Null"
  using canon_nonempty[of t'] by auto

lemma same_map_Leaf:
  assumes "canon t'" "node_map t' = node_map (Leaf p v)" shows "t' = Leaf p v"
proof -
  have d: "dom (node_map t') = {p}" unfolding assms(2) by (rule shape_Leaf)
  show ?thesis
  proof (cases t')
    case Null with d show ?thesis by (auto simp: dom_def)
  next
    case (Leaf p' v')
    then have "p' = p" using d unfolding Leaf shape_Leaf by simp
    then show ?thesis using Leaf fun_cong[OF assms(2), of p] by simp
  next
    case (Extension p' c) with d assms(1) Extension_two_keys show ?thesis by blast
  next
    case (Branch cs v)
    with assms(1) canon_diverging[of t'] have "diverging (dom (node_map t'))" by simp
    with d show ?thesis by (simp add: diverging_def)
  qed
qed

lemma same_map_Extension:
  assumes "canon t'" "canon (Extension p c)" "node_map t' = node_map (Extension p c)"
  obtains p' c' where "t' = Extension p' c'"
proof (cases t')
  case Null
  with canon_nonempty[OF assms(2)] show ?thesis unfolding assms(3)[symmetric] by simp
next
  case (Leaf p' v')
  with assms Extension_two_keys[of p c] shape_Leaf show ?thesis by metis
next
  case (Branch cs v)
  have "p \<noteq> []" using assms(2) by simp
  then have "\<not> diverging (dom (node_map t'))" unfolding assms(3) by (rule not_diverging_Extension)
  with canon_diverging[OF assms(1)] Branch show ?thesis by simp
qed

lemma same_map_Branch:
  assumes "canon t'" "canon (Branch cs v)" "node_map t' = node_map (Branch cs v)"
  obtains cs' v' where "t' = Branch cs' v'"
proof -
  have d: "diverging (dom (node_map t'))" using canon_diverging[OF assms(2)] assms(3) by simp
  show thesis
  proof (cases t')
    case Null
    with d show ?thesis by (auto simp: diverging_def dom_def)
  next
    case (Leaf p w)
    with d not_diverging_Leaf[of p w] show ?thesis by (simp del: node_map.simps)
  next
    case (Extension p c)
    with assms(1) have "p \<noteq> []" by simp
    with d not_diverging_Extension[of p c] Extension show ?thesis by (simp del: node_map.simps)
  qed (rule that)
qed

lemma canon_unique:
  "canon t \<Longrightarrow> canon t' \<Longrightarrow> node_map t = node_map t' \<Longrightarrow> t = t'"
proof (induction t arbitrary: t')
  case Null
  show ?case using same_map_Null[OF Null(2) Null(3)[symmetric]] by (rule sym)
next
  case (Leaf p v)
  show ?case using same_map_Leaf[OF Leaf(2) Leaf(3)[symmetric]] by (rule sym)
next
  case (Extension p c)
  obtain p' c' where E: "t' = Extension p' c'"
    by (rule same_map_Extension[OF Extension.prems(2,1) Extension.prems(3)[symmetric]])
  have c: "canon c" "is_branch c" "canon c'" "is_branch c'"
    using Extension.prems E by auto
  have m: "node_map (Extension p c) = node_map (Extension p' c')" using Extension.prems(3) unfolding E .
  have p: "p = p'"
    using Extension_prefix[OF c(3,4) m[symmetric]] Extension_prefix[OF c(1,2) m]
    by (rule prefix_order.antisym)
  have "node_map c = node_map c'" using m unfolding p by (rule Extension_child_eq)
  then have "c = c'" using c(1,3) by (intro Extension.IH)
  with p E show ?case by simp
next
  case (Branch cs v)
  obtain cs' v' where B: "t' = Branch cs' v'"
    by (rule same_map_Branch[OF Branch.prems(2,1) Branch.prems(3)[symmetric]])
  have m: "node_map (Branch cs v) = node_map (Branch cs' v')" using Branch.prems(3) unfolding B .
  have l: "length cs = 16" "length cs' = 16" using Branch.prems B by auto
  have "v = v'" using fun_cong[OF m, of "[]"] by simp
  moreover have "cs = cs'"
  proof (rule nth_equalityI)
    fix i assume "i < length cs"
    then show "cs ! i = cs' ! i"
      using Branch.prems(1,2) B l Branch_child_eq[OF m l, of i]
      by (intro Branch.IH) (auto simp del: node_map.simps)
  qed (simp add: l)
  ultimately show ?case using B by simp
qed

section \<open>Tries as maps\<close>

text \<open>
  The contract of a store that is filled key by key: \<open>update\<close> answers (it does not panic) on every
  admissible key, keeps the invariant and refines map update, \<open>lookup\<close> reads the abstract map, and
  two stores with one abstract map are equal.  The clients need only these laws: filling a store from an
  association list gives that list's map, and the order of the list does not matter.
\<close>

locale path_map =
  fixes empty :: 's and update :: "'s \<Rightarrow> 'k \<Rightarrow> 'v \<Rightarrow> 's outcome" and lookup :: "'s \<Rightarrow> 'k \<Rightarrow> 'v option outcome"
    and abs :: "'s \<Rightarrow> 'k \<Rightarrow> 'v option" and invar :: "'s \<Rightarrow> bool"
  assumes empty_invar: "invar empty" and empty_abs: "abs empty = Map.empty"
    and update_law: "invar s \<Longrightarrow> \<exists>s'. update s k v = Done s' \<and> invar s' \<and> abs s' = (abs s)(k \<mapsto> v)"
    and lookup_law: "invar s \<Longrightarrow> lookup s k = Done (abs s k)"
    and extensional: "invar s \<Longrightarrow> invar s' \<Longrightarrow> abs s = abs s' \<Longrightarrow> s = s'"
begin

abbreviation fill :: "'s \<Rightarrow> ('k \<times> 'v) list \<Rightarrow> 's outcome" where
  "fill \<equiv> ofold (\<lambda>s kv. update s (fst kv) (snd kv))"

lemma fill_law:
  "invar s \<Longrightarrow> \<exists>s'. fill s kvs = Done s' \<and> invar s' \<and> abs s' = abs s ++ map_of (rev kvs)"
proof (induction kvs arbitrary: s)
  case (Cons kv kvs)
  obtain s1 where s1: "update s (fst kv) (snd kv) = Done s1" "invar s1"
    "abs s1 = (abs s)(fst kv \<mapsto> snd kv)" using update_law[OF Cons.prems] by blast
  have "abs s ++ map_of (rev (kv # kvs)) = abs s1 ++ map_of (rev kvs)"
    unfolding s1(3) by (cases kv) simp
  with Cons.IH[OF s1(2)] s1(1) show ?case by simp
qed simp

lemma fill_empty:
  "\<exists>s'. fill empty kvs = Done s' \<and> invar s' \<and> abs s' = map_of (rev kvs)"
  using fill_law[OF empty_invar, of kvs] by (simp add: empty_abs)

lemma fill_order:
  assumes "distinct (map fst kvs)" "mset kvs = mset kvs'"
  shows "fill empty kvs = fill empty kvs'"
proof -
  have d: "distinct (map fst kvs')" using assms by (metis mset_eq_imp_distinct_iff mset_map)
  have "map_of (rev kvs) = map_of (rev kvs')"
  proof (subst map_of_inject_set)
    show "set (rev kvs) = set (rev kvs')" using mset_eq_setD[OF assms(2)] by simp
  qed (simp_all add: assms(1) d rev_map[symmetric])
  with fill_empty[of kvs] fill_empty[of kvs'] extensional show ?thesis by metis
qed

lemma lookup_after_fill:
  assumes "fill empty kvs = Done s" shows "lookup s k = Done (map_of (rev kvs) k)"
  using fill_empty[of kvs] assms lookup_law by auto

end

text \<open>
  A trie reached by insertions from the empty one is in normal form and its keys are expansions of byte
  strings, so its map on byte strings determines it.
\<close>

definition trie_ok :: "merkle_patricia_trie \<Rightarrow> bool" where
  "trie_ok t \<longleftrightarrow> canon (root t) \<and> dom (node_map (root t)) \<subseteq> range bytes_to_nibbles"

definition trie_map :: "merkle_patricia_trie \<Rightarrow> bytes \<Rightarrow> bytes option" where
  "trie_map t key = node_map (root t) (bytes_to_nibbles key)"

lemma trie_insert_law:
  assumes "trie_ok t"
  shows "\<exists>t'. trie_insert t key v = Done t' \<and> trie_ok t' \<and> trie_map t' = (trie_map t)(key \<mapsto> v)"
proof -
  obtain n where n: "insert_node (root t) (bytes_to_nibbles key) v = Done n" "canon n"
    "node_map n = (node_map (root t))(bytes_to_nibbles key \<mapsto> v)"
    using insert_node_spec[of "root t" "bytes_to_nibbles key" v] assms by (auto simp: trie_ok_def)
  have "trie_map (t\<lparr>root := n\<rparr>) = (trie_map t)(key \<mapsto> v)"
    by (rule ext) (simp add: trie_map_def n(3) bytes_to_nibbles_inj)
  moreover have "trie_ok (t\<lparr>root := n\<rparr>)" using assms n(2,3) by (auto simp: trie_ok_def)
  ultimately show ?thesis using n(1) by (simp add: trie_insert_def)
qed

lemma trie_extensional:
  assumes "trie_ok t" "trie_ok t'" "trie_map t = trie_map t'" shows "t = t'"
proof -
  have "node_map (root t) q = node_map (root t') q" for q
  proof (cases "q \<in> range bytes_to_nibbles")
    case True
    then show ?thesis using fun_cong[OF assms(3)] by (auto simp: trie_map_def)
  next
    case False
    then have "q \<notin> dom (node_map (root t))" "q \<notin> dom (node_map (root t'))"
      using assms(1,2) by (auto simp: trie_ok_def)
    then show ?thesis by (simp add: domIff)
  qed
  then have "root t = root t'" using assms(1,2) by (intro canon_unique ext) (simp_all add: trie_ok_def)
  then show ?thesis by simp
qed

interpretation trie: path_map trie_new trie_insert trie_get trie_map trie_ok
proof unfold_locales
  show "trie_ok trie_new" "trie_map trie_new = Map.empty"
    by (simp_all add: trie_ok_def trie_new_def trie_map_def fun_eq_iff dom_def)
  show "trie_get s k = Done (trie_map s k)" if "trie_ok s" for s k
    using that by (simp add: trie_get_def get_node_node_map trie_ok_def trie_map_def)
qed (fact trie_insert_law trie_extensional)+

section \<open>Properties\<close>

text \<open>C10.  The trie implements a finite map: after any sequence of insertions into the empty trie, none of which panics, \<open>get\<close>
  of a key answers the value inserted last for it.\<close>

theorem trie_refines_map:
  "\<exists>t. ofold (\<lambda>s kv. trie_insert s (fst kv) (snd kv)) trie_new kvs = Done t \<and>
       (\<forall>key. trie_get t key = Done (map_of (rev kvs) key))"
  using trie.fill_empty[of kvs] trie.lookup_after_fill[of kvs] by blast

text \<open>C11.  The shape of the trie is canonical: two insertion histories that end in the same map (overwritten values and
  orders included) end in the same trie, hence with one root hash.\<close>

theorem trie_canonical:
  assumes "map_of (rev kvs) = map_of (rev kvs')"
  shows "ofold (\<lambda>s kv. trie_insert s (fst kv) (snd kv)) trie_new kvs =
    ofold (\<lambda>s kv. trie_insert s (fst kv) (snd kv)) trie_new kvs'"
  using trie.fill_empty[of kvs] trie.fill_empty[of kvs'] trie.extensional assms by metis

theorem trie_canonical_witness:
  "ofold (\<lambda>s kv. trie_insert s (fst kv) (snd kv)) trie_new [([1], [7]), ([2], [8]), ([1], [9])] =
   ofold (\<lambda>s kv. trie_insert s (fst kv) (snd kv)) trie_new [([1], [9]), ([2], [8])]"
  by (rule trie_canonical) (simp add: fun_eq_iff)

text \<open>The hex-prefix encoding of a path and its leaf flag can be undone, for even and odd lengths.\<close>

lemma compact_roundtrip:
  assumes "nibs path" shows "compact_decode (compact_encode path leaf) = (path, leaf)"
  by (rule compact_decode_encode[OF assms])

end
