(* ===== verification/EvmState.thy ===== *)
theory EvmState
  imports EvmMpt
begin

text \<open>
  The forked world state of \<open>src/state.rs\<close>: an immutable base, the accounts written since
  (\<open>dirty_state\<close>), transient storage, and a stack of snapshots.  The locale \<open>keyed_cells\<close> is the
  contract of the five getter/setter pairs; \<open>fork_run\<close> is the set of operation sequences between a
  snapshot and its revert.  The state root walks a \<open>HashSet\<close> and a \<open>HashMap\<close>; their iteration orders
  are parameters (\<open>ao\<close> for addresses, \<open>so\<close> for storage entries), of which the root is shown independent.
\<close>

section \<open>Data and operations\<close>

record account_state =
  acc_nonce :: u64
  acc_balance :: u256
  acc_code :: bytes
  acc_storage :: "(u256, u256) hashmap"

definition default_account :: account_state where
  "default_account = \<lparr>acc_nonce = 0, acc_balance = 0, acc_code = [], acc_storage = []\<rparr>"

record snapshot_rec =
  snapshot_id :: usize
  snap_dirty_state :: "(address, account_state) hashmap"
  snap_transient_storage :: "(address \<times> u256, u256) hashmap"

record state_fork =
  base_state :: "(address, account_state) hashmap"
  dirty_state :: "(address, account_state) hashmap"
  snapshots :: "snapshot_rec list"
  transient_storage :: "(address \<times> u256, u256) hashmap"

definition default_fork :: state_fork where
  "default_fork = \<lparr>base_state = [], dirty_state = [], snapshots = [], transient_storage = []\<rparr>"

definition snapshot :: "state_fork \<Rightarrow> usize \<times> state_fork" where
  "snapshot st =
     (let snapshot_id = length (snapshots st)
      in (snapshot_id, st\<lparr>snapshots := snapshots st @
            [\<lparr>snapshot_id = snapshot_id, snap_dirty_state = dirty_state st,
              snap_transient_storage = transient_storage st\<rparr>]\<rparr>))"

definition revert_to_snapshot :: "state_fork \<Rightarrow> usize \<Rightarrow> state_fork" where
  "revert_to_snapshot st sid =
     (case position (\<lambda>s. snapshot_id s = sid) (snapshots st) of
        None \<Rightarrow> st
      | Some i \<Rightarrow> st\<lparr>dirty_state := snap_dirty_state (snapshots st ! i),
                     transient_storage := snap_transient_storage (snapshots st ! i),
                     snapshots := take i (snapshots st)\<rparr>)"

definition get_account :: "state_fork \<Rightarrow> address \<Rightarrow> account_state" where
  "get_account st addr =
     (case hm_get (dirty_state st) addr of
        Some a \<Rightarrow> a
      | None \<Rightarrow> unwrap_or default_account (hm_get (base_state st) addr))"

definition tload :: "state_fork \<Rightarrow> address \<Rightarrow> u256 \<Rightarrow> u256" where
  "tload st addr key = unwrap_or 0 (hm_get (transient_storage st) (addr, key))"

definition tstore :: "state_fork \<Rightarrow> address \<Rightarrow> u256 \<Rightarrow> u256 \<Rightarrow> state_fork" where
  "tstore st addr key v = st\<lparr>transient_storage := hm_insert (addr, key) v (transient_storage st)\<rparr>"

text \<open>The removal SELFDESTRUCT makes, directly in the two maps.\<close>

definition remove_account :: "state_fork \<Rightarrow> address \<Rightarrow> state_fork" where
  "remove_account st addr =
     st\<lparr>dirty_state := hm_remove addr (dirty_state st), base_state := hm_remove addr (base_state st)\<rparr>"

definition clear_transient_storage :: "state_fork \<Rightarrow> state_fork" where
  "clear_transient_storage st = st\<lparr>transient_storage := []\<rparr>"

definition get_storage :: "state_fork \<Rightarrow> address \<Rightarrow> u256 \<Rightarrow> u256" where
  "get_storage st addr slot = unwrap_or 0 (hm_get (acc_storage (get_account st addr)) slot)"

definition get_balance :: "state_fork \<Rightarrow> address \<Rightarrow> u256" where
  "get_balance st addr = acc_balance (get_account st addr)"

definition get_code :: "state_fork \<Rightarrow> address \<Rightarrow> bytes" where
  "get_code st addr = acc_code (get_account st addr)"

text \<open>
  \<open>account_for_write\<close> copies the base account into \<open>dirty_state\<close> on the first write and hands out a
  mutable reference; \<open>f\<close> is what the caller does through it.
\<close>

definition account_for_write :: "state_fork \<Rightarrow> address \<Rightarrow> (account_state \<Rightarrow> account_state) \<Rightarrow> state_fork" where
  "account_for_write st addr f =
     (let d = (if hm_get (dirty_state st) addr = None
               then hm_insert addr (unwrap_or default_account (hm_get (base_state st) addr)) (dirty_state st)
               else dirty_state st)
      in st\<lparr>dirty_state := hm_insert addr (f (unwrap_or default_account (hm_get d addr))) d\<rparr>)"

definition set_storage :: "state_fork \<Rightarrow> address \<Rightarrow> u256 \<Rightarrow> u256 \<Rightarrow> state_fork" where
  "set_storage st addr slot v =
     account_for_write st addr (\<lambda>a. a\<lparr>acc_storage := hm_insert slot v (acc_storage a)\<rparr>)"

definition set_balance :: "state_fork \<Rightarrow> address \<Rightarrow> u256 \<Rightarrow> state_fork" where
  "set_balance st addr b = account_for_write st addr (\<lambda>a. a\<lparr>acc_balance := b\<rparr>)"

definition set_code :: "state_fork \<Rightarrow> address \<Rightarrow> bytes \<Rightarrow> state_fork" where
  "set_code st addr c = account_for_write st addr (\<lambda>a. a\<lparr>acc_code := c\<rparr>)"

definition set_nonce :: "state_fork \<Rightarrow> address \<Rightarrow> u64 \<Rightarrow> state_fork" where
  "set_nonce st addr n = account_for_write st addr (\<lambda>a. a\<lparr>acc_nonce := n\<rparr>)"

section \<open>The state root\<close>

definition storage_entry :: "(bytes \<Rightarrow> bytes) \<Rightarrow> u256 \<times> u256 \<Rightarrow> bytes \<times> bytes" where
  "storage_entry K sv =
     (let raw = u256_to_be_bytes (snd sv)
      in (K (u256_to_be_bytes (fst sv)), drop (unwrap_or 32 (position (\<lambda>b. b \<noteq> 0) raw)) raw))"

definition insert_entry :: "merkle_patricia_trie \<Rightarrow> bytes \<times> bytes \<Rightarrow> merkle_patricia_trie outcome" where
  "insert_entry t kv = trie_insert t (fst kv) (snd kv)"

definition fork_storage_root ::
    "(bytes \<Rightarrow> bytes) \<Rightarrow> ((u256, u256) hashmap \<Rightarrow> (u256, u256) hashmap) \<Rightarrow> (u256, u256) hashmap \<Rightarrow> bytes outcome" where
  "fork_storage_root K so storage =
     obind (ofold (\<lambda>t sv. insert_entry t (storage_entry K sv)) trie_new (so storage))
       (\<lambda>t. Done (root_hash K t))"

definition state_account_of :: "(bytes \<Rightarrow> bytes) \<Rightarrow> account_state \<Rightarrow> bytes \<Rightarrow> state_account" where
  "state_account_of K a storage_root =
     \<lparr>sa_nonce = acc_nonce a, sa_balance = acc_balance a, sa_storage_root = storage_root,
      sa_code_hash = (if acc_code a = [] then K [] else K (acc_code a))\<rparr>"

definition account_entry ::
    "(bytes \<Rightarrow> bytes) \<Rightarrow> ((u256, u256) hashmap \<Rightarrow> (u256, u256) hashmap) \<Rightarrow> state_fork \<Rightarrow> address
     \<Rightarrow> (bytes \<times> bytes) outcome" where
  "account_entry K so st addr =
     (let a = get_account st addr
      in obind (fork_storage_root K so (acc_storage a)) (\<lambda>r.
         Done (K addr, account_rlp_encode (state_account_of K a r))))"

text \<open>The addresses of the \<open>HashSet\<close>: the keys of the base, then those of \<open>dirty_state\<close> not among them.\<close>

definition fork_addresses :: "state_fork \<Rightarrow> address list" where
  "fork_addresses st =
     map fst (base_state st) @ filter (\<lambda>a. a \<notin> set (map fst (base_state st))) (map fst (dirty_state st))"

definition fork_compute_state_root ::
    "(bytes \<Rightarrow> bytes) \<Rightarrow> (address list \<Rightarrow> address list) \<Rightarrow> ((u256, u256) hashmap \<Rightarrow> (u256, u256) hashmap)
     \<Rightarrow> state_fork \<Rightarrow> bytes outcome" where
  "fork_compute_state_root K ao so st =
     obind (ofold (\<lambda>t addr. obind (account_entry K so st addr) (insert_entry t))
              trie_new (ao (fork_addresses st)))
       (\<lambda>t. Done (root_hash K t))"

section \<open>Well-formed states\<close>

definition accounts_ok :: "(address, account_state) hashmap \<Rightarrow> bool" where
  "accounts_ok m \<longleftrightarrow> hm_wf m \<and> (\<forall>a \<in> snd ` set m. hm_wf (acc_storage a))"

definition snapshots_ok :: "snapshot_rec list \<Rightarrow> bool" where
  "snapshots_ok ss \<longleftrightarrow>
     (\<forall>i < length ss. snapshot_id (ss ! i) = i \<and> accounts_ok (snap_dirty_state (ss ! i))
        \<and> hm_wf (snap_transient_storage (ss ! i)))"

definition fork_ok :: "state_fork \<Rightarrow> bool" where
  "fork_ok st \<longleftrightarrow> accounts_ok (base_state st) \<and> accounts_ok (dirty_state st)
     \<and> snapshots_ok (snapshots st) \<and> hm_wf (transient_storage st)"

lemma accounts_ok_get: "accounts_ok m \<Longrightarrow> hm_get m k = Some a \<Longrightarrow> hm_wf (acc_storage a)"
  by (auto simp: accounts_ok_def dest!: map_of_SomeD)

lemma accounts_ok_insert [simp]:
  assumes "accounts_ok m" "hm_wf (acc_storage a)" shows "accounts_ok (hm_insert k a m)"
proof -
  have "snd ` set (hm_insert k a m) \<subseteq> insert a (snd ` set m)"
  proof
    fix x assume "x \<in> snd ` set (hm_insert k a m)"
    then obtain k' where "(k', x) \<in> set (hm_insert k a m)" by auto
    then have "hm_get (hm_insert k a m) k' = Some x"
      using assms(1) by (intro map_of_is_SomeI) (simp_all add: accounts_ok_def)
    then show "x \<in> insert a (snd ` set m)" 
      by (cases "k = k'") (auto dest!: map_of_SomeD intro: image_eqI[of _ snd "(k', x)"])
  qed
  moreover have "\<forall>x \<in> insert a (snd ` set m). hm_wf (acc_storage x)"
    using assms by (auto simp: accounts_ok_def)
  ultimately show ?thesis using assms(1) unfolding accounts_ok_def by (blast intro: hm_wf_insert)
qed

lemma default_account_wf [simp]: "hm_wf (acc_storage default_account)"
  by (simp add: default_account_def)

lemma get_account_wf: "fork_ok st \<Longrightarrow> hm_wf (acc_storage (get_account st addr))"
  by (auto simp: get_account_def fork_ok_def unwrap_or_def split: option.splits intro: accounts_ok_get)

lemma get_account_write [simp]:
  "get_account (account_for_write st addr f) a = (if a = addr then f (get_account st addr) else get_account st a)"
  by (auto simp: account_for_write_def get_account_def Let_def split: option.splits)

lemma account_for_write_keeps [simp]:
  "base_state (account_for_write st addr f) = base_state st"
  "snapshots (account_for_write st addr f) = snapshots st"
  "transient_storage (account_for_write st addr f) = transient_storage st"
  by (simp_all add: account_for_write_def Let_def)

lemma account_for_write_ok:
  assumes "fork_ok st" "\<And>a. hm_wf (acc_storage a) \<Longrightarrow> hm_wf (acc_storage (f a))"
  shows "fork_ok (account_for_write st addr f)"
proof -
  have "hm_wf (acc_storage (unwrap_or default_account (hm_get (base_state st) addr)))"
    using assms(1) by (auto simp: unwrap_or_def fork_ok_def split: option.splits intro: accounts_ok_get)
  then show ?thesis
    using assms accounts_ok_get[of "dirty_state st" addr]
    by (auto simp: fork_ok_def account_for_write_def Let_def intro!: accounts_ok_insert)
qed

lemma writers_ok:
  assumes "fork_ok st"
  shows "fork_ok (set_storage st a k v)" "fork_ok (set_balance st a v)" "fork_ok (set_code st a c)"
    "fork_ok (set_nonce st a n)" "fork_ok (tstore st a k v)" "fork_ok (clear_transient_storage st)"
proof -
  show "fork_ok (tstore st a k v)" "fork_ok (clear_transient_storage st)"
    using assms by (simp_all add: fork_ok_def tstore_def clear_transient_storage_def)
qed (use assms in \<open>simp_all add: set_storage_def set_balance_def set_code_def set_nonce_def account_for_write_ok\<close>)

section \<open>Getters and setters\<close>

text \<open>Cells addressed by a key: reading a cell gives what was last written to it.\<close>

locale keyed_cells =
  fixes get :: "'s \<Rightarrow> 'k \<Rightarrow> 'v" and put :: "'s \<Rightarrow> 'k \<Rightarrow> 'v \<Rightarrow> 's"
  assumes get_put: "get (put s k v) k' = (if k' = k then v else get s k')"
begin

lemma get_put_same: "get (put s k v) k = v"
  by (simp add: get_put)

lemma put_commute: "k \<noteq> l \<Longrightarrow> get (put (put s k v) l w) = get (put (put s l w) k v)"
  by (auto simp: get_put fun_eq_iff)

lemma put_overwrite: "get (put (put s k v) k w) = get (put s k w)"
  by (auto simp: get_put fun_eq_iff)

text \<open>After a sequence of writes a cell holds the last value written to it.\<close>

lemma get_after_puts:
  "get (foldl (\<lambda>s kv. put s (fst kv) (snd kv)) s kvs) k = unwrap_or (get s k) (map_of (rev kvs) k)"
proof (induction kvs rule: rev_induct)
  case (snoc kv kvs)
  then show ?case by (cases kv) (simp add: get_put)
qed simp

end

interpretation balance: keyed_cells get_balance set_balance
  by unfold_locales (simp add: get_balance_def set_balance_def)

interpretation code: keyed_cells get_code set_code
  by unfold_locales (simp add: get_code_def set_code_def)

interpretation nonce: keyed_cells "\<lambda>st a. acc_nonce (get_account st a)" set_nonce
  by unfold_locales (simp add: set_nonce_def)

interpretation storage: keyed_cells "\<lambda>st (a, k). get_storage st a k" "\<lambda>st (a, k). set_storage st a k"
  by unfold_locales (auto simp: get_storage_def set_storage_def split: if_splits)

interpretation transient: keyed_cells "\<lambda>st (a, k). tload st a k" "\<lambda>st (a, k). tstore st a k"
  by unfold_locales (auto simp: tload_def tstore_def split: if_splits)

section \<open>Snapshots\<close>

text \<open>What may happen between taking snapshot \<open>n\<close> and reverting to it.  The set \<open>D\<close> collects the accounts that
  SELFDESTRUCT removed: the removal also reaches \<open>base_state\<close>, of which a snapshot keeps no copy.\<close>

inductive fork_run :: "nat \<Rightarrow> address set \<Rightarrow> state_fork \<Rightarrow> state_fork \<Rightarrow> bool" where
  run_refl: "fork_run n {} st st"
| run_storage: "fork_run n D st st' \<Longrightarrow> fork_run n D st (set_storage st' a k v)"
| run_balance: "fork_run n D st st' \<Longrightarrow> fork_run n D st (set_balance st' a b)"
| run_code: "fork_run n D st st' \<Longrightarrow> fork_run n D st (set_code st' a c)"
| run_nonce: "fork_run n D st st' \<Longrightarrow> fork_run n D st (set_nonce st' a m)"
| run_tstore: "fork_run n D st st' \<Longrightarrow> fork_run n D st (tstore st' a k v)"
| run_clear: "fork_run n D st st' \<Longrightarrow> fork_run n D st (clear_transient_storage st')"
| run_remove: "fork_run n D st st' \<Longrightarrow> fork_run n (insert a D) st (remove_account st' a)"
| run_snapshot: "fork_run n D st st' \<Longrightarrow> fork_run n D st (snd (snapshot st'))"
| run_revert: "fork_run n D st st' \<Longrightarrow> n < sid \<Longrightarrow> fork_run n D st (revert_to_snapshot st' sid)"

abbreviation without_accounts :: "'k set \<Rightarrow> ('k, 'v) hashmap \<Rightarrow> ('k, 'v) hashmap" where
  "without_accounts D m \<equiv> filter (\<lambda>x. fst x \<notin> D) m"

lemma snapshots_ok_position:
  assumes "snapshots_ok ss"
  shows "position (\<lambda>s. snapshot_id s = sid) ss = (if sid < length ss then Some sid else None)"
proof (cases "position (\<lambda>s. snapshot_id s = sid) ss")
  case None
  then have "\<forall>x \<in> set ss. snapshot_id x \<noteq> sid" by (simp add: position_None)
  then have "\<not> sid < length ss" using assms nth_mem by (fastforce simp: snapshots_ok_def)
  with None show ?thesis by simp
next
  case (Some i)
  with position_Some[OF Some] assms show ?thesis by (auto simp: snapshots_ok_def)
qed

lemma revert_to_snapshot_eq:
  assumes "fork_ok st"
  shows "revert_to_snapshot st sid =
    (if sid < length (snapshots st)
     then st\<lparr>dirty_state := snap_dirty_state (snapshots st ! sid),
             transient_storage := snap_transient_storage (snapshots st ! sid),
             snapshots := take sid (snapshots st)\<rparr>
     else st)"
  using assms by (simp add: revert_to_snapshot_def fork_ok_def snapshots_ok_position)

lemma get_account_snapshot [simp]: "get_account (snd (snapshot st)) a = get_account st a"
  by (simp add: snapshot_def Let_def get_account_def split: option.split)

lemma get_account_clear [simp]: "get_account (clear_transient_storage st) a = get_account st a"
  by (simp add: clear_transient_storage_def get_account_def split: option.split)

lemma snapshot_ok: "fork_ok st \<Longrightarrow> fork_ok (snd (snapshot st))"
  by (auto simp: fork_ok_def snapshot_def Let_def snapshots_ok_def nth_append less_Suc_eq)

lemma revert_ok: "fork_ok st \<Longrightarrow> fork_ok (revert_to_snapshot st sid)"
  by (auto simp: revert_to_snapshot_eq) (auto simp: fork_ok_def snapshots_ok_def)

lemma hm_remove_filter: "hm_remove k m = filter (\<lambda>x. fst x \<noteq> k) m"
  by (simp add: AList.delete_eq case_prod_beta' eq_commute[of k])

lemma accounts_ok_remove [simp]: "accounts_ok m \<Longrightarrow> accounts_ok (hm_remove k m)"
  using hm_wf_remove[of m k] by (auto simp: accounts_ok_def AList.delete_eq)

lemma remove_account_ok: "fork_ok st \<Longrightarrow> fork_ok (remove_account st a)"
  by (simp add: fork_ok_def remove_account_def)

lemma hm_get_without: "hm_get (without_accounts D m) k = (if k \<in> D then None else hm_get m k)"
  by (induction m) auto

lemma fork_run_keeps:
  assumes "fork_run n D st st'" "fork_ok st" "n < length (snapshots st)"
  shows "fork_ok st' \<and> base_state st' = without_accounts D (base_state st) \<and> n < length (snapshots st') \<and>
         take (Suc n) (snapshots st') = take (Suc n) (snapshots st)"
  using assms
proof (induction rule: fork_run.induct)
  case (run_remove n D st st' a)
  then have "fork_ok (remove_account st' a)" by (blast intro: remove_account_ok)
  with run_remove show ?case by (simp add: remove_account_def hm_remove_filter conj_commute)
next
  case (run_snapshot n D st st')
  then have "fork_ok (snd (snapshot st'))" by (blast intro: snapshot_ok)
  with run_snapshot show ?case by (simp add: snapshot_def Let_def)
next
  case (run_revert n D st st' sid)
  then have "fork_ok (revert_to_snapshot st' sid)" by (blast intro: revert_ok)
  with run_revert show ?case by (auto simp: revert_to_snapshot_eq min_def)
qed (auto simp: writers_ok, simp_all add: set_storage_def set_balance_def set_code_def set_nonce_def
      tstore_def clear_transient_storage_def)

lemma revert_restores:
  assumes "fork_ok st" "snapshot st = (sid, st1)" "fork_run sid D st1 st2"
  shows "revert_to_snapshot st2 sid = st\<lparr>base_state := without_accounts D (base_state st)\<rparr>"
proof -
  have st1: "sid = length (snapshots st)" "snapshots st1 = snapshots st @ [\<lparr>snapshot_id = sid,
      snap_dirty_state = dirty_state st, snap_transient_storage = transient_storage st\<rparr>]"
    "base_state st1 = base_state st" "fork_ok st1"
    using assms(1,2) snapshot_ok[of st] by (auto simp: snapshot_def Let_def)
  note k = fork_run_keeps[OF assms(3) st1(4)]
  have sid: "sid < length (snapshots st1)" using st1 by simp
  have nth: "snapshots st2 ! sid = snapshots st1 ! sid"
    using k[OF sid] by (metis lessI nth_take)
  have take: "take sid (snapshots st2) = take sid (snapshots st1)"
    using k[OF sid] by (metis less_imp_le_nat lessI min.absorb1 take_take)
  show ?thesis
    using k[OF sid] nth take st1 by (simp add: revert_to_snapshot_eq nth_append)
qed

section \<open>The root does not depend on the iteration orders\<close>

lemma ofold_map_pure:
  "(\<And>x. x \<in> set xs \<Longrightarrow> g x = Done (h x)) \<Longrightarrow>
   ofold (\<lambda>s x. obind (g x) (f s)) s xs = ofold f s (map h xs)"
proof (induction xs arbitrary: s)
  case (Cons x xs)
  then show ?case by (cases "f s (h x)") simp_all
qed simp

lemma insert_entry_fill: "ofold insert_entry = trie.fill"
  by (simp add: insert_entry_def[abs_def])

lemma storage_fold:
  "ofold (\<lambda>t sv. insert_entry t (storage_entry K sv)) t xs = trie.fill t (map (storage_entry K) xs)"
  using ofold_map_pure[of xs "\<lambda>x. Done (storage_entry K x)" "storage_entry K" insert_entry t]
  by (simp add: insert_entry_fill[symmetric])

lemma fork_storage_root_Done: "\<exists>r. fork_storage_root K so storage = Done r"
  using trie.fill_empty[of "map (storage_entry K) (so storage)"]
  by (auto simp: fork_storage_root_def storage_fold)

lemma fill_root_order:
  assumes "distinct (map fst kvs)" "mset kvs = mset kvs'"
  shows "obind (trie.fill trie_new kvs) (\<lambda>t. Done (root_hash K t)) =
         obind (trie.fill trie_new kvs') (\<lambda>t. Done (root_hash K t))"
  using trie.fill_order[OF assms] by simp

lemma storage_keys_distinct:
  assumes "hm_wf storage" "inj_on K (u256_to_be_bytes ` fst ` set storage)"
  shows "distinct (map fst (map (storage_entry K) storage))"
proof -
  have "map fst (map (storage_entry K) storage) = map (\<lambda>s. K (u256_to_be_bytes s)) (map fst storage)"
    by (simp add: storage_entry_def Let_def comp_def)
  moreover have "inj_on (\<lambda>s. K (u256_to_be_bytes s)) (fst ` set storage)"
    using assms(2) by (auto simp: inj_on_def u256_to_be_bytes_inj)
  ultimately show ?thesis using assms(1) by (simp add: distinct_map del: map_map)
qed

lemma fork_storage_root_order:
  assumes "hm_wf storage" "inj_on K (u256_to_be_bytes ` fst ` set storage)"
    "mset (so storage) = mset storage" "mset (so' storage) = mset storage"
  shows "fork_storage_root K so storage = fork_storage_root K so' storage"
proof -
  have "fork_storage_root K o1 storage = fork_storage_root K (\<lambda>x. x) storage"
    if "mset (o1 storage) = mset storage" for o1
    unfolding fork_storage_root_def storage_fold
    by (rule fill_root_order[symmetric, OF storage_keys_distinct[OF assms(1,2)]]) (simp add: that)
  then show ?thesis using assms(3,4) by metis
qed

definition entry_of ::
    "(bytes \<Rightarrow> bytes) \<Rightarrow> ((u256, u256) hashmap \<Rightarrow> (u256, u256) hashmap) \<Rightarrow> state_fork \<Rightarrow> address
     \<Rightarrow> bytes \<times> bytes" where
  "entry_of K so st addr = (case account_entry K so st addr of Done e \<Rightarrow> e | _ \<Rightarrow> (K addr, []))"

lemma account_entry_Done: "account_entry K so st addr = Done (entry_of K so st addr)"
  using fork_storage_root_Done[of K so "acc_storage (get_account st addr)"]
  by (auto simp: entry_of_def account_entry_def Let_def)

lemma fst_entry_of [simp]: "fst (entry_of K so st addr) = K addr"
  using fork_storage_root_Done[of K so "acc_storage (get_account st addr)"]
  by (auto simp: entry_of_def account_entry_def Let_def)

lemma fork_root_fill:
  "fork_compute_state_root K ao so st =
     obind (trie.fill trie_new (map (entry_of K so st) (ao (fork_addresses st)))) (\<lambda>t. Done (root_hash K t))"
  unfolding fork_compute_state_root_def
  by (subst ofold_map_pure[where h = "entry_of K so st"]) (simp_all add: account_entry_Done insert_entry_fill)

lemma fork_root_Done: "\<exists>r. fork_compute_state_root K ao so st = Done r"
  using trie.fill_empty[of "map (entry_of K so st) (ao (fork_addresses st))"]
  by (auto simp: fork_root_fill)

lemma distinct_fork_addresses: "fork_ok st \<Longrightarrow> distinct (fork_addresses st)"
  by (auto simp: fork_addresses_def fork_ok_def accounts_ok_def)

text \<open>
  No two hashed keys of the trie collide.
\<close>

definition collision_free :: "(bytes \<Rightarrow> bytes) \<Rightarrow> state_fork \<Rightarrow> bool" where
  "collision_free K st \<longleftrightarrow> inj_on K (set (fork_addresses st)) \<and>
     (\<forall>addr \<in> set (fork_addresses st).
        inj_on K (u256_to_be_bytes ` fst ` set (acc_storage (get_account st addr))))"

lemma fork_root_order:
  assumes "fork_ok st" "collision_free K st"
    "\<And>xs. mset (ao xs) = mset xs" "\<And>xs. mset (ao' xs) = mset xs"
    "\<And>xs. mset (so xs) = mset xs" "\<And>xs. mset (so' xs) = mset xs"
  shows "fork_compute_state_root K ao so st = fork_compute_state_root K ao' so' st"
proof -
  have e: "entry_of K so st a = entry_of K so' st a" if "a \<in> set (fork_addresses st)" for a
    unfolding entry_of_def account_entry_def Let_def
    using fork_storage_root_order[OF get_account_wf[OF assms(1)], of K a so so'] assms(2,5,6) that
    by (simp add: collision_free_def)
  have set_ao: "set (ao' xs) = set xs" for xs using assms(4)[of xs] by (rule mset_eq_setD)
  have "distinct (map fst (map (entry_of K so st) (ao (fork_addresses st))))"
  proof -
    have "distinct (ao (fork_addresses st))"
      using distinct_fork_addresses[OF assms(1)] assms(3) mset_eq_imp_distinct_iff by blast
    moreover have "set (ao (fork_addresses st)) = set (fork_addresses st)"
      using assms(3) by (rule mset_eq_setD)
    ultimately show ?thesis using assms(2) by (simp add: comp_def distinct_map collision_free_def)
  qed
  moreover have "mset (map (entry_of K so st) (ao (fork_addresses st))) =
      mset (map (entry_of K so' st) (ao' (fork_addresses st)))"
  proof -
    have "map (entry_of K so' st) (ao' (fork_addresses st)) = map (entry_of K so st) (ao' (fork_addresses st))"
      using e set_ao by auto
    then show ?thesis by (metis assms(3,4) mset_map)
  qed
  ultimately show ?thesis unfolding fork_root_fill by (rule fill_root_order)
qed

section \<open>Properties\<close>

text \<open>C9.  Reverting to a snapshot undoes every storage, balance, code, nonce and transient write, every nested snapshot and
  every nested revert made since it was taken: the dirty accounts, the transient storage and the earlier snapshots are exactly
  what they were.  The exception is an account that SELFDESTRUCT removed (the set \<open>D\<close>): it comes back to the dirty accounts,
  but its entry in the base state, of which a snapshot keeps no copy, is lost.  With no such removal the state is exactly the
  one in which the snapshot was taken, and every account that was not removed, or was dirty at the snapshot, reads as
  before.\<close>

theorem snapshot_revert_restores:
  assumes "fork_ok st" "snapshot st = (sid, st1)" "fork_run sid D st1 st2"
  shows "revert_to_snapshot st2 sid = st\<lparr>base_state := filter (\<lambda>x. fst x \<notin> D) (base_state st)\<rparr> \<and>
    (D = {} \<longrightarrow> revert_to_snapshot st2 sid = st) \<and>
    (\<forall>a. a \<notin> D \<or> hm_get (dirty_state st) a \<noteq> None \<longrightarrow> get_account (revert_to_snapshot st2 sid) a = get_account st a) \<and>
    (\<forall>a. a \<in> D \<and> hm_get (dirty_state st) a = None \<longrightarrow> get_account (revert_to_snapshot st2 sid) a = default_account)"
proof -
  have r: "revert_to_snapshot st2 sid = st\<lparr>base_state := filter (\<lambda>x. fst x \<notin> D) (base_state st)\<rparr>"
    by (rule revert_restores[OF assms])
  then show ?thesis by (auto simp: get_account_def hm_get_without split: option.split)
qed

theorem snapshot_revert_restores_witness:
  "revert_to_snapshot (set_balance (snd (snapshot (set_storage (snd (snapshot default_fork)) [] 1 2))) [] 5) 0 = default_fork \<and>
   (let st = default_fork\<lparr>base_state := [([1], default_account\<lparr>acc_balance := 7\<rparr>)]\<rparr>;
        st' = revert_to_snapshot (remove_account (set_balance (snd (snapshot st)) [1] 0) [1]) 0
    in st' = default_fork \<and> get_balance st [1] = 7 \<and> get_balance st' [1] = 0)"
proof -
  have ok: "fork_ok default_fork" "fork_ok (default_fork\<lparr>base_state := [([1], default_account\<lparr>acc_balance := 7\<rparr>)]\<rparr>)"
    and s: "snapshots st = [] \<Longrightarrow> snapshot st = (0, snd (snapshot st))" for st
    by (simp_all add: fork_ok_def default_fork_def accounts_ok_def snapshots_ok_def snapshot_def Let_def)
  have "fork_run 0 {} (snd (snapshot default_fork))
      (set_balance (snd (snapshot (set_storage (snd (snapshot default_fork)) [] 1 2))) [] 5)"
    by (intro run_balance run_snapshot run_storage run_refl)
  note 1 = snapshot_revert_restores[OF ok(1) s this]
  have "fork_run 0 {[1]} (snd (snapshot st)) (remove_account (set_balance (snd (snapshot st)) [1] 0) [1])" for st
    by (intro run_remove run_balance run_refl)
  note 2 = snapshot_revert_restores[OF ok(2) s this]
  show ?thesis
    using 1 2 by (simp add: Let_def default_fork_def get_balance_def get_account_def default_account_def)
qed

text \<open>C12.  The state root does not depend on the iteration orders of the hash maps, as long as the hash function does not
  collide on the keys at hand.\<close>

theorem state_root_order_independent:
  assumes "fork_ok st" "collision_free K st"
    "\<And>xs. mset (ao xs) = mset xs" "\<And>xs. mset (ao' xs) = mset xs"
    "\<And>xs. mset (so xs) = mset xs" "\<And>xs. mset (so' xs) = mset xs"
  shows "fork_compute_state_root K ao so st = fork_compute_state_root K ao' so' st"
  by (rule fork_root_order[OF assms])

theorem state_root_order_independent_witness:
  "fork_compute_state_root (\<lambda>x. x) (\<lambda>x. x) (\<lambda>x. x) (set_balance (set_storage default_fork [1] 1 2) [2] 3) =
   fork_compute_state_root (\<lambda>x. x) rev rev (set_balance (set_storage default_fork [1] 1 2) [2] 3)"
proof (rule state_root_order_independent)
  show "fork_ok (set_balance (set_storage default_fork [1] 1 2) [2] 3)"
    by (intro writers_ok) (simp add: fork_ok_def default_fork_def accounts_ok_def snapshots_ok_def)
qed (simp_all add: collision_free_def)

end
