(* ===== verification/EvmGas.thy ===== *)
theory EvmGas
  imports EvmPrelude
begin

text \<open>
  The gas rules of \<open>src/gas.rs\<close>: the intrinsic gas of a transaction, the EIP-150 cap on the gas
  of a nested call, and the EIP-4844 blob base fee, whose loop may in principle not end and is
  therefore a partial function that is shown to return.
\<close>

section \<open>Intrinsic gas and the call cap\<close>

definition calculate_intrinsic_gas :: "bytes \<Rightarrow> bool \<Rightarrow> u64" where
  "calculate_intrinsic_gas input is_contract_creation =
     (let base = (if is_contract_creation then 53000 else 21000)
      in foldl (\<lambda>gas byte. saturating_add gas (if byte = 0 then 4 else 16)) base input)"

definition calc_eip150_call_gas :: "u64 \<Rightarrow> u256 \<Rightarrow> u64" where
  "calc_eip150_call_gas available_gas requested_gas =
     (let max_call_gas = available_gas - available_gas div 64;
          requested = unwrap_or U64_MAX (try_u64 requested_gas)
      in min requested max_call_gas)"

lemma foldl_saturating:
  assumes "g \<le> U64_MAX"
  shows "foldl (\<lambda>gas b. saturating_add gas (f b)) g bs = min (g + sum_list (map f bs)) U64_MAX"
  using assms
proof (induction bs arbitrary: g)
  case (Cons b bs)
  have "saturating_add g (f b) \<le> U64_MAX" by (rule saturating_add_u64)
  with Cons.IH[of "saturating_add g (f b)"] show ?case
    by (simp add: saturating_add_def min_def)
qed simp

lemma sum_list_gas_per_byte:
  "sum_list (map (\<lambda>b. if b = 0 then 4 else 16) bs) =
   (4::nat) * length (filter (\<lambda>b. b = 0) bs) + 16 * length (filter (\<lambda>b. b \<noteq> 0) bs)"
  by (induction bs) auto

lemma intrinsic_gas_eq:
  "calculate_intrinsic_gas input create =
     min ((if create then 53000 else 21000) + 4 * length (filter (\<lambda>b. b = 0) input)
          + 16 * length (filter (\<lambda>b. b \<noteq> 0) input)) U64_MAX"
  by (simp add: calculate_intrinsic_gas_def foldl_saturating sum_list_gas_per_byte add.assoc)

lemma intrinsic_gas_ge: "21000 \<le> calculate_intrinsic_gas input create"
  by (simp add: intrinsic_gas_eq)

lemma intrinsic_gas_u64: "calculate_intrinsic_gas input create \<le> U64_MAX"
  by (simp add: intrinsic_gas_eq)

lemma call_gas_le_available: "calc_eip150_call_gas g r \<le> g - g div 64"
  by (simp add: calc_eip150_call_gas_def)

lemma call_gas_le: "calc_eip150_call_gas g r \<le> g"
  using call_gas_le_available[of g r] by simp

section \<open>The blob base fee\<close>

definition MIN_BLOB_BASE_FEE :: u256 where
  "MIN_BLOB_BASE_FEE = 1"

definition BLOB_BASE_FEE_UPDATE_FRACTION :: u256 where
  "BLOB_BASE_FEE_UPDATE_FRACTION = 3338477"

text \<open>\<open>U256::checked_mul\<close> and \<open>U256::checked_div\<close>.\<close>

definition u256_checked_mul :: "u256 \<Rightarrow> u256 \<Rightarrow> u256 option" where
  "u256_checked_mul a b = (if unat a * unat b < 2 ^ 256 then Some (a * b) else None)"

definition u256_checked_div :: "u256 \<Rightarrow> u256 \<Rightarrow> u256 option" where
  "u256_checked_div a b = (if b = 0 then None else Some (a div b))"

definition data_fee_next :: "u256 \<Rightarrow> u256 \<Rightarrow> u256 \<Rightarrow> u256" where
  "data_fee_next excess_blob_gas numerator_accum i =
     unwrap_or 0 (Option.bind (u256_checked_mul numerator_accum excess_blob_gas)
       (\<lambda>v. u256_checked_div v (BLOB_BASE_FEE_UPDATE_FRACTION * i)))"

partial_function (option) data_fee_loop :: "u256 \<Rightarrow> u256 \<Rightarrow> u256 \<Rightarrow> u256 \<Rightarrow> u256 option" where
  "data_fee_loop excess_blob_gas numerator_accum output i =
     (if numerator_accum > 0
      then data_fee_loop excess_blob_gas (data_fee_next excess_blob_gas numerator_accum i)
             (output + numerator_accum) (i + 1)
      else Some output)"

definition calc_data_fee :: "u256 \<Rightarrow> u256 option" where
  "calc_data_fee excess_blob_gas =
     map_option (\<lambda>output. output div BLOB_BASE_FEE_UPDATE_FRACTION)
       (data_fee_loop excess_blob_gas (MIN_BLOB_BASE_FEE * BLOB_BASE_FEE_UPDATE_FRACTION) 0 1)"

text \<open>
  The loop returns.  Once \<open>i\<close> has passed \<open>2 * (excess div fraction + 1)\<close>, each round at least
  halves the accumulator; before that \<open>i\<close> itself approaches that bound.  No product
  \<open>fraction * i\<close> wraps on the way, because an excess above \<open>2 ^ 256 div fraction\<close> ends the loop in
  its first round.
\<close>

lemma data_fee_next_overflow:
  "2 ^ 256 \<le> unat num * unat ex \<Longrightarrow> data_fee_next ex num i = 0"
  by (simp add: data_fee_next_def u256_checked_mul_def)

lemma unat_data_fee_next_le:
  assumes "0 < unat i" "unat i < 2 ^ 230"
  shows "unat (data_fee_next ex num i) \<le> unat num * unat ex div (3338477 * unat i)"
proof (cases "unat num * unat ex < 2 ^ 256")
  case True
  have "unat (BLOB_BASE_FEE_UPDATE_FRACTION * i) = 3338477 * unat i"
    using assms(2) by (simp add: BLOB_BASE_FEE_UPDATE_FRACTION_def unat_word_ariths)
  moreover have "unat (num * ex) = unat num * unat ex"
    using True by (simp add: unat_word_ariths)
  moreover have "BLOB_BASE_FEE_UPDATE_FRACTION * i \<noteq> 0"
    using calculation(1) assms(1) by auto
  ultimately show ?thesis
    using True by (simp add: data_fee_next_def u256_checked_mul_def u256_checked_div_def unat_div)
next
  case False
  then show ?thesis by (simp add: data_fee_next_overflow)
qed

lemma twice_div_le: "0 < d \<Longrightarrow> 2 * (n div d) \<le> 2 * n div d" for d n :: nat
  using div_times_less_eq_dividend[of n d] by (simp add: less_eq_div_iff_mult_less_eq)

lemma data_fee_halves:
  assumes "2 * (unat ex div 3338477 + 1) \<le> unat i" "unat i < 2 ^ 230"
  shows "2 * unat (data_fee_next ex num i) \<le> unat num"
proof -
  have "unat ex < 3338477 * (unat ex div 3338477 + 1)"
    by (simp add: dividend_less_div_times mult.commute)
  with assms(1) have le: "2 * unat ex \<le> 3338477 * unat i" by linarith
  have pos: "0 < 3338477 * unat i" using assms(1) by simp
  have "2 * (unat num * unat ex div (3338477 * unat i)) \<le> 2 * (unat num * unat ex) div (3338477 * unat i)"
    by (rule twice_div_le[OF pos])
  also have "\<dots> = unat num * (2 * unat ex) div (3338477 * unat i)"
    by (simp add: mult.left_commute)
  also have "\<dots> \<le> unat num * (3338477 * unat i) div (3338477 * unat i)"
    using le by (intro div_le_mono mult_le_mono2)
  also have "\<dots> = unat num" using pos by simp
  finally have "2 * (unat num * unat ex div (3338477 * unat i)) \<le> unat num" .
  moreover have "unat (data_fee_next ex num i) \<le> unat num * unat ex div (3338477 * unat i)"
    using assms by (intro unat_data_fee_next_le) auto
  ultimately show ?thesis by linarith
qed

lemma unat_Suc_word: "unat (i :: u256) < 2 ^ 230 \<Longrightarrow> unat (i + 1) = unat i + 1"
  by (simp add: unat_word_ariths)

lemma data_fee_loop_tail:
  assumes "2 * (unat ex div 3338477 + 1) \<le> unat i" "unat num < 2 ^ k" "unat i + k < 2 ^ 230"
  shows "\<exists>y. data_fee_loop ex num out i = Some y"
  using assms
proof (induction k arbitrary: num out i)
  case 0
  then have "num = 0" by (simp add: unat_eq_0)
  then show ?case by (simp add: data_fee_loop.simps)
next
  case (Suc k)
  have i: "unat (i + 1) = unat i + 1" using Suc.prems(3) by (intro unat_Suc_word) simp
  have "2 * unat (data_fee_next ex num i) \<le> unat num"
    using Suc.prems by (intro data_fee_halves) auto
  with Suc.prems(2) have "unat (data_fee_next ex num i) < 2 ^ k" by simp
  with Suc.IH[of "i + 1" "data_fee_next ex num i" "out + num"] Suc.prems i
  have "\<exists>y. data_fee_loop ex (data_fee_next ex num i) (out + num) (i + 1) = Some y" by simp
  then show ?case by (simp add: data_fee_loop.simps[of ex num])
qed

lemma data_fee_loop_head:
  assumes "2 * (unat ex div 3338477 + 1) \<le> unat i + d" "unat i + d + 256 < 2 ^ 230"
  shows "\<exists>y. data_fee_loop ex num out i = Some y"
  using assms
proof (induction d arbitrary: num out i)
  case 0
  have "unat num < 2 ^ 256" using unsigned_less[of num] by simp
  with 0 show ?case by (intro data_fee_loop_tail[of ex i num 256]) auto
next
  case (Suc d)
  have "unat (i + 1) = unat i + 1" using Suc.prems(2) by (intro unat_Suc_word) simp
  with Suc.IH[of "i + 1" "data_fee_next ex num i" "out + num"] Suc.prems
  have "\<exists>y. data_fee_loop ex (data_fee_next ex num i) (out + num) (i + 1) = Some y" by simp
  then show ?case by (simp add: data_fee_loop.simps[of ex num])
qed

lemma data_fee_loop_returns:
  "\<exists>y. data_fee_loop ex (MIN_BLOB_BASE_FEE * BLOB_BASE_FEE_UPDATE_FRACTION) 0 1 = Some y"
proof (cases "unat ex < 2 ^ 240")
  case True
  let ?d = "2 * (unat ex div 3338477 + 1)"
  have "unat ex div 3338477 \<le> 2 ^ 240 div 3338477"
    using True by (intro div_le_mono) simp
  then have "1 + ?d + 256 < 2 ^ 230" by simp
  then show ?thesis
    by (intro data_fee_loop_head[of ex 1 ?d]) auto
next
  case False
  have "data_fee_next ex 3338477 1 = 0"
    using False by (intro data_fee_next_overflow) simp
  then show ?thesis
    by (simp add: data_fee_loop.simps MIN_BLOB_BASE_FEE_def BLOB_BASE_FEE_UPDATE_FRACTION_def)
qed

lemma calc_data_fee_zero: "calc_data_fee 0 = Some 1"
  by (simp add: calc_data_fee_def data_fee_loop.simps data_fee_next_def u256_checked_mul_def
      u256_checked_div_def MIN_BLOB_BASE_FEE_def BLOB_BASE_FEE_UPDATE_FRACTION_def)

section \<open>Properties\<close>

text \<open>The intrinsic gas of a transaction is the base price plus 4 for every zero and 16 for every other byte
  of its data, saturating at the largest \<open>u64\<close>.\<close>

lemma intrinsic_gas_formula:
  "calculate_intrinsic_gas input create =
     min ((if create then 53000 else 21000) + 4 * length (filter (\<lambda>b. b = 0) input)
          + 16 * length (filter (\<lambda>b. b \<noteq> 0) input)) U64_MAX"
  by (rule intrinsic_gas_eq)

text \<open>EIP-150: a nested call gets what it asks for, but never more than all but one 64th of what is left; a request
  above \<open>u64::MAX\<close> counts as the maximum.\<close>

lemma call_gas_cap:
  assumes "g \<le> U64_MAX"
  shows "calc_eip150_call_gas g r = min (unat r) (g - g div 64)"
proof (cases "unat r \<le> U64_MAX")
  case True
  then show ?thesis by (simp add: calc_eip150_call_gas_def Let_def try_u64_def)
next
  case False
  with assms have "g - g div 64 \<le> U64_MAX" "g - g div 64 \<le> unat r" by linarith+
  with False show ?thesis by (simp add: calc_eip150_call_gas_def Let_def try_u64_def)
qed

text \<open>The blob fee loop ends for every excess gas, although its bound is a product of 256-bit words: \<open>calc_data_fee\<close>
  always returns.\<close>

lemma data_fee_returns: "\<exists>fee. calc_data_fee ex = Some fee"
  using data_fee_loop_returns[of ex] by (auto simp: calc_data_fee_def)

end
