(* ===== verification/EvmPrecompiles.thy ===== *)
theory EvmPrecompiles
  imports EvmState EvmGas
begin

text \<open>
  The precompiled contracts of \<open>src/precompiles.rs\<close>, the error type \<open>VmError\<close> of \<open>src/vm.rs\<close> they
  share with the interpreter, and the record of the functions that the program takes from other
  crates: the three hash functions, the two signature routines of \<open>k256\<close>, and the order in which a
  \<open>HashMap\<close> of accounts is walked.
\<close>

section \<open>Functions of other crates\<close>

record host =
  keccak256 :: "bytes \<Rightarrow> bytes"
  sha256_digest :: "bytes \<Rightarrow> bytes"
  ripemd160_digest :: "bytes \<Rightarrow> bytes"
  signature_from_slice :: "bytes \<Rightarrow> bytes option"
  recover_from_prehash :: "bytes \<Rightarrow> bytes \<Rightarrow> byte \<Rightarrow> bytes option"
  iter_rank :: "(address, account_state) hashmap \<Rightarrow> address \<Rightarrow> nat"

text \<open>
  What the callers rely on: the digest lengths, which the Rust types fix; that an uncompressed public
  key has 65 bytes.
\<close>

definition host_ok :: "host \<Rightarrow> bool" where
  "host_ok h \<longleftrightarrow>
     (\<forall>bs. length (keccak256 h bs) = 32 \<and> length (sha256_digest h bs) = 32
        \<and> length (ripemd160_digest h bs) = 20) \<and>
     (\<forall>m s i k. recover_from_prehash h m s i = Some k \<longrightarrow> length k = 65)"

text \<open>
  The order in which a \<open>HashMap\<close> of accounts is walked is unspecified: it is given by a rank of the keys
  that may depend on the whole map, so every permutation is the order of some \<open>host\<close>.
\<close>

definition dirty_order :: "host \<Rightarrow> (address, account_state) hashmap \<Rightarrow> (address, account_state) hashmap" where
  "dirty_order h m = sort_key (\<lambda>aa. iter_rank h m (fst aa)) m"

lemma set_dirty_order [simp]: "set (dirty_order h m) = set m"
  by (simp add: dirty_order_def)

section \<open>Precompiles\<close>

datatype vm_error =
    Overflow
  | OutOfBoundsReturnData
  | StaticCallViolation
  | VmOutOfGas
  | InvalidPrecompile

definition is_precompile :: "address \<Rightarrow> bool" where
  "is_precompile addr \<longleftrightarrow> (\<forall>b \<in> set (take 19 addr). b = 0) \<and> 1 \<le> addr ! 19 \<and> addr ! 19 \<le> 4"

definition ok_or :: "'e \<Rightarrow> 'a option \<Rightarrow> 'e + 'a" where
  "ok_or err x = (case x of None \<Rightarrow> Inl err | Some y \<Rightarrow> Inr y)"

definition rbind :: "'e + 'a \<Rightarrow> ('a \<Rightarrow> 'e + 'b) \<Rightarrow> 'e + 'b" where
  "rbind m f = (case m of Inl err \<Rightarrow> Inl err | Inr x \<Rightarrow> f x)"

definition word_count :: "usize \<Rightarrow> vm_error + u64" where
  "word_count len = map_sum (\<lambda>x. x) (\<lambda>n. n div 32) (ok_or Overflow (checked_add len 31))"

text \<open>The gas of the three linear precompiles: \<open>base.checked_add(words.checked_mul(per_word)?)?\<close>.\<close>

definition linear_gas :: "u64 \<Rightarrow> u64 \<Rightarrow> usize \<Rightarrow> vm_error + u64" where
  "linear_gas base per_word len =
     rbind (word_count len) (\<lambda>words.
     rbind (ok_or Overflow (checked_mul words per_word)) (\<lambda>c.
     ok_or Overflow (checked_add base c)))"

definition precompile_ecrecover :: "host \<Rightarrow> bytes \<Rightarrow> vm_error + u64 \<times> bytes" where
  "precompile_ecrecover h input =
     (let padded = take 128 input @ replicate (128 - length input) 0;
          failed = Inr (3000, replicate 32 0)
      in if \<not> (padded ! 31 = 27 \<or> padded ! 31 = 28) then failed
         else case signature_from_slice h (drop 64 padded) of
             None \<Rightarrow> failed
           | Some signature \<Rightarrow>
               (case recover_from_prehash h (take 32 padded) signature (padded ! 31 - 27) of
                  None \<Rightarrow> failed
                | Some encoded \<Rightarrow>
                    Inr (3000, replicate 12 0 @ drop 12 (keccak256 h (drop 1 encoded)))))"

definition precompile_sha256 :: "host \<Rightarrow> bytes \<Rightarrow> vm_error + u64 \<times> bytes" where
  "precompile_sha256 h input =
     rbind (linear_gas 60 12 (length input)) (\<lambda>gas. Inr (gas, sha256_digest h input))"

definition precompile_ripemd160 :: "host \<Rightarrow> bytes \<Rightarrow> vm_error + u64 \<times> bytes" where
  "precompile_ripemd160 h input =
     rbind (linear_gas 600 120 (length input)) (\<lambda>gas. Inr (gas, replicate 12 0 @ ripemd160_digest h input))"

definition precompile_identity :: "bytes \<Rightarrow> vm_error + u64 \<times> bytes" where
  "precompile_identity input = rbind (linear_gas 15 3 (length input)) (\<lambda>gas. Inr (gas, input))"

definition execute_precompile :: "host \<Rightarrow> address \<Rightarrow> bytes \<Rightarrow> u64 \<Rightarrow> vm_error + u64 \<times> bytes" where
  "execute_precompile h addr input gas_limit =
     rbind (if addr ! 19 = 1 then precompile_ecrecover h input
            else if addr ! 19 = 2 then precompile_sha256 h input
            else if addr ! 19 = 3 then precompile_ripemd160 h input
            else if addr ! 19 = 4 then precompile_identity input
            else Inl InvalidPrecompile) (\<lambda>result.
     if fst result > gas_limit then Inl VmOutOfGas else Inr result)"

section \<open>What a precompile returns\<close>

lemma rbind_Inr: "rbind m f = Inr y \<longleftrightarrow> (\<exists>x. m = Inr x \<and> f x = Inr y)"
  by (cases m) (simp_all add: rbind_def)

lemma ok_or_Inr: "ok_or err x = Inr y \<longleftrightarrow> x = Some y"
  by (cases x) (simp_all add: ok_or_def)

lemma rbind_simps [simp]: "rbind (Inr x) f = f x" "rbind (Inl err) f = Inl err"
  by (simp_all add: rbind_def)

lemma ok_or_simps [simp]: "ok_or err (Some x) = Inr x" "ok_or err None = Inl err"
  by (simp_all add: ok_or_def)

lemma linear_gas_eq:
  "len + 31 \<le> U64_MAX \<Longrightarrow> base + (len + 31) div 32 * per_word \<le> U64_MAX \<Longrightarrow>
   linear_gas base per_word len = Inr (base + (len + 31) div 32 * per_word)"
  by (simp add: linear_gas_def word_count_def checked_add_def checked_mul_def)

lemma execute_precompile_gas:
  "execute_precompile h addr input gas_limit = Inr (gas, out) \<Longrightarrow> gas \<le> gas_limit"
  by (auto simp: execute_precompile_def rbind_Inr split: if_splits)

lemma host_lengths:
  assumes "host_ok h"
  shows "length (keccak256 h bs) = 32" "length (sha256_digest h bs) = 32" "length (ripemd160_digest h bs) = 20"
  using assms by (simp_all add: host_ok_def)

lemma ecrecover_32:
  assumes "host_ok h" "precompile_ecrecover h input = Inr (gas, out)"
  shows "length out = 32 \<and> take 12 out = replicate 12 0 \<and> gas = 3000"
  using assms(2) host_lengths[OF assms(1)]
  by (auto simp: precompile_ecrecover_def Let_def split: if_splits option.splits)

lemma linear_lengths:
  assumes "host_ok h"
  shows "precompile_sha256 h input = Inr (gas, out) \<Longrightarrow> length out = 32"
    "precompile_ripemd160 h input = Inr (gas, out) \<Longrightarrow> length out = 32"
    "precompile_identity input = Inr (gas, out) \<Longrightarrow> out = input"
  using host_lengths[OF assms]
  by (auto simp: precompile_sha256_def precompile_ripemd160_def precompile_identity_def rbind_Inr)

lemma precompile_output_length:
  assumes "host_ok h" "execute_precompile h addr input gas_limit = Inr (gas, out)"
  shows "length out = (if addr ! 19 = 4 then length input else 32)"
proof -
  note l = ecrecover_32[OF assms(1)] linear_lengths[OF assms(1)]
  from assms(2) show ?thesis
    unfolding execute_precompile_def rbind_Inr by (auto split: if_splits dest: l)
qed

section \<open>Properties\<close>

text \<open>A precompile that answers charges at most the gas limit and returns 32 bytes, or the input itself for the identity.\<close>

lemma precompile_result:
  assumes "host_ok h" "execute_precompile h addr input gas_limit = Inr (gas, out)"
  shows "gas \<le> gas_limit \<and> length out = (if addr ! 19 = 4 then length input else 32)"
  using execute_precompile_gas[OF assms(2)] precompile_output_length[OF assms] by simp

definition flat_host :: host where
  "flat_host = \<lparr>keccak256 = (\<lambda>_. replicate 32 0), sha256_digest = (\<lambda>_. replicate 32 0),
     ripemd160_digest = (\<lambda>_. replicate 20 0), signature_from_slice = (\<lambda>_. None),
     recover_from_prehash = (\<lambda>_ _ _. None), iter_rank = (\<lambda>_ _. 0)\<rparr>"

lemma precompile_result_example:
  "execute_precompile flat_host (replicate 19 0 @ [2]) [1, 2, 3] 100 = Inr (72, replicate 32 0) \<and> (72::nat) \<le> 100"
proof -
  have "host_ok flat_host" by (simp add: flat_host_def host_ok_def)
  moreover have r: "execute_precompile flat_host (replicate 19 0 @ [2]) [1, 2, 3] 100 = Inr (72, replicate 32 0)"
    by (simp add: execute_precompile_def precompile_sha256_def linear_gas_def word_count_def checked_add_def checked_mul_def
        flat_host_def nth_append)
  ultimately show ?thesis using precompile_result[of flat_host "replicate 19 0 @ [2]" "[1, 2, 3]" 100 72] by blast
qed

end
