(* ===== verification/EvmMachine.thy ===== *)
theory EvmMachine
  imports EvmStack EvmDisasm EvmPrecompiles
begin

text \<open>
  The machine state of the interpreter: the structs of \<open>src/env.rs\<close>, \<open>src/log.rs\<close>,
  \<open>src/tracer.rs\<close>, \<open>src/call_frame.rs\<close> and the struct \<open>Evm\<close> of \<open>src/vm.rs\<close>, its constructor and
  builder, memory expansion and its price, the two synchronisations between the legacy maps and the
  fork, and the two root hashes.

  A handler is a function of type \<open>unit vm\<close>: it threads the machine, may leave early with an
  \<open>ExecutionResult\<close> (\<open>Inl\<close>, a \<open>return\<close> of the source) or run to its end (\<open>Inr\<close>, the final
  \<open>ExecutionResult::Halt\<close>), and may panic.  The private fields \<open>dispatch_table\<close> and \<open>gas_table\<close> hold
  the same tables in every machine and are the functions \<open>dispatch_table\<close> and \<open>gas_table\<close> of
  \<open>EvmExec\<close>.  The tracer closure is represented by the list of frames it has been called with.
\<close>

section \<open>Data\<close>

datatype execution_result =
    Halt
  | Return bytes
  | Revert bytes
  | Error string
  | VmErr vm_error
  | OutOfGas
  | StackUnderflow
  | StackOverflow
  | InvalidOpcode byte

record environment =
  env_chain_id :: u256
  env_origin :: address
  env_gas_price :: u256
  env_coinbase :: address
  env_timestamp :: u256
  env_number :: u256
  env_prevrandao :: u256
  env_gas_limit :: u256
  env_base_fee :: u256
  env_blob_base_fee :: u256
  env_block_hash :: "u64 \<Rightarrow> u256"
  env_block_hashes :: "(u64, u256) hashmap"

definition default_block_hash :: "u64 \<Rightarrow> u256" where
  "default_block_hash n = 0"

definition default_environment :: environment where
  "default_environment =
     \<lparr>env_chain_id = 1, env_origin = zero_address, env_gas_price = 0, env_coinbase = zero_address,
      env_timestamp = 0, env_number = 0, env_prevrandao = 0, env_gas_limit = 30000000,
      env_base_fee = 0, env_blob_base_fee = 0, env_block_hash = default_block_hash,
      env_block_hashes = []\<rparr>"

record log_record =
  log_address :: address
  log_topics :: "u256 list"
  log_data :: bytes

record step_frame =
  sf_pc :: usize
  sf_op :: byte
  sf_mnemonic :: string
  sf_gas_left :: u64
  sf_gas_cost :: u64
  sf_stack :: "u256 list"
  sf_memory :: bytes

record call_context =
  cc_caller :: address
  cc_code_address :: address
  cc_storage_address :: address
  cc_value :: u256
  cc_is_static :: bool

record call_frame =
  cf_gas_limit :: u64
  cf_target :: address
  cf_is_static :: bool
  cf_value :: u256
  cf_input :: bytes

record tx_context =
  cx_caller :: address
  cx_address :: address
  cx_value :: u128
  calldata :: bytes
  blob_versioned_hashes :: "bytes list"

definition default_tx_context :: tx_context where
  "default_tx_context =
     \<lparr>cx_caller = zero_address, cx_address = zero_address, cx_value = 0, calldata = [],
      blob_versioned_hashes = []\<rparr>"

record evm =
  code :: bytes
  pc :: usize
  stack :: stack
  memory :: bytes
  storage :: "(u256, u256) hashmap"
  balances :: "(address, u256) hashmap"
  nonces :: "(address, u64) hashmap"
  contracts :: "(address, bytes) hashmap"
  accessed_addresses :: "address set"
  accessed_slots :: "u256 set"
  txc :: tx_context
  storage_address :: address
  transient_storage_address :: "address option"
  env :: environment
  return_data :: bytes
  logs :: "log_record list"
  is_static :: bool
  valid_jumpdests :: "bool list"
  gas_left :: u64
  tracer :: "step_frame list option"
  state :: state_fork
  created_in_transaction :: "address set"

definition new_with_gas :: "bytes \<Rightarrow> u64 \<Rightarrow> evm" where
  "new_with_gas c gas =
     \<lparr>code = c, pc = 0, stack = stack_new 1024, memory = [], storage = [], balances = [], nonces = [],
      contracts = [], accessed_addresses = {}, accessed_slots = {}, txc = default_tx_context,
      storage_address = zero_address, transient_storage_address = None, env = default_environment,
      return_data = [], logs = [], is_static = False, valid_jumpdests = analyze_jumpdests c,
      gas_left = gas, tracer = None, state = default_fork, created_in_transaction = {}\<rparr>"

definition evm_new :: "bytes \<Rightarrow> evm" where
  "evm_new c = new_with_gas c 10000000"

subsection \<open>The builder\<close>

record evm_builder =
  b_code :: bytes
  b_tx_context :: tx_context
  b_block_context :: environment
  b_gas_limit :: u64

definition builder_new :: evm_builder where
  "builder_new = \<lparr>b_code = [], b_tx_context = default_tx_context,
     b_block_context = default_environment, b_gas_limit = 10000000\<rparr>"

definition with_code :: "evm_builder \<Rightarrow> bytes \<Rightarrow> evm_builder" where
  "with_code b c = b\<lparr>b_code := c\<rparr>"

definition with_gas :: "evm_builder \<Rightarrow> u64 \<Rightarrow> evm_builder" where
  "with_gas b g = b\<lparr>b_gas_limit := g\<rparr>"

definition with_blob_hashes :: "evm_builder \<Rightarrow> bytes list \<Rightarrow> evm_builder" where
  "with_blob_hashes b hs = b\<lparr>b_tx_context := (b_tx_context b)\<lparr>blob_versioned_hashes := hs\<rparr>\<rparr>"

definition with_blob_base_fee :: "evm_builder \<Rightarrow> u256 \<Rightarrow> evm_builder" where
  "with_blob_base_fee b f = b\<lparr>b_block_context := (b_block_context b)\<lparr>env_blob_base_fee := f\<rparr>\<rparr>"

definition build :: "evm_builder \<Rightarrow> evm" where
  "build b = (new_with_gas (b_code b) (b_gas_limit b))\<lparr>txc := b_tx_context b, env := b_block_context b\<rparr>"

section \<open>Computations with early return\<close>

type_synonym 'a vm = "evm \<Rightarrow> ((execution_result + 'a) \<times> evm) outcome"

definition tbind :: "'a vm \<Rightarrow> ('a \<Rightarrow> 'b vm) \<Rightarrow> 'b vm" where
  "tbind m f = (\<lambda>e. obind (m e) (\<lambda>re. case fst re of Inl r \<Rightarrow> Done (Inl r, snd re) | Inr x \<Rightarrow> f x (snd re)))"

definition ret :: "'a \<Rightarrow> 'a vm" where
  "ret x = (\<lambda>e. Done (Inr x, e))"

definition exit_with :: "execution_result \<Rightarrow> 'a vm" where
  "exit_with r = (\<lambda>e. Done (Inl r, e))"

definition reads :: "(evm \<Rightarrow> 'a) \<Rightarrow> 'a vm" where
  "reads f = (\<lambda>e. Done (Inr (f e), e))"

definition modifies :: "(evm \<Rightarrow> evm) \<Rightarrow> unit vm" where
  "modifies f = (\<lambda>e. Done (Inr (), f e))"

definition lift_outcome :: "(evm \<Rightarrow> 'a outcome) \<Rightarrow> 'a vm" where
  "lift_outcome f = (\<lambda>e. obind (f e) (\<lambda>x. Done (Inr x, e)))"

text \<open>\<open>match r { Ok(v) => v, Err(e) => return f(e) }\<close>, and the same for an \<open>Option\<close>.\<close>

definition ok_or_return :: "('e \<Rightarrow> execution_result) \<Rightarrow> 'e + 'a \<Rightarrow> 'a vm" where
  "ok_or_return f r = (case r of Inl err \<Rightarrow> exit_with (f err) | Inr x \<Rightarrow> ret x)"

definition some_or_return :: "execution_result \<Rightarrow> 'a option \<Rightarrow> 'a vm" where
  "some_or_return r x = (case x of None \<Rightarrow> exit_with r | Some y \<Rightarrow> ret y)"

lemma tbind_apply:
  "tbind m f e = (case m e of Done (Inl r, e') \<Rightarrow> Done (Inl r, e') | Done (Inr x, e') \<Rightarrow> f x e'
     | Panic \<Rightarrow> Panic | NoFuel \<Rightarrow> NoFuel)"
  by (cases "m e") (auto simp: tbind_def split: sum.splits prod.splits)

lemma vm_simps [simp]:
  "tbind (ret x) f = f x" "tbind (exit_with r) g = exit_with r"
  "ret x e = Done (Inr x, e)" "exit_with r e = Done (Inl r, e)"
  "tbind (reads r') f' e = f' (r' e) e" "reads r' e = Done (Inr (r' e), e)"
  "tbind (modifies u) f'' e = f'' () (u e)" "modifies u e = Done (Inr (), u e)"
  by (simp_all add: fun_eq_iff tbind_def ret_def exit_with_def reads_def modifies_def)

lemma tbind_Done:
  "tbind m f e = Done (r, e') \<longleftrightarrow>
     (\<exists>x. m e = Done (Inl x, e') \<and> r = Inl x) \<or> (\<exists>x e1. m e = Done (Inr x, e1) \<and> f x e1 = Done (r, e'))"
  by (cases "m e") (auto simp: tbind_def split: sum.splits)

section \<open>Operations shared by the handlers\<close>

text \<open>
  A \<open>match (stack.pop(), stack.pop(), ..)\<close> that fails on any error is a sequence of pops with one
  failure result: a pop that fails leaves the empty stack as it is, so do the remaining ones.
\<close>

definition pop_with :: "(string \<Rightarrow> execution_result) \<Rightarrow> u256 vm" where
  "pop_with f = (\<lambda>e. case stack_pop (stack e) of
       (Inl err, s) \<Rightarrow> Done (Inl (f err), e\<lparr>stack := s\<rparr>)
     | (Inr v, s) \<Rightarrow> Done (Inr v, e\<lparr>stack := s\<rparr>))"

definition pop_or :: "execution_result \<Rightarrow> u256 vm" where
  "pop_or r = pop_with (\<lambda>_. r)"

definition pop2_or :: "execution_result \<Rightarrow> (u256 \<times> u256) vm" where
  "pop2_or r = tbind (pop_or r) (\<lambda>a. tbind (pop_or r) (\<lambda>b. ret (a, b)))"

definition pop3_or :: "execution_result \<Rightarrow> (u256 \<times> u256 \<times> u256) vm" where
  "pop3_or r = tbind (pop_or r) (\<lambda>a. tbind (pop2_or r) (\<lambda>bc. ret (a, bc)))"

definition push_with :: "(string \<Rightarrow> execution_result) \<Rightarrow> u256 \<Rightarrow> unit vm" where
  "push_with f v = (\<lambda>e. case stack_push (stack e) v of
       (Inl err, s) \<Rightarrow> Done (Inl (f err), e\<lparr>stack := s\<rparr>)
     | (Inr u, s) \<Rightarrow> Done (Inr (), e\<lparr>stack := s\<rparr>))"

definition push_or :: "execution_result \<Rightarrow> u256 \<Rightarrow> unit vm" where
  "push_or r v = push_with (\<lambda>_. r) v"

definition charge :: "u64 \<Rightarrow> unit vm" where
  "charge cost = (\<lambda>e. if gas_left e < cost then Done (Inl OutOfGas, e)
                      else Done (Inr (), e\<lparr>gas_left := gas_left e - cost\<rparr>))"

definition deny_static :: "unit vm" where
  "deny_static = (\<lambda>e. if is_static e then Done (Inl (VmErr StaticCallViolation), e) else Done (Inr (), e))"

definition as_usize :: "u256 \<Rightarrow> usize" where
  "as_usize w = unat w mod 2 ^ 64"

definition usize_or_overflow :: "u256 \<Rightarrow> usize vm" where
  "usize_or_overflow w = some_or_return (VmErr Overflow) (try_u64 w)"

definition calc_copy_gas :: "u256 \<Rightarrow> vm_error + u64" where
  "calc_copy_gas size_in_bytes =
     (if unat size_in_bytes + 31 < 2 ^ 256
      then rbind (ok_or Overflow (try_u64 (of_nat ((unat size_in_bytes + 31) div 32)))) (\<lambda>words.
           ok_or Overflow (checked_mul words 3))
      else Inl Overflow)"

text \<open>The address whose storage the frame uses: \<open>if storage_address == [0; 20] { context.address } ..\<close>\<close>

definition self_address :: "evm \<Rightarrow> address" where
  "self_address e = (if storage_address e = zero_address then cx_address (txc e) else storage_address e)"

definition transient_address :: "evm \<Rightarrow> address" where
  "transient_address e = unwrap_or (self_address e) (transient_storage_address e)"

definition account_address :: "u256 \<Rightarrow> address" where
  "account_address w = drop 12 (u256_to_be_bytes w)"

text \<open>Returns whether the slot was warm, and marks it.\<close>

definition mark_slot_warm :: "u256 \<Rightarrow> bool vm" where
  "mark_slot_warm key = (\<lambda>e. Done (Inr (key \<in> accessed_slots e),
     e\<lparr>accessed_slots := insert key (accessed_slots e)\<rparr>))"

text \<open>\<open>if accessed_addresses.insert(a) { 2_600 } else { 100 }\<close>\<close>

definition access_cost :: "address \<Rightarrow> u64 vm" where
  "access_cost a = (\<lambda>e. Done (Inr (if a \<notin> accessed_addresses e then 2600 else 100),
     e\<lparr>accessed_addresses := insert a (accessed_addresses e)\<rparr>))"

section \<open>Memory\<close>

definition read_memory :: "nat \<Rightarrow> nat \<Rightarrow> bytes vm" where
  "read_memory a b = lift_outcome (\<lambda>e. slice (memory e) a b)"

definition write_memory :: "nat \<Rightarrow> bytes \<Rightarrow> unit vm" where
  "write_memory off bs = (\<lambda>e. obind (write_slice (memory e) off bs) (\<lambda>m. Done (Inr (), e\<lparr>memory := m\<rparr>)))"

text \<open>
  \<open>for i in 0..size { memory[dest + i] = src.get(offset.saturating_add(i)).unwrap_or(0) }\<close>; the body
  panics at the first index outside the memory.
\<close>

definition padded_byte :: "bytes \<Rightarrow> nat \<Rightarrow> byte" where
  "padded_byte src i = (if i < length src then src ! i else 0)"

definition copy_padded :: "bytes \<Rightarrow> nat \<Rightarrow> nat \<Rightarrow> nat \<Rightarrow> unit vm" where
  "copy_padded src offset dest sz =
     (if sz = 0 then ret ()
      else write_memory dest (map (\<lambda>i. padded_byte src (saturating_add offset i)) [0..<sz]))"

definition memory_cost :: "u64 \<Rightarrow> u64 outcome" where
  "memory_cost words =
     obind (mul_u64 3 words) (\<lambda>a.
     obind (mul_u64 words words) (\<lambda>b.
     add_u64 a (b div 512)))"

definition touch_memory :: "usize \<Rightarrow> usize \<Rightarrow> unit vm" where
  "touch_memory offset sz = (\<lambda>e.
     if sz = 0 then Done (Inr (), e)
     else case checked_add offset sz of
         None \<Rightarrow> Done (Inl OutOfGas, e)
       | Some end_bytes \<Rightarrow>
     (case checked_add end_bytes 31 of
         None \<Rightarrow> Done (Inl OutOfGas, e)
       | Some rounded_end \<Rightarrow>
           let new_words = rounded_end div 32; current_words = length (memory e) div 32
           in if new_words > current_words
              then obind (memory_cost new_words) (\<lambda>cost_new.
                   obind (memory_cost current_words) (\<lambda>cost_old.
                   obind (sub_u64 cost_new cost_old) (\<lambda>expansion_cost.
                   if gas_left e < expansion_cost then Done (Inl OutOfGas, e)
                   else Done (Inr (), e\<lparr>gas_left := gas_left e - expansion_cost,
                                        memory := resize (memory e) (new_words * 32) 0\<rparr>))))
              else Done (Inr (), e)))"

definition required_end :: "evm \<Rightarrow> (usize \<times> usize) list \<Rightarrow> vm_error + usize" where
  "required_end e ranges =
     foldl (\<lambda>acc r. rbind acc (\<lambda>m. rbind (ok_or Overflow (checked_add (fst r) (snd r))) (\<lambda>end_pos. Inr (max m end_pos))))
       (Inr (length (memory e))) ranges"

definition checked_memory_cost :: "u64 \<Rightarrow> vm_error + u64" where
  "checked_memory_cost words =
     rbind (ok_or Overflow (checked_mul words words)) (\<lambda>sq.
     rbind (ok_or Overflow (checked_mul words 3)) (\<lambda>lin.
     ok_or Overflow (checked_add lin (sq div 512))))"

definition memory_expansion_cost :: "evm \<Rightarrow> (usize \<times> usize) list \<Rightarrow> vm_error + u64" where
  "memory_expansion_cost e ranges =
     rbind (required_end e ranges) (\<lambda>required_end.
     if required_end = 0 then Inr 0
     else rbind (ok_or Overflow (checked_add required_end 31)) (\<lambda>rounded.
          rbind (checked_memory_cost (rounded div 32)) (\<lambda>new_cost.
          rbind (checked_memory_cost (length (memory e) div 32)) (\<lambda>old_cost.
          ok_or Overflow (checked_sub new_cost old_cost)))))"

definition expand_memory_without_charge :: "evm \<Rightarrow> (usize \<times> usize) list \<Rightarrow> vm_error + evm" where
  "expand_memory_without_charge e ranges =
     rbind (required_end e ranges) (\<lambda>required_end.
     rbind (ok_or Overflow (checked_add required_end 31)) (\<lambda>sum31.
     let rounded = sum31 div 32 * 32
     in Inr (if rounded > length (memory e) then e\<lparr>memory := resize (memory e) rounded 0\<rparr> else e)))"

text \<open>\<open>if let Err(error) = evm.expand_memory_without_charge(..) { return VmError(error) }\<close>\<close>

definition expand_or_return :: "(usize \<times> usize) list \<Rightarrow> unit vm" where
  "expand_or_return ranges = (\<lambda>e. case expand_memory_without_charge e ranges of
       Inl err \<Rightarrow> Done (Inl (VmErr err), e)
     | Inr e' \<Rightarrow> Done (Inr (), e'))"

section \<open>Legacy maps and fork\<close>

definition sync_legacy_state_into_fork :: "evm \<Rightarrow> evm" where
  "sync_legacy_state_into_fork e =
     (let a = self_address e;
          st1 = foldl (\<lambda>st sv. set_storage st a (fst sv) (snd sv)) (state e) (storage e);
          st2 = foldl (\<lambda>st ab. set_balance st (fst ab) (snd ab)) st1 (balances e);
          st3 = foldl (\<lambda>st an. set_nonce st (fst an) (snd an)) st2 (nonces e);
          st4 = foldl (\<lambda>st ac. set_code st (fst ac) (snd ac)) st3 (contracts e)
      in e\<lparr>state := st4\<rparr>)"

definition sync_account :: "evm \<Rightarrow> address \<times> account_state \<Rightarrow> evm" where
  "sync_account e aa =
     (let address = fst aa; account = snd aa;
          e1 = (if acc_storage account \<noteq> [] then e\<lparr>storage := acc_storage account\<rparr> else e);
          e2 = e1\<lparr>balances := hm_insert address (acc_balance account) (balances e1),
                  nonces := hm_insert address (acc_nonce account) (nonces e1)\<rparr>
      in if acc_code account \<noteq> [] then e2\<lparr>contracts := hm_insert address (acc_code account) (contracts e2)\<rparr>
         else e2)"

definition sync_fork_into_legacy_state :: "host \<Rightarrow> evm \<Rightarrow> evm" where
  "sync_fork_into_legacy_state h e = foldl sync_account e (dirty_order h (dirty_state (state e)))"

section \<open>Root hashes of the machine\<close>

definition evm_storage_entry :: "(bytes \<Rightarrow> bytes) \<Rightarrow> u256 \<times> u256 \<Rightarrow> bytes \<times> bytes" where
  "evm_storage_entry K sv =
     (let raw = u256_to_be_bytes (snd sv);
          value_bytes = drop (unwrap_or 32 (position (\<lambda>b. b \<noteq> 0) raw)) raw
      in (K (u256_to_be_bytes (fst sv)),
          if length value_bytes = 1 \<and> value_bytes ! 0 < 0x80 then value_bytes
          else (0x80 + of_nat (length value_bytes)) # value_bytes))"

definition compute_storage_root ::
    "(bytes \<Rightarrow> bytes) \<Rightarrow> ((u256, u256) hashmap \<Rightarrow> (u256, u256) hashmap) \<Rightarrow> evm \<Rightarrow> bytes outcome" where
  "compute_storage_root K so e =
     obind (ofold (\<lambda>t sv. insert_entry t (evm_storage_entry K sv)) trie_new (so (storage e)))
       (\<lambda>t. Done (root_hash K t))"

definition evm_addresses :: "evm \<Rightarrow> address list" where
  "evm_addresses e =
     remdups (map fst (contracts e) @ map fst (balances e) @ map fst (nonces e)
              @ (if storage e \<noteq> [] then [self_address e] else []))"

definition evm_account_entry ::
    "(bytes \<Rightarrow> bytes) \<Rightarrow> ((u256, u256) hashmap \<Rightarrow> (u256, u256) hashmap) \<Rightarrow> evm \<Rightarrow> address
     \<Rightarrow> (bytes \<times> bytes) outcome" where
  "evm_account_entry K so e a =
     obind (compute_storage_root K so e) (\<lambda>r.
     Done (K a, account_rlp_encode
       \<lparr>sa_nonce = unwrap_or 0 (hm_get (nonces e) a), sa_balance = unwrap_or 0 (hm_get (balances e) a),
        sa_storage_root = r,
        sa_code_hash = unwrap_or (K []) (map_option K (hm_get (contracts e) a))\<rparr>))"

definition compute_state_root ::
    "(bytes \<Rightarrow> bytes) \<Rightarrow> (address list \<Rightarrow> address list) \<Rightarrow> ((u256, u256) hashmap \<Rightarrow> (u256, u256) hashmap)
     \<Rightarrow> evm \<Rightarrow> bytes outcome" where
  "compute_state_root K ao so e =
     obind (ofold (\<lambda>t a. obind (evm_account_entry K so e a) (insert_entry t)) trie_new (ao (evm_addresses e)))
       (\<lambda>t. Done (root_hash K t))"

end
