(* ===== verification/EvmArith.thy ===== *)
theory EvmArith
  imports EvmMachine "HOL-Library.Signed_Division"
begin

text \<open>
  The arithmetic, comparison, bitwise and shift handlers of \<open>src/vm.rs\<close>.  Every one of them pops its
  operands, computes a word and pushes it; the three shapes are \<open>unop\<close>, \<open>binop\<close> and \<open>triop\<close>, whose
  first operand is the top of the stack.  The word functions are translated with their loops and
  branches, and then related to their mathematical meaning.
\<close>

section \<open>Word functions\<close>

definition bool_word :: "bool \<Rightarrow> u256" where
  "bool_word b = (if b then 1 else 0)"

definition div_word :: "u256 \<Rightarrow> u256 \<Rightarrow> u256" where
  "div_word divisor dividend = (if divisor = 0 then 0 else dividend div divisor)"

definition mod_word :: "u256 \<Rightarrow> u256 \<Rightarrow> u256" where
  "mod_word modulus v = (if modulus = 0 then 0 else v mod modulus)"

text \<open>\<open>if x >= modulus - y { x - (modulus - y) } else { x + y }\<close>: addition of reduced words.\<close>

definition add_reduced :: "u256 \<Rightarrow> u256 \<Rightarrow> u256 \<Rightarrow> u256" where
  "add_reduced modulus x y = (if x \<ge> modulus - y then x - (modulus - y) else x + y)"

definition addmod_word :: "u256 \<Rightarrow> u256 \<Rightarrow> u256 \<Rightarrow> u256" where
  "addmod_word modulus b a =
     (if modulus = 0 then 0 else add_reduced modulus (a mod modulus) (b mod modulus))"

lemma half_less: "w \<noteq> 0 \<Longrightarrow> unat (drop_bit 1 w :: u256) < unat w"
proof -
  assume "w \<noteq> 0"
  then have "0 < unat w" by (simp add: unat_gt_0)
  then show ?thesis unfolding unat_drop_bit_eq unfolding drop_bit_eq_div by simp
qed

function mulmod_loop :: "u256 \<Rightarrow> u256 \<Rightarrow> u256 \<Rightarrow> u256 \<Rightarrow> u256" where
  "mulmod_loop modulus factor multiplier result =
     (if multiplier = 0 then result
      else mulmod_loop modulus (add_reduced modulus factor factor) (drop_bit 1 multiplier)
             (if multiplier AND 1 \<noteq> 0 then add_reduced modulus result factor else result))"
  by pat_completeness auto
termination by (relation "measure (\<lambda>(_, _, m, _). unat m)") (simp_all add: half_less[unfolded One_nat_def])

definition mulmod_word :: "u256 \<Rightarrow> u256 \<Rightarrow> u256 \<Rightarrow> u256" where
  "mulmod_word modulus b a = (if modulus = 0 then 0 else mulmod_loop modulus (a mod modulus) b 0)"

function exp_loop :: "u256 \<Rightarrow> u256 \<Rightarrow> u256 \<Rightarrow> u256" where
  "exp_loop factor exponent result =
     (if exponent = 0 then result
      else exp_loop (factor * factor) (drop_bit 1 exponent)
             (if exponent AND 1 \<noteq> 0 then result * factor else result))"
  by pat_completeness auto
termination by (relation "measure (\<lambda>(_, x, _). unat x)") (simp_all add: half_less[unfolded One_nat_def])

declare mulmod_loop.simps [simp del] exp_loop.simps [simp del]

definition exp_word :: "u256 \<Rightarrow> u256 \<Rightarrow> u256" where
  "exp_word exponent base = exp_loop base exponent 1"

definition sign_bit :: u256 where
  "sign_bit = push_bit 255 1"

definition is_negative :: "u256 \<Rightarrow> bool" where
  "is_negative v \<longleftrightarrow> v AND sign_bit \<noteq> 0"

definition negate :: "u256 \<Rightarrow> u256" where
  "negate v = NOT v + 1"

definition abs_word :: "u256 \<Rightarrow> u256" where
  "abs_word v = (if is_negative v then negate v else v)"

definition sdiv_word :: "u256 \<Rightarrow> u256 \<Rightarrow> u256" where
  "sdiv_word divisor dividend =
     (if divisor = 0 then 0
      else let quotient = abs_word dividend div abs_word divisor
           in if is_negative dividend \<noteq> is_negative divisor then negate quotient else quotient)"

definition smod_word :: "u256 \<Rightarrow> u256 \<Rightarrow> u256" where
  "smod_word modulus v =
     (if modulus = 0 then 0
      else let remainder = abs_word v mod abs_word modulus
           in if is_negative v then negate remainder else remainder)"

definition signextend_word :: "u256 \<Rightarrow> u256 \<Rightarrow> u256" where
  "signextend_word byte v =
     (let index = as_usize byte
      in if index \<ge> 32 then v
         else let bitpos = index * 8 + 7; mask_word = push_bit (bitpos + 1) 1 - 1
              in if drop_bit bitpos v AND 1 \<noteq> 0 then v OR NOT mask_word else v AND mask_word)"

definition shl_word :: "u256 \<Rightarrow> u256 \<Rightarrow> u256" where
  "shl_word shift v = (if shift \<ge> 256 then 0 else push_bit (as_usize shift) v)"

definition shr_word :: "u256 \<Rightarrow> u256 \<Rightarrow> u256" where
  "shr_word shift v = (if shift \<ge> 256 then 0 else drop_bit (as_usize shift) v)"

definition sar_word :: "u256 \<Rightarrow> u256 \<Rightarrow> u256" where
  "sar_word shift v =
     (if shift \<ge> 256 then (if is_negative v then - 1 else 0)
      else if shift = 0 then v
      else let amount = as_usize shift; shifted = drop_bit amount v
           in if is_negative v then shifted OR push_bit (256 - amount) (- 1) else shifted)"

definition byte_word :: "u256 \<Rightarrow> u256 \<Rightarrow> u256" where
  "byte_word index v =
     (if index \<ge> 32 then 0 else drop_bit ((31 - as_usize index) * 8) v AND 0xff)"

section \<open>Handlers\<close>

definition unop :: "string \<Rightarrow> (u256 \<Rightarrow> u256) \<Rightarrow> unit vm" where
  "unop name f =
     tbind (pop_or (Error (''Stack Underflow on '' @ name))) (\<lambda>a.
     push_or (Error (''Stack Overflow on '' @ name)) (f a))"

definition binop :: "string \<Rightarrow> (u256 \<Rightarrow> u256 \<Rightarrow> u256) \<Rightarrow> unit vm" where
  "binop name f =
     tbind (pop2_or (Error (''Stack Underflow on '' @ name))) (\<lambda>(a, b).
     push_or (Error (''Stack Overflow on '' @ name)) (f a b))"

definition triop :: "string \<Rightarrow> (u256 \<Rightarrow> u256 \<Rightarrow> u256 \<Rightarrow> u256) \<Rightarrow> unit vm" where
  "triop name f =
     tbind (pop3_or (Error (''Stack Underflow on '' @ name))) (\<lambda>(a, b, c).
     push_or (Error (''Stack Overflow on '' @ name)) (f a b c))"

definition op_add :: "unit vm" where "op_add = binop ''ADD'' (\<lambda>a b. a + b)"
definition op_mul :: "unit vm" where "op_mul = binop ''MUL'' (\<lambda>a b. a * b)"
definition op_sub :: "unit vm" where "op_sub = binop ''SUB'' (\<lambda>subtrahend minuend. minuend - subtrahend)"
definition op_div :: "unit vm" where "op_div = binop ''DIV'' div_word"
definition op_mod :: "unit vm" where "op_mod = binop ''MOD'' mod_word"
definition op_addmod :: "unit vm" where "op_addmod = triop ''ADDMOD'' addmod_word"
definition op_mulmod :: "unit vm" where "op_mulmod = triop ''MULMOD'' mulmod_word"
definition op_exp :: "unit vm" where "op_exp = binop ''EXP'' exp_word"
definition op_sdiv :: "unit vm" where "op_sdiv = binop ''SDIV'' sdiv_word"
definition op_smod :: "unit vm" where "op_smod = binop ''SMOD'' smod_word"
definition op_signextend :: "unit vm" where "op_signextend = binop ''SIGNEXTEND'' signextend_word"
definition op_lt :: "unit vm" where "op_lt = binop ''LT'' (\<lambda>right left. bool_word (left < right))"
definition op_gt :: "unit vm" where "op_gt = binop ''GT'' (\<lambda>right left. bool_word (left > right))"
definition op_eq :: "unit vm" where "op_eq = binop ''EQ'' (\<lambda>a b. bool_word (a = b))"
definition op_iszero :: "unit vm" where "op_iszero = unop ''ISZERO'' (\<lambda>v. bool_word (v = 0))"
definition op_and :: "unit vm" where "op_and = binop ''AND'' (\<lambda>a b. a AND b)"
definition op_or :: "unit vm" where "op_or = binop ''OR'' (\<lambda>a b. a OR b)"
definition op_xor :: "unit vm" where "op_xor = binop ''XOR'' (\<lambda>a b. a XOR b)"
definition op_not :: "unit vm" where "op_not = unop ''NOT'' (\<lambda>v. NOT v)"
definition op_shl :: "unit vm" where "op_shl = binop ''SHL'' shl_word"
definition op_shr :: "unit vm" where "op_shr = binop ''SHR'' shr_word"
definition op_sar :: "unit vm" where "op_sar = binop ''SAR'' sar_word"
definition op_byte :: "unit vm" where "op_byte = binop ''BYTE'' byte_word"

lemmas arith_op_defs =
  op_add_def op_mul_def op_sub_def op_div_def op_mod_def op_addmod_def op_mulmod_def op_exp_def
  op_sdiv_def op_smod_def op_signextend_def op_lt_def op_gt_def op_eq_def op_iszero_def op_and_def
  op_or_def op_xor_def op_not_def op_shl_def op_shr_def op_sar_def op_byte_def

section \<open>Unsigned modular arithmetic\<close>

lemma unat_add_reduced:
  assumes "unat x < unat m" "unat y < unat m"
  shows "unat (add_reduced m x y) = (unat x + unat y) mod unat m"
proof -
  have my: "unat (m - y) = unat m - unat y" using assms by (simp add: unat_sub word_le_nat_alt)
  show ?thesis
  proof (cases "m - y \<le> x")
    case True
    then have ge: "unat m - unat y \<le> unat x" by (simp add: word_le_nat_alt my)
    have "unat (x - (m - y)) = unat x - (unat m - unat y)"
      using True by (simp add: unat_sub my)
    moreover have "(unat x + unat y) mod unat m = unat x + unat y - unat m"
      using assms ge by (simp add: le_mod_geq)
    ultimately show ?thesis using True ge assms by (simp add: add_reduced_def)
  next
    case False
    then have lt: "unat x + unat y < unat m" using assms by (simp add: word_le_nat_alt my)
    then have "unat (x + y) = unat x + unat y"
      using unat_u256_less[of m] by (simp add: unat_word_ariths)
    with False lt show ?thesis by (simp add: add_reduced_def)
  qed
qed

lemma unat_mod_less: "m \<noteq> 0 \<Longrightarrow> unat (a mod m :: u256) < unat m"
  by (simp add: unat_mod unat_gt_0)

lemma unat_addmod_word: "m \<noteq> 0 \<Longrightarrow> unat (addmod_word m b a) = (unat a + unat b) mod unat m"
  unfolding addmod_word_def using unat_add_reduced[OF unat_mod_less unat_mod_less, of m a b]
  by (simp add: unat_mod mod_simps)

lemma unat_split_bit: "unat (w :: u256) = 2 * unat (drop_bit 1 w) + (if w AND 1 \<noteq> 0 then 1 else 0)"
proof -
  have "w AND 1 = take_bit 1 w" unfolding take_bit_eq_mask by simp
  then have "unat (w AND 1) = unat w mod 2" by (simp add: unat_mod)
  moreover have "w AND 1 \<noteq> 0 \<longleftrightarrow> unat (w AND 1) \<noteq> 0" by (simp add: unsigned_eq_0_iff)
  moreover have "unat (drop_bit 1 w) = unat w div 2"
    unfolding unat_drop_bit_eq unfolding drop_bit_eq_div by simp
  moreover have "(if unat w mod 2 \<noteq> 0 then 1 else 0) = unat w mod 2" by simp
  ultimately show ?thesis by (simp only: mult_div_mod_eq)
qed

lemma mod_add_mult: "(a mod m + b mod m * c) mod m = (a + b * c) mod m" for a b c m :: nat
proof -
  have "(a mod m + b mod m * c) mod m = (a + b mod m * c mod m) mod m"
    by (simp add: mod_add_left_eq mod_add_right_eq)
  also have "\<dots> = (a + b * c) mod m" by (simp add: mod_mult_left_eq mod_add_right_eq)
  finally show ?thesis .
qed

lemma unat_mulmod_loop:
  assumes "unat factor < unat m" "unat res < unat m"
  shows "unat (mulmod_loop m factor mu res) = (unat res + unat factor * unat mu) mod unat m"
  using assms
proof (induction m factor mu res rule: mulmod_loop.induct)
  case (1 m factor mu res)
  let ?r = "if mu AND 1 \<noteq> 0 then add_reduced m res factor else res"
  show ?case
  proof (cases "mu = 0")
    case True
    then show ?thesis using "1.prems" by (simp add: mulmod_loop.simps)
  next
    case False
    have f: "unat (add_reduced m factor factor) = (unat factor + unat factor) mod unat m"
      and r: "unat ?r = (unat res + (if mu AND 1 \<noteq> 0 then 1 else 0) * unat factor) mod unat m"
      using "1.prems" by (simp_all add: unat_add_reduced)
    have "0 < unat m" using "1.prems" by simp
    with f r have "unat (add_reduced m factor factor) < unat m" "unat ?r < unat m" by simp_all
    with "1.IH"[OF False] have
      "unat (mulmod_loop m (add_reduced m factor factor) (drop_bit 1 mu) ?r) =
         (unat ?r + unat (add_reduced m factor factor) * unat (drop_bit 1 mu)) mod unat m" by simp
    also have "\<dots> = (unat res + (if mu AND 1 \<noteq> 0 then 1 else 0) * unat factor +
        (unat factor + unat factor) * unat (drop_bit 1 mu)) mod unat m"
      unfolding f r by (rule mod_add_mult)
    also have "\<dots> = (unat res + unat factor * unat mu) mod unat m"
    proof -
      have "a + c * f + (f + f) * d = a + f * (2 * d + c)" for a c f d :: nat
        by (simp add: algebra_simps)
      then show ?thesis unfolding unat_split_bit[of mu] by presburger
    qed
    finally show ?thesis using False by (simp add: mulmod_loop.simps[of m factor mu])
  qed
qed

lemma unat_mulmod_word: "m \<noteq> 0 \<Longrightarrow> unat (mulmod_word m b a) = (unat a * unat b) mod unat m"
  using unat_mulmod_loop[OF unat_mod_less, of m 0 a b]
  by (simp add: mulmod_word_def unat_gt_0 unat_mod mod_simps)

lemma exp_loop_eq: "exp_loop factor x res = res * factor ^ unat x"
proof (induction factor x res rule: exp_loop.induct)
  case (1 factor x res)
  show ?case
  proof (cases "x = 0")
    case True
    then show ?thesis by (simp add: exp_loop.simps)
  next
    case False
    have "factor ^ unat x = (factor * factor) ^ unat (drop_bit 1 x) * (if x AND 1 \<noteq> 0 then factor else 1)"
      unfolding unat_split_bit[of x] by (simp add: power_add power_mult power2_eq_square)
    with False 1 show ?thesis by (simp add: exp_loop.simps[of factor x])
  qed
qed

lemma exp_word_power: "exp_word x base = base ^ unat x"
  by (simp add: exp_word_def exp_loop_eq)

section \<open>Signed arithmetic\<close>

lemma negate_eq: "negate v = - v"
  unfolding negate_def by (simp add: minus_eq_not_plus_1)

lemma is_negative_bit: "is_negative v \<longleftrightarrow> bit v 255"
  unfolding is_negative_def sign_bit_def push_bit_of_1 and_exp_eq_0_iff_not_bit by simp

lemma is_negative_sint: "is_negative v \<longleftrightarrow> sint v < 0"
  unfolding is_negative_bit using bit_last_iff[of v] by simp

lemma uint_minus_nonzero: "v \<noteq> 0 \<Longrightarrow> uint (- v :: u256) = 2 ^ 256 - uint v"
proof -
  assume "v \<noteq> 0"
  then have "uint v \<noteq> 0" by (simp add: unsigned_eq_0_iff)
  moreover have "uint v mod 2 ^ 256 = uint v" using uint_lt2p[of v] by simp
  ultimately show ?thesis by (simp add: uint_word_ariths zmod_zminus1_eq_if)
qed

lemma uint_abs_word: "uint (abs_word v) = \<bar>sint v\<bar>"
proof (cases "is_negative v")
  case True
  then have neg: "sint v < 0" by (simp add: is_negative_sint)
  then have "v \<noteq> 0" by auto
  have "sint v = uint v - 2 ^ 256"
    using True unfolding is_negative_bit
    by (simp add: sint_uint signed_take_bit_eq_take_bit_minus bit_uint_iff bintr_uint)
  with uint_minus_nonzero[OF \<open>v \<noteq> 0\<close>] True neg show ?thesis by (simp add: abs_word_def negate_eq)
next
  case False
  then have "sint v = uint v"
    unfolding is_negative_bit
    by (simp add: sint_uint signed_take_bit_eq_take_bit_minus bit_uint_iff bintr_uint)
  with False show ?thesis by (simp add: abs_word_def)
qed

lemma sdiv_word_eq: "sdiv_word divisor dividend = word_of_int (sint dividend sdiv sint divisor)"
proof (cases "divisor = 0")
  case True
  then show ?thesis by (simp add: sdiv_word_def)
next
  case False
  have q: "abs_word dividend div abs_word divisor = word_of_int (\<bar>sint dividend\<bar> div \<bar>sint divisor\<bar>)"
    by (simp add: word_div_def uint_abs_word)
  show ?thesis
    using False unfolding sdiv_word_def q Let_def negate_eq
    by (auto simp: signed_divide_int_def sgn_if is_negative_sint)
qed

lemma smod_word_eq:
  "modulus \<noteq> 0 \<Longrightarrow> smod_word modulus v = word_of_int (sint v smod sint modulus)"
proof -
  assume m: "modulus \<noteq> 0"
  have q: "abs_word v mod abs_word modulus = word_of_int (\<bar>sint v\<bar> mod \<bar>sint modulus\<bar>)"
    by (simp add: word_mod_def uint_abs_word)
  have "sint v smod sint modulus = sgn (sint v) * (\<bar>sint v\<bar> mod \<bar>sint modulus\<bar>)"
    by (rule smod_int_alt_def)
  with m show ?thesis
    unfolding smod_word_def q Let_def negate_eq by (auto simp: sgn_if is_negative_sint)
qed

section \<open>Shifts and bytes\<close>

lemma as_usize_small: "w < 256 \<Longrightarrow> as_usize w = unat w \<and> as_usize w < 256"
  by (auto simp: as_usize_def word_less_nat_alt)

lemma shl_word_eq: "shl_word shift v = push_bit (unat shift) v"
proof (cases "shift \<ge> 256")
  case True
  then have "256 \<le> unat shift" by (simp add: word_le_nat_alt)
  then have "push_bit (unat shift) v = 0"
    by (intro bit_word_eqI) (auto simp: bit_push_bit_iff)
  with True show ?thesis by (simp add: shl_word_def)
qed (simp add: shl_word_def as_usize_small)

lemma shr_word_eq: "shr_word shift v = drop_bit (unat shift) v"
proof (cases "shift \<ge> 256")
  case True
  then have "256 \<le> unat shift" by (simp add: word_le_nat_alt)
  then have "drop_bit (unat shift) v = 0"
    by (intro bit_word_eqI) (auto simp: bit_drop_bit_eq dest: bit_imp_le_length)
  with True show ?thesis by (simp add: shr_word_def)
qed (simp add: shr_word_def as_usize_small)

lemma sar_word_eq: "sar_word shift v = signed_drop_bit (unat shift) v"
proof (cases "shift \<ge> 256")
  case True
  then have "256 \<le> unat shift" by (simp add: word_le_nat_alt)
  then show ?thesis using True
    unfolding sar_word_def is_negative_bit
    by (intro bit_word_eqI) (auto simp: bit_signed_drop_bit_iff)
next
  case False
  then have u: "as_usize shift = unat shift" "unat shift < 256" using as_usize_small[of shift] by (auto simp: not_le)
  show ?thesis
  proof (cases "shift = 0")
    case True
    then show ?thesis by (simp add: sar_word_def)
  next
    case nz: False
    let ?a = "unat shift"
    have "bit (sar_word shift v) n \<longleftrightarrow> bit (signed_drop_bit ?a v) n" if n: "n < 256" for n
    proof (cases "256 - ?a \<le> n")
      case True
      then have "\<not> bit v (?a + n)" using bit_imp_le_length[of v "?a + n"] by auto
      moreover have "bit (push_bit (256 - ?a) (- 1 :: u256)) n"
        using True n by (simp only: bit_push_bit_iff bit_minus_1_iff possible_bit_word) simp
      ultimately show ?thesis using False nz u True n
        by (simp add: sar_word_def is_negative_bit Let_def bit_signed_drop_bit_iff bit_or_iff bit_drop_bit_eq)
    next
      case lt: False
      then have "\<not> bit (push_bit (256 - ?a) (- 1 :: u256)) n" by (simp only: bit_push_bit_iff) simp
      then show ?thesis using False nz u lt n
        by (simp add: sar_word_def is_negative_bit Let_def bit_signed_drop_bit_iff bit_or_iff bit_drop_bit_eq)
    qed
    then show ?thesis by (intro bit_word_eqI) simp
  qed
qed

lemma signextend_word_eq:
  assumes "as_usize b < 32"
  shows "signextend_word b v = signed_take_bit (as_usize b * 8 + 7) v"
proof -
  define k where "k = as_usize b * 8 + 7"
  have k: "k < 256" using assms by (simp add: k_def)
  have m: "push_bit (k + 1) 1 - 1 = (mask (k + 1) :: u256)"
    unfolding push_bit_of_1 mask_eq_exp_minus_1 ..
  have one: "w AND 1 \<noteq> 0 \<longleftrightarrow> bit w 0" for w :: u256
    using and_exp_eq_0_iff_not_bit[of w 0] by simp
  have "signextend_word b v = (if bit v k then v OR NOT (mask (k + 1)) else v AND mask (k + 1))"
    using assms unfolding signextend_word_def Let_def k_def[symmetric] m one by (simp add: bit_drop_bit_eq)
  also have "\<dots> = signed_take_bit k v"
  proof (rule bit_word_eqI)
    fix n assume "n < LENGTH(256)"
    then show "bit (if bit v k then v OR NOT (mask (k + 1)) else v AND mask (k + 1)) n \<longleftrightarrow>
        bit (signed_take_bit k v) n"
      by (cases "n \<le> k")
        (auto simp: bit_signed_take_bit_iff bit_or_iff bit_not_iff bit_and_iff bit_mask_iff min_def
          le_less_Suc_eq)
  qed
  finally show ?thesis by (simp add: k_def)
qed

lemma nth_nat_to_be_bytes:
  "i < n \<Longrightarrow> nat_to_be_bytes n x ! i = of_nat (x div 256 ^ (n - 1 - i) mod 256)"
proof (induction n arbitrary: x)
  case (Suc n)
  show ?case
  proof (cases "i = n")
    case True
    then show ?thesis by (simp add: nth_append)
  next
    case False
    with Suc.prems have "i < n" by simp
    with Suc.IH[OF this, of "x div 256"] show ?thesis
      by (simp add: nth_append div_mult2_eq[symmetric] power_Suc[symmetric] Suc_diff_Suc del: power_Suc)
  qed
qed simp

lemma byte_word_eq:
  assumes "index < 32"
  shows "unat (byte_word index v) = unat (u256_to_be_bytes v ! unat index)"
proof -
  have i: "unat index < 32" "as_usize index = unat index"
    using assms as_usize_small[of index] by (simp_all add: word_less_nat_alt)
  have "(0xff :: u256) = mask 8" by (simp add: mask_eq_exp_minus_1)
  then have "byte_word index v = take_bit 8 (drop_bit ((31 - unat index) * 8) v)"
    using i(2) assms[unfolded not_le[symmetric]] by (simp only: byte_word_def take_bit_eq_mask if_False)
  then have "unat (byte_word index v) = take_bit 8 (drop_bit ((31 - unat index) * 8) (unat v))"
    by (simp only: unsigned_take_bit_eq unat_drop_bit_eq)
  then have "unat (byte_word index v) = unat v div 2 ^ ((31 - unat index) * 8) mod 256"
    by (simp add: take_bit_eq_mod drop_bit_eq_div)
  also have "(2 :: nat) ^ ((31 - unat index) * 8) = 256 ^ (31 - unat index)"
    by (simp add: power_mult mult.commute)
  finally show ?thesis using i nth_nat_to_be_bytes[of "unat index" 32 "unat v"]
    by (simp add: u256_to_be_bytes_def unat_of_nat)
qed

end
