(* ===== verification/EvmLaws.thy ===== *)
theory EvmLaws
  imports EvmArith
begin

text \<open>
  Reasoning about handlers.  A relation \<open>R\<close> between the machine before and after is kept by a
  computation when every run that returns relates its two ends.  The locales state which primitive
  updates \<open>R\<close> must admit, and carry it from the primitives to the shared operations and, in the
  theories of the handlers, to every handler: \<open>vm_order\<close> (reflexive, transitive, the static flag is
  fixed), \<open>vm_laws\<close> (stack, gas, memory, warm sets), \<open>vm_write_laws\<close> (the writes that
  a static frame refuses); the theories of the handlers add laws for the program counter, for jumps and
  for nested execution.  The parameter \<open>b\<close> of \<open>vm_keeps\<close> is the static flag of the frame.
\<close>

section \<open>Relations kept by a computation\<close>

definition vm_keeps :: "bool \<Rightarrow> (evm \<Rightarrow> evm \<Rightarrow> bool) \<Rightarrow> 'a vm \<Rightarrow> bool" where
  "vm_keeps b R m \<longleftrightarrow> (\<forall>e r e'. is_static e = b \<longrightarrow> m e = Done (r, e') \<longrightarrow> R e e')"

lemma vm_keepsD: "vm_keeps b R m \<Longrightarrow> is_static e = b \<Longrightarrow> m e = Done (r, e') \<Longrightarrow> R e e'"
  by (auto simp: vm_keeps_def)

locale vm_order =
  fixes R :: "evm \<Rightarrow> evm \<Rightarrow> bool"
  assumes refl: "R e e"
    and trans: "R e e1 \<Longrightarrow> R e1 e2 \<Longrightarrow> R e e2"
    and static: "R e e' \<Longrightarrow> is_static e' = is_static e"
begin

lemma keeps_ret: "vm_keeps b R (ret x)"
  by (simp add: vm_keeps_def refl)

lemma keeps_exit: "vm_keeps b R (exit_with r)"
  by (simp add: vm_keeps_def refl)

lemma keeps_reads: "vm_keeps b R (reads f)"
  by (simp add: vm_keeps_def refl)

lemma keeps_lift: "vm_keeps b R (lift_outcome f)"
  by (auto simp: vm_keeps_def lift_outcome_def obind_Done_iff refl)

lemma keeps_bind:
  assumes "vm_keeps b R m" "\<And>x. vm_keeps b R (f x)"
  shows "vm_keeps b R (tbind m f)"
  unfolding vm_keeps_def
proof (intro allI impI)
  fix e r e'
  assume e: "is_static e = b" "tbind m f e = Done (r, e')"
  then consider x where "m e = Done (Inl x, e')" | x e1 where "m e = Done (Inr x, e1)" "f x e1 = Done (r, e')"
    by (auto simp: tbind_Done)
  then show "R e e'"
  proof cases
    case 1
    with assms(1) e(1) show ?thesis by (rule_tac vm_keepsD)
  next
    case (2 x e1)
    then have "R e e1" using vm_keepsD[OF assms(1) e(1)] by simp
    moreover have "R e1 e'" using vm_keepsD[OF assms(2)] 2 static[OF \<open>R e e1\<close>] e(1) by simp
    ultimately show ?thesis by (rule trans)
  qed
qed

lemma keeps_if: "vm_keeps b R m \<Longrightarrow> vm_keeps b R n \<Longrightarrow> vm_keeps b R (if c then m else n)"
  by simp

lemma keeps_option: "vm_keeps b R m \<Longrightarrow> (\<And>x. vm_keeps b R (f x)) \<Longrightarrow> vm_keeps b R (case_option m f y)"
  by (cases y) simp_all

lemma keeps_prod: "(\<And>x y. vm_keeps b R (f x y)) \<Longrightarrow> vm_keeps b R (case_prod f p)"
  by (cases p) simp

lemma keeps_sum:
  "(\<And>x. vm_keeps b R (f x)) \<Longrightarrow> (\<And>x. vm_keeps b R (g x)) \<Longrightarrow> vm_keeps b R (case_sum f g s)"
  by (cases s) simp_all

lemma keeps_some_or: "vm_keeps b R (some_or_return r x)"
  by (cases x) (simp_all add: some_or_return_def keeps_ret keeps_exit)

lemma keeps_ok_or: "vm_keeps b R (ok_or_return f x)"
  by (cases x) (simp_all add: ok_or_return_def keeps_ret keeps_exit)

lemma keeps_usize_or_overflow: "vm_keeps b R (usize_or_overflow w)"
  by (simp add: usize_or_overflow_def keeps_some_or)

lemma keeps_deny_static: "vm_keeps b R deny_static"
  by (auto simp: vm_keeps_def deny_static_def refl split: if_splits)

text \<open>What follows a refused static frame runs in a non-static one.\<close>

lemma keeps_after_deny:
  assumes "vm_keeps False R m" shows "vm_keeps b R (tbind deny_static (\<lambda>_. m))"
  using assms by (auto simp: vm_keeps_def tbind_Done deny_static_def refl split: if_splits)

lemmas keeps_control =
  keeps_ret keeps_exit keeps_reads keeps_lift keeps_if keeps_option keeps_prod keeps_sum keeps_some_or
  keeps_ok_or keeps_usize_or_overflow

end

section \<open>The primitive updates\<close>

locale vm_laws = vm_order +
  assumes pop_law: "R e (e\<lparr>stack := snd (stack_pop (stack e))\<rparr>)"
    and push_law: "R e (e\<lparr>stack := snd (stack_push (stack e) v)\<rparr>)"
    and swap_law: "R e (e\<lparr>stack := snd (stack_swap (stack e) n)\<rparr>)"
    and gas_law: "g \<le> gas_left e \<Longrightarrow> R e (e\<lparr>gas_left := gas_left e - g\<rparr>)"
    and grow_law: "length (memory e) \<le> n \<Longrightarrow> 32 dvd n \<Longrightarrow> R e (e\<lparr>memory := resize (memory e) n 0\<rparr>)"
    and memory_law: "length m = length (memory e) \<Longrightarrow> R e (e\<lparr>memory := m\<rparr>)"
    and slots_law: "R e (e\<lparr>accessed_slots := S\<rparr>)"
    and addresses_law: "R e (e\<lparr>accessed_addresses := A\<rparr>)"
begin

lemma keeps_pop_with: "vm_keeps b R (pop_with f)"
  unfolding vm_keeps_def pop_with_def
proof (intro allI impI)
  fix e e' :: evm and r
  assume "(case stack_pop (stack e) of (Inl err, s) \<Rightarrow> Done (Inl (f err), e\<lparr>stack := s\<rparr>)
     | (Inr v, s) \<Rightarrow> Done (Inr v, e\<lparr>stack := s\<rparr>)) = Done (r, e')"
  then have "e' = e\<lparr>stack := snd (stack_pop (stack e))\<rparr>" by (auto split: prod.splits sum.splits)
  then show "R e e'" by (simp add: pop_law)
qed

lemma keeps_push_with: "vm_keeps b R (push_with f v)"
  unfolding vm_keeps_def push_with_def
proof (intro allI impI)
  fix e e' :: evm and r
  assume "(case stack_push (stack e) v of (Inl err, s) \<Rightarrow> Done (Inl (f err), e\<lparr>stack := s\<rparr>)
     | (Inr u, s) \<Rightarrow> Done (Inr (), e\<lparr>stack := s\<rparr>)) = Done (r, e')"
  then have "e' = e\<lparr>stack := snd (stack_push (stack e) v)\<rparr>" by (auto split: prod.splits sum.splits)
  then show "R e e'" by (simp add: push_law)
qed

lemma keeps_pop_or: "vm_keeps b R (pop_or r)"
  by (simp add: pop_or_def keeps_pop_with)

lemma keeps_pop2_or: "vm_keeps b R (pop2_or r)"
  unfolding pop2_or_def by (intro keeps_bind keeps_pop_or keeps_control)

lemma keeps_pop3_or: "vm_keeps b R (pop3_or r)"
  unfolding pop3_or_def by (intro keeps_bind keeps_pop_or keeps_pop2_or keeps_control)

lemma keeps_push_or: "vm_keeps b R (push_or r v)"
  by (simp add: push_or_def keeps_push_with)

lemma keeps_charge: "vm_keeps b R (charge c)"
  by (auto simp: vm_keeps_def charge_def refl gas_law split: if_splits)

lemma keeps_mark_slot_warm: "vm_keeps b R (mark_slot_warm k)"
  by (auto simp: vm_keeps_def mark_slot_warm_def slots_law)

lemma keeps_access_cost: "vm_keeps b R (access_cost a)"
  by (auto simp: vm_keeps_def access_cost_def addresses_law)

lemma keeps_read_memory: "vm_keeps b R (read_memory x y)"
  by (simp add: read_memory_def keeps_lift)

lemma keeps_write_memory: "vm_keeps b R (write_memory off bs)"
  by (auto simp: vm_keeps_def write_memory_def obind_Done_iff memory_law length_write_slice)

lemma keeps_copy_padded: "vm_keeps b R (copy_padded src off dest n)"
  by (simp add: copy_padded_def keeps_ret keeps_write_memory)

lemma keeps_touch_memory: "vm_keeps b R (touch_memory off n)"
  unfolding vm_keeps_def
proof (intro allI impI)
  fix e r e' assume t: "touch_memory off n e = Done (r, e')"
  show "R e e'"
  proof (cases "e' = e")
    case False
    with t obtain w c where w: "w > length (memory e) div 32" "c \<le> gas_left e"
      "e' = e\<lparr>gas_left := gas_left e - c, memory := resize (memory e) (w * 32) 0\<rparr>"
      by (auto simp: touch_memory_def Let_def obind_Done_iff not_less split: if_splits option.splits)
    let ?e1 = "e\<lparr>gas_left := gas_left e - c\<rparr>"
    have "length (memory e) \<le> w * 32" using w(1) by (simp add: div_less_iff_less_mult)
    then have "R ?e1 (?e1\<lparr>memory := resize (memory ?e1) (w * 32) 0\<rparr>)" by (intro grow_law) simp_all
    moreover have "R e ?e1" using w(2) by (rule gas_law)
    ultimately show ?thesis using trans unfolding w(3) by simp
  qed (simp add: refl)
qed

lemma keeps_expand_or_return: "vm_keeps b R (expand_or_return rs)"
  unfolding vm_keeps_def
proof (intro allI impI)
  fix e r e' assume x: "expand_or_return rs e = Done (r, e')"
  show "R e e'"
  proof (cases "e' = e")
    case False
    with x obtain e1 where "expand_memory_without_charge e rs = Inr e1" "e1 = e'"
      by (auto simp: expand_or_return_def split: sum.splits)
    then obtain n where "n div 32 * 32 > length (memory e)" "e' = e\<lparr>memory := resize (memory e) (n div 32 * 32) 0\<rparr>"
      using False by (auto simp: expand_memory_without_charge_def Let_def rbind_Inr split: if_splits)
    then show ?thesis by (simp add: grow_law)
  qed (simp add: refl)
qed

lemmas keeps_prims =
  keeps_pop_with keeps_push_with keeps_pop_or keeps_pop2_or keeps_pop3_or keeps_push_or keeps_charge
  keeps_mark_slot_warm keeps_access_cost keeps_read_memory keeps_write_memory keeps_copy_padded
  keeps_touch_memory keeps_expand_or_return

lemma keeps_unop: "vm_keeps b R (unop name f)"
  unfolding unop_def by (intro keeps_bind keeps_prims)

lemma keeps_binop: "vm_keeps b R (binop name f)"
  unfolding binop_def by (intro keeps_bind keeps_prims keeps_control)

lemma keeps_triop: "vm_keeps b R (triop name f)"
  unfolding triop_def by (intro keeps_bind keeps_prims keeps_control)

lemmas keeps_arith = keeps_unop keeps_binop keeps_triop

end

locale vm_write_laws = vm_laws +
  assumes log_law: "\<not> is_static e \<Longrightarrow> R e (e\<lparr>logs := logs e @ [l]\<rparr>)"
    and storage_law: "\<not> is_static e \<Longrightarrow> R e (e\<lparr>state := set_storage (state e) a k v\<rparr>)"
    and tstore_law: "\<not> is_static e \<Longrightarrow> R e (e\<lparr>state := tstore (state e) a k v\<rparr>)"

end
