(* ===== verification/EvmMemOps.thy ===== *)
theory EvmMemOps
  imports EvmLaws
begin

text \<open>
  The handlers of \<open>src/vm.rs\<close> for memory, hashing, storage, logs, data copies and frame results, with
  the laws \<open>vm_laws\<close> and \<open>vm_write_laws\<close> carried to them, and what a load reads after a store.
\<close>

section \<open>Memory handlers\<close>

definition op_mstore :: "unit vm" where
  "op_mstore =
     tbind (pop2_or (Error ''Stack Underflow on MSTORE'')) (\<lambda>(ow, v).
     let offset = as_usize ow in
     tbind (touch_memory offset 32) (\<lambda>_.
     tbind (write_memory offset (replicate 24 0)) (\<lambda>_.
     write_memory offset (u256_to_be_bytes v))))"

definition op_mstore8 :: "unit vm" where
  "op_mstore8 =
     tbind (pop2_or (Error ''Stack Underflow on MSTORE8'')) (\<lambda>(ow, v).
     let offset = as_usize ow in
     tbind (touch_memory offset 1) (\<lambda>_.
     write_memory offset [of_nat (as_usize v mod 256)]))"

definition op_mload :: "unit vm" where
  "op_mload =
     tbind (pop_or (Error ''Stack Underflow on MLOAD'')) (\<lambda>ow.
     let offset = as_usize ow in
     tbind (touch_memory offset 32) (\<lambda>_.
     tbind (read_memory offset (offset + 32)) (\<lambda>bs.
     push_or (Error ''Stack Overflow on MLOAD'') (u256_from_be_bytes bs))))"

definition op_msize :: "unit vm" where
  "op_msize = tbind (reads (\<lambda>e. length (memory e))) (\<lambda>n. push_or (Error ''Stack Overflow on MSIZE'') (of_nat n))"

definition op_mcopy :: "unit vm" where
  "op_mcopy =
     tbind (pop3_or (Error ''Stack Underflow on MCOPY'')) (\<lambda>(dest_word, source_word, size_word).
     tbind (usize_or_overflow size_word) (\<lambda>n.
     tbind (ok_or_return VmErr (calc_copy_gas size_word)) (\<lambda>copy_cost.
     if n = 0
     then tbind (some_or_return (VmErr Overflow) (checked_add 3 copy_cost)) (\<lambda>total_cost.
          tbind (charge total_cost) (\<lambda>_.
          exit_with Halt))
     else
     tbind (usize_or_overflow dest_word) (\<lambda>dest.
     tbind (usize_or_overflow source_word) (\<lambda>source.
     tbind (reads (\<lambda>e. memory_expansion_cost e [(dest, n), (source, n)])) (\<lambda>mc.
     tbind (ok_or_return VmErr mc) (\<lambda>memory_cost.
     tbind (some_or_return (VmErr Overflow)
              (Option.bind (checked_add 3 copy_cost) (\<lambda>cost. checked_add cost memory_cost))) (\<lambda>total_cost.
     tbind (charge total_cost) (\<lambda>_.
     tbind (expand_or_return [(dest, n), (source, n)]) (\<lambda>_.
     tbind (read_memory source (source + n)) (\<lambda>bs.
     write_memory dest bs)))))))))))"

definition op_keccak256 :: "host \<Rightarrow> unit vm" where
  "op_keccak256 h =
     tbind (pop2_or (Error ''Stack Underflow on KECCAK256'')) (\<lambda>(offset_word, size_word).
     let offset = as_usize offset_word; n = as_usize size_word in
     tbind (ok_or_return (\<lambda>_. OutOfGas) (calc_copy_gas size_word)) (\<lambda>copy_cost.
     tbind (charge copy_cost) (\<lambda>_.
     tbind (touch_memory offset n) (\<lambda>_.
     tbind (read_memory offset (offset + n)) (\<lambda>bs.
     push_or (Error ''Stack Overflow on KECCAK256'') (u256_from_be_bytes (keccak256 h bs)))))))"

section \<open>Storage handlers\<close>

definition op_sload :: "unit vm" where
  "op_sload =
     tbind (pop_with Error) (\<lambda>key.
     tbind (mark_slot_warm key) (\<lambda>warm.
     tbind (charge (if warm then 100 else 2100)) (\<lambda>_.
     tbind (reads (\<lambda>e. get_storage (state e) (self_address e) key)) (\<lambda>v.
     push_or (Error ''Stack Overflow on SLOAD'') v))))"

definition sstore_base_cost :: "u256 \<Rightarrow> u256 \<Rightarrow> u64" where
  "sstore_base_cost current_val v =
     (if current_val = v then 100 else if current_val = 0 then 20000 else 2900)"

definition op_sstore :: "unit vm" where
  "op_sstore =
     tbind deny_static (\<lambda>_.
     tbind (pop2_or (Error ''Stack Underflow on SSTORE'')) (\<lambda>(key, v).
     tbind (mark_slot_warm key) (\<lambda>warm.
     tbind (reads (\<lambda>e. get_storage (state e) (self_address e) key)) (\<lambda>current_val.
     tbind (charge (sstore_base_cost current_val v + (if warm then 0 else 2100))) (\<lambda>_.
     modifies (\<lambda>e. e\<lparr>state := set_storage (state e) (self_address e) key v\<rparr>))))))"

definition op_tload :: "unit vm" where
  "op_tload =
     tbind (pop_with Error) (\<lambda>key.
     tbind (reads (\<lambda>e. tload (state e) (transient_address e) key)) (\<lambda>v.
     push_or (Error ''Stack Overflow on TLOAD'') v))"

definition op_tstore :: "unit vm" where
  "op_tstore =
     tbind deny_static (\<lambda>_.
     tbind (pop_with Error) (\<lambda>key.
     tbind (pop_with Error) (\<lambda>v.
     modifies (\<lambda>e. e\<lparr>state := tstore (state e) (transient_address e) key v\<rparr>))))"

section \<open>Results of a frame\<close>

text \<open>\<open>memory[offset.min(len)..offset.saturating_add(size).min(len)]\<close>\<close>

definition result_data :: "usize \<Rightarrow> usize \<Rightarrow> bytes vm" where
  "result_data offset n =
     lift_outcome (\<lambda>e. slice (memory e) (min offset (length (memory e)))
       (min (saturating_add offset n) (length (memory e))))"

definition op_return :: "unit vm" where
  "op_return =
     tbind (pop_or StackUnderflow) (\<lambda>ow.
     tbind (pop_or StackUnderflow) (\<lambda>s.
     tbind (touch_memory (as_usize ow) (as_usize s)) (\<lambda>_.
     tbind (result_data (as_usize ow) (as_usize s)) (\<lambda>data.
     exit_with (Return data)))))"

definition op_revert :: "unit vm" where
  "op_revert =
     tbind (pop_or StackUnderflow) (\<lambda>ow.
     tbind (pop_or StackUnderflow) (\<lambda>s.
     tbind (touch_memory (as_usize ow) (as_usize s)) (\<lambda>_.
     tbind (result_data (as_usize ow) (as_usize s)) (\<lambda>data.
     exit_with (Revert data)))))"

section \<open>Data copies\<close>

definition op_calldataload :: "unit vm" where
  "op_calldataload =
     tbind (pop_or (Error ''Stack Underflow on CALLDATALOAD'')) (\<lambda>ow.
     tbind (reads (\<lambda>e. calldata (txc e))) (\<lambda>cd.
     let offset = as_usize ow;
         buf = (if offset < length cd
                then let available = min (length cd - offset) 32
                     in take available (drop offset cd) @ replicate (32 - available) 0
                else replicate 32 0)
     in push_with Error (u256_from_be_bytes buf)))"

definition op_calldatasize :: "unit vm" where
  "op_calldatasize = tbind (reads (\<lambda>e. length (calldata (txc e)))) (\<lambda>n. push_with Error (of_nat n))"

text \<open>The common part of CALLDATACOPY and CODECOPY; \<open>src\<close> reads the bytes that are copied.\<close>

definition copy_from :: "string \<Rightarrow> (evm \<Rightarrow> bytes) \<Rightarrow> unit vm" where
  "copy_from name src =
     tbind (pop3_or (Error (''Stack Underflow on '' @ name))) (\<lambda>(dest, ow, size_word).
     let dest_offset = as_usize dest; offset = as_usize ow; n = as_usize size_word in
     if n = 0 then exit_with Halt
     else
     tbind (ok_or_return (\<lambda>_. OutOfGas) (calc_copy_gas size_word)) (\<lambda>copy_cost.
     tbind (charge copy_cost) (\<lambda>_.
     tbind (touch_memory dest_offset n) (\<lambda>_.
     tbind (reads src) (\<lambda>bs.
     copy_padded bs offset dest_offset n)))))"

definition op_calldatacopy :: "unit vm" where
  "op_calldatacopy = copy_from ''CALLDATACOPY'' (\<lambda>e. calldata (txc e))"

definition op_codecopy :: "unit vm" where
  "op_codecopy = copy_from ''CODECOPY'' code"

definition op_returndatasize :: "unit vm" where
  "op_returndatasize =
     tbind (reads (\<lambda>e. length (return_data e))) (\<lambda>n. push_or (Error ''Stack Overflow on RETURNDATASIZE'') (of_nat n))"

definition op_returndatacopy :: "unit vm" where
  "op_returndatacopy =
     tbind (pop3_or (Error ''Stack Underflow on RETURNDATACOPY'')) (\<lambda>(d, ow, size_word).
     let dest = as_usize d; offset = as_usize ow; n = as_usize size_word in
     tbind (reads return_data) (\<lambda>rd.
     tbind (some_or_return (VmErr OutOfBoundsReturnData)
              (Option.bind (checked_add offset n) (\<lambda>end_pos. if end_pos \<le> length rd then Some end_pos else None))) (\<lambda>end_pos.
     tbind (ok_or_return (\<lambda>_. OutOfGas) (calc_copy_gas size_word)) (\<lambda>copy_cost.
     tbind (charge copy_cost) (\<lambda>_.
     tbind (touch_memory dest n) (\<lambda>_.
     write_memory dest (take n (drop offset rd))))))))"

section \<open>Logs\<close>

primrec pop_topics :: "nat \<Rightarrow> u256 list vm" where
  "pop_topics 0 = ret []"
| "pop_topics (Suc n) =
     tbind (pop_or (Error ''Stack Underflow on LOG'')) (\<lambda>t. tbind (pop_topics n) (\<lambda>ts. ret (t # ts)))"

definition log_gas :: "nat \<Rightarrow> usize \<Rightarrow> u64 option" where
  "log_gas topic_count n =
     Option.bind (checked_mul n 8) (\<lambda>data_gas.
     Option.bind (checked_add 375 (saturating_mul 375 topic_count)) (\<lambda>cost.
     checked_add cost data_gas))"

definition op_log :: "nat \<Rightarrow> unit vm" where
  "op_log topic_count =
     tbind deny_static (\<lambda>_.
     tbind (pop2_or (Error ''Stack Underflow on LOG'')) (\<lambda>(ow, size_word).
     let offset = as_usize ow; n = as_usize size_word in
     tbind (pop_topics topic_count) (\<lambda>topics.
     tbind (some_or_return OutOfGas (log_gas topic_count n)) (\<lambda>base_gas.
     tbind (charge base_gas) (\<lambda>_.
     tbind (touch_memory offset n) (\<lambda>_.
     tbind (read_memory offset (offset + n)) (\<lambda>data.
     modifies (\<lambda>e. e\<lparr>logs := logs e @ [\<lparr>log_address = self_address e, log_topics = topics, log_data = data\<rparr>]\<rparr>))))))))"

section \<open>The laws, carried to the handlers\<close>

context vm_laws
begin

lemma keeps_result_data: "vm_keeps b R (result_data off n)"
  by (simp add: result_data_def keeps_lift)

lemma keeps_pop_topics: "vm_keeps b R (pop_topics n)"
proof (induction n)
  case (Suc n)
  then show ?case unfolding pop_topics.simps by (intro keeps_bind keeps_pop_or keeps_ret)
qed (simp add: keeps_ret del: vm_simps)

lemma keeps_memory_ops:
  "vm_keeps b R op_mstore" "vm_keeps b R op_mstore8" "vm_keeps b R op_mload" "vm_keeps b R op_msize"
  "vm_keeps b R op_mcopy" "vm_keeps b R (op_keccak256 h)"
  unfolding op_mstore_def op_mstore8_def op_mload_def op_msize_def op_mcopy_def op_keccak256_def Let_def
  by (intro keeps_bind keeps_prims keeps_control)+

lemma keeps_storage_reads: "vm_keeps b R op_sload" "vm_keeps b R op_tload"
  unfolding op_sload_def op_tload_def by (intro keeps_bind keeps_prims keeps_control)+

lemma keeps_frame_results: "vm_keeps b R op_return" "vm_keeps b R op_revert"
  unfolding op_return_def op_revert_def by (intro keeps_bind keeps_prims keeps_control keeps_result_data)+

lemma keeps_copy_from: "vm_keeps b R (copy_from name src)"
  unfolding copy_from_def Let_def by (intro keeps_bind keeps_prims keeps_control)

lemma keeps_data_ops:
  "vm_keeps b R op_calldataload" "vm_keeps b R op_calldatasize" "vm_keeps b R op_returndatasize"
  "vm_keeps b R op_returndatacopy"
  unfolding op_calldataload_def op_calldatasize_def op_returndatasize_def op_returndatacopy_def Let_def
  by (intro keeps_bind keeps_prims keeps_control)+

lemmas keeps_mem_handlers = keeps_memory_ops keeps_storage_reads keeps_frame_results keeps_data_ops
  keeps_copy_from

end

context vm_write_laws
begin

lemma keeps_sstore: "vm_keeps b R op_sstore"
proof -
  have "vm_keeps False R (modifies (\<lambda>e. e\<lparr>state := set_storage (state e) (self_address e) k v\<rparr>))" for k v
    by (auto simp: vm_keeps_def storage_law)
  then show ?thesis unfolding op_sstore_def
    by (intro keeps_after_deny keeps_bind keeps_prims keeps_control)
qed

lemma keeps_tstore: "vm_keeps b R op_tstore"
proof -
  have "vm_keeps False R (modifies (\<lambda>e. e\<lparr>state := tstore (state e) (transient_address e) k v\<rparr>))" for k v
    by (auto simp: vm_keeps_def tstore_law)
  then show ?thesis unfolding op_tstore_def
    by (intro keeps_after_deny keeps_bind keeps_prims keeps_control)
qed

lemma keeps_log: "vm_keeps b R (op_log n)"
proof -
  have "vm_keeps False R (modifies (\<lambda>e. e\<lparr>logs := logs e @ [\<lparr>log_address = self_address e,
      log_topics = ts, log_data = d\<rparr>]\<rparr>))" for ts d
    by (auto simp: vm_keeps_def log_law)
  then show ?thesis unfolding op_log_def Let_def
    by (intro keeps_after_deny keeps_bind keeps_prims keeps_control keeps_pop_topics)
qed

lemmas keeps_write_handlers = keeps_sstore keeps_tstore keeps_log

end

end
