(* ===== verification/EvmEnvOps.thy ===== *)
theory EvmEnvOps
  imports EvmMemOps EvmOpcodes
begin

text \<open>
  The remaining local handlers of \<open>src/vm.rs\<close>: constants, DUP and SWAP, jumps, and the words of the
  transaction, the block and other accounts.
\<close>

section \<open>Constants, DUP, SWAP\<close>

definition op_invalid :: "unit vm" where
  "op_invalid = exit_with (Error ''Invalid Opcode'')"

definition op_invalid_opcode :: "unit vm" where
  "op_invalid_opcode = tbind (modifies (\<lambda>e. e\<lparr>gas_left := 0\<rparr>)) (\<lambda>_. exit_with (InvalidOpcode OP_INVALID))"

definition op_stop :: "unit vm" where
  "op_stop = ret ()"

definition op_jumpdest :: "unit vm" where
  "op_jumpdest = ret ()"

text \<open>The bytes of \<open>execute_push_n\<close>: the available immediate bytes, left-aligned in the last \<open>n\<close>.\<close>

definition push_n_bytes :: "bytes \<Rightarrow> usize \<Rightarrow> nat \<Rightarrow> bytes" where
  "push_n_bytes c p n =
     (if p < length c
      then let available = min (length c - p) n
           in replicate (32 - n) 0 @ take available (drop p c) @ replicate (n - available) 0
      else replicate 32 0)"

definition execute_push_n :: "nat \<Rightarrow> unit vm" where
  "execute_push_n n =
     tbind (reads (\<lambda>e. push_n_bytes (code e) (pc e) n)) (\<lambda>bs.
     tbind (modifies (\<lambda>e. e\<lparr>pc := saturating_add (pc e) n\<rparr>)) (\<lambda>_.
     push_or (Error ''Stack Overflow on PUSH'') (u256_from_be_bytes bs)))"

definition op_push1 :: "unit vm" where
  "op_push1 =
     tbind (reads (\<lambda>e. if pc e \<ge> length (code e) then None else Some (code e ! pc e))) (\<lambda>b.
     tbind (some_or_return (Error ''Unexpected EOF on PUSH1'') b) (\<lambda>v.
     tbind (modifies (\<lambda>e. e\<lparr>pc := pc e + 1\<rparr>)) (\<lambda>_.
     push_or (Error ''Stack Overflow on PUSH1'') (of_nat (unat v)))))"

definition op_push2 :: "unit vm" where
  "op_push2 =
     tbind (reads (\<lambda>e. if pc e + 1 \<ge> length (code e) then None
                       else Some (nat_from_be_bytes [code e ! pc e, code e ! (pc e + 1)]))) (\<lambda>b.
     tbind (some_or_return (Error ''Unexpected EOF on PUSH2'') b) (\<lambda>v.
     tbind (modifies (\<lambda>e. e\<lparr>pc := pc e + 2\<rparr>)) (\<lambda>_.
     push_or (Error ''Stack Overflow on PUSH2'') (of_nat v))))"

definition depth_digits :: "nat \<Rightarrow> string" where
  "depth_digits n =
     [''0'', ''1'', ''2'', ''3'', ''4'', ''5'', ''6'', ''7'', ''8'', ''9'', ''10'', ''11'', ''12'',
      ''13'', ''14'', ''15'', ''16''] ! n"

definition op_dup :: "nat \<Rightarrow> unit vm" where
  "op_dup n =
     tbind (reads (\<lambda>e. stack_peek (stack e) n)) (\<lambda>p.
     tbind (ok_or_return Error p) (\<lambda>v.
     push_or (Error (''Stack Overflow on DUP'' @ depth_digits n)) v))"

definition op_swap :: "nat \<Rightarrow> unit vm" where
  "op_swap n = (\<lambda>e. case stack_swap (stack e) n of
       (Inl err, s) \<Rightarrow> Done (Inl (Error err), e\<lparr>stack := s\<rparr>)
     | (Inr u, s) \<Rightarrow> Done (Inr (), e\<lparr>stack := s\<rparr>))"

section \<open>Jumps\<close>

text \<open>\<open>evm.valid_jumpdests.get(dest).copied().unwrap_or(false)\<close>\<close>

definition is_jumpdest :: "evm \<Rightarrow> usize \<Rightarrow> bool" where
  "is_jumpdest e dest \<longleftrightarrow> dest < length (valid_jumpdests e) \<and> valid_jumpdests e ! dest"

definition jump_to :: "execution_result \<Rightarrow> usize \<Rightarrow> unit vm" where
  "jump_to r dest = (\<lambda>e. if \<not> is_jumpdest e dest then Done (Inl r, e) else Done (Inr (), e\<lparr>pc := dest\<rparr>))"

definition op_jump :: "unit vm" where
  "op_jump =
     tbind (pop_or (Error ''Stack Underflow on JUMP'')) (\<lambda>d.
     jump_to (Error ''Invalid JUMP destination'') (as_usize d))"

definition op_jumpi :: "unit vm" where
  "op_jumpi =
     tbind (pop2_or (Error ''Stack Underflow on JUMPI'')) (\<lambda>(d, cond).
     if cond \<noteq> 0 then jump_to (Error ''Invalid JUMPI destination'') (as_usize d) else ret ())"

section \<open>Transaction and block\<close>

definition push_address :: "address \<Rightarrow> unit vm" where
  "push_address a = push_or (Error ''Stack Overflow on context opcode'') (u256_from_be_bytes (replicate 12 0 @ a))"

definition push_read :: "string \<Rightarrow> (evm \<Rightarrow> u256) \<Rightarrow> unit vm" where
  "push_read name f = tbind (reads f) (push_or (Error (''Stack Overflow on '' @ name)))"

definition op_address :: "unit vm" where "op_address = tbind (reads self_address) push_address"
definition op_caller :: "unit vm" where "op_caller = tbind (reads (\<lambda>e. cx_caller (txc e))) push_address"
definition op_origin :: "unit vm" where "op_origin = tbind (reads (\<lambda>e. env_origin (env e))) push_address"
definition op_coinbase :: "unit vm" where "op_coinbase = tbind (reads (\<lambda>e. env_coinbase (env e))) push_address"

definition op_callvalue :: "unit vm" where
  "op_callvalue = tbind (reads (\<lambda>e. cx_value (txc e) mod 2 ^ 64)) (\<lambda>v. push_with Error (of_nat v))"

definition op_codesize :: "unit vm" where
  "op_codesize = push_read ''CODESIZE'' (\<lambda>e. of_nat (length (code e)))"
definition op_gasprice :: "unit vm" where "op_gasprice = push_read ''GASPRICE'' (\<lambda>e. env_gas_price (env e))"
definition op_timestamp :: "unit vm" where "op_timestamp = push_read ''TIMESTAMP'' (\<lambda>e. env_timestamp (env e))"
definition op_number :: "unit vm" where "op_number = push_read ''NUMBER'' (\<lambda>e. env_number (env e))"
definition op_prevrandao :: "unit vm" where "op_prevrandao = push_read ''PREVRANDAO'' (\<lambda>e. env_prevrandao (env e))"
definition op_gaslimit :: "unit vm" where "op_gaslimit = push_read ''GASLIMIT'' (\<lambda>e. env_gas_limit (env e))"
definition op_chainid :: "unit vm" where "op_chainid = push_read ''CHAINID'' (\<lambda>e. env_chain_id (env e))"
definition op_basefee :: "unit vm" where "op_basefee = push_read ''BASEFEE'' (\<lambda>e. env_base_fee (env e))"
definition op_blobbasefee :: "unit vm" where "op_blobbasefee = push_read ''BLOBBASEFEE'' (\<lambda>e. env_blob_base_fee (env e))"
definition op_gas :: "unit vm" where "op_gas = push_read ''GAS'' (\<lambda>e. of_nat (gas_left e))"

definition op_selfbalance :: "unit vm" where
  "op_selfbalance = push_read ''SELFBALANCE'' (\<lambda>e. get_balance (state e) (self_address e))"

definition push_u256 :: "u256 \<Rightarrow> unit vm" where
  "push_u256 v = push_or (Error ''Stack Overflow on block context opcode'') v"

definition blockhash_word :: "environment \<Rightarrow> u64 \<Rightarrow> u256 \<Rightarrow> u256" where
  "blockhash_word en current requested =
     (case try_u64 requested of
        None \<Rightarrow> 0
      | Some n \<Rightarrow> if n < current \<and> current - n \<le> 256
                  then unwrap_or (env_block_hash en n) (hm_get (env_block_hashes en) n)
                  else 0)"

definition op_blockhash :: "unit vm" where
  "op_blockhash =
     tbind (pop_with Error) (\<lambda>requested.
     tbind (reads env) (\<lambda>en.
     case try_u64 (env_number en) of
       None \<Rightarrow> push_u256 0
     | Some current \<Rightarrow> push_u256 (blockhash_word en current requested)))"

definition op_blobhash :: "unit vm" where
  "op_blobhash =
     tbind (pop_with Error) (\<lambda>index.
     tbind (reads (\<lambda>e. blob_versioned_hashes (txc e))) (\<lambda>hs.
     push_or (Error ''Stack Overflow on BLOBHASH'')
       (case try_u64 index of
          None \<Rightarrow> 0
        | Some i \<Rightarrow> if i < length hs then u256_from_be_bytes (hs ! i) else 0)))"

section \<open>Other accounts\<close>

definition charge_account_access :: "address \<Rightarrow> unit vm" where
  "charge_account_access a = tbind (access_cost a) charge"

definition account_code :: "evm \<Rightarrow> address \<Rightarrow> bytes" where
  "account_code e a = get_code (state e) a"

definition op_balance :: "unit vm" where
  "op_balance =
     tbind (pop_with Error) (\<lambda>w.
     tbind (charge_account_access (account_address w)) (\<lambda>_.
     push_read ''BALANCE'' (\<lambda>e. get_balance (state e) (account_address w))))"

definition op_extcodesize :: "unit vm" where
  "op_extcodesize =
     tbind (pop_with Error) (\<lambda>w.
     tbind (charge_account_access (account_address w)) (\<lambda>_.
     push_read ''EXTCODESIZE'' (\<lambda>e. of_nat (length (account_code e (account_address w))))))"

definition op_extcodehash :: "host \<Rightarrow> unit vm" where
  "op_extcodehash h =
     tbind (pop_with Error) (\<lambda>w.
     tbind (charge_account_access (account_address w)) (\<lambda>_.
     push_read ''EXTCODEHASH'' (\<lambda>e. let c = account_code e (account_address w)
       in u256_from_be_bytes (if c = [] then replicate 32 0 else keccak256 h c))))"

definition op_extcodecopy :: "unit vm" where
  "op_extcodecopy =
     tbind (pop_with Error) (\<lambda>w.
     tbind (pop3_or (Error ''Stack Underflow on EXTCODECOPY'')) (\<lambda>(dest_word, offset_word, size_word).
     tbind (usize_or_overflow dest_word) (\<lambda>dest.
     tbind (usize_or_overflow offset_word) (\<lambda>offset.
     tbind (usize_or_overflow size_word) (\<lambda>n.
     tbind (ok_or_return (\<lambda>_. OutOfGas) (calc_copy_gas size_word)) (\<lambda>copy_cost.
     tbind (access_cost (account_address w)) (\<lambda>access.
     tbind (reads (\<lambda>e. memory_expansion_cost e [(dest, n)])) (\<lambda>mc.
     tbind (ok_or_return VmErr mc) (\<lambda>memory_cost.
     tbind (some_or_return (VmErr Overflow)
              (Option.bind (checked_add access copy_cost) (\<lambda>cost. checked_add cost memory_cost))) (\<lambda>total_cost.
     tbind (charge total_cost) (\<lambda>_.
     tbind (expand_or_return [(dest, n)]) (\<lambda>_.
     tbind (reads (\<lambda>e. account_code e (account_address w))) (\<lambda>c.
     copy_padded c offset dest n)))))))))))))"

section \<open>The laws, carried to the handlers\<close>

context vm_laws
begin

lemma keeps_swap: "vm_keeps b R (op_swap n)"
  unfolding vm_keeps_def
proof (intro allI impI)
  fix e e' :: evm and r assume "op_swap n e = Done (r, e')"
  then have "e' = e\<lparr>stack := snd (stack_swap (stack e) n)\<rparr>"
    by (auto simp: op_swap_def split: prod.splits sum.splits)
  then show "R e e'" by (simp add: swap_law)
qed

lemma keeps_dup: "vm_keeps b R (op_dup n)"
  unfolding op_dup_def by (intro keeps_bind keeps_prims keeps_control)

lemma keeps_invalid_opcode: "vm_keeps b R op_invalid_opcode"
  using gas_law[OF order_refl]
  by (auto simp: vm_keeps_def op_invalid_opcode_def)

lemma keeps_trivial: "vm_keeps b R op_invalid" "vm_keeps b R op_stop" "vm_keeps b R op_jumpdest"
  unfolding op_invalid_def op_stop_def op_jumpdest_def by (intro keeps_control)+

lemma keeps_push_address: "vm_keeps b R (push_address a)"
  by (simp add: push_address_def keeps_push_or)

lemma keeps_push_u256: "vm_keeps b R (push_u256 v)"
  by (simp add: push_u256_def keeps_push_or)

lemma keeps_push_read: "vm_keeps b R (push_read name f)"
  unfolding push_read_def by (intro keeps_bind keeps_prims keeps_control)

lemma keeps_charge_account_access: "vm_keeps b R (charge_account_access a)"
  unfolding charge_account_access_def by (intro keeps_bind keeps_prims)

lemmas keeps_pushes = keeps_push_address keeps_push_u256 keeps_push_read keeps_charge_account_access

lemma keeps_context_ops:
  "vm_keeps b R op_address" "vm_keeps b R op_caller" "vm_keeps b R op_origin" "vm_keeps b R op_coinbase"
  "vm_keeps b R op_callvalue" "vm_keeps b R op_blockhash" "vm_keeps b R op_blobhash"
  unfolding op_address_def op_caller_def op_origin_def op_coinbase_def op_callvalue_def op_blockhash_def
    op_blobhash_def
  by (intro keeps_bind keeps_prims keeps_pushes keeps_control)+

lemma keeps_account_ops:
  "vm_keeps b R op_balance" "vm_keeps b R op_extcodesize" "vm_keeps b R (op_extcodehash h)"
  "vm_keeps b R op_extcodecopy"
  unfolding op_balance_def op_extcodesize_def op_extcodehash_def op_extcodecopy_def
  by (intro keeps_bind keeps_prims keeps_pushes keeps_control)+

lemmas keeps_env_handlers =
  keeps_trivial keeps_swap keeps_dup keeps_invalid_opcode
  keeps_context_ops keeps_account_ops keeps_push_read

end

text \<open>A relation that also admits moving the program counter over immediate bytes.\<close>

locale vm_pc_laws = vm_write_laws +
  assumes advance_law: "pc e + n \<le> length (code e) \<Longrightarrow> R e (e\<lparr>pc := pc e + n\<rparr>)"
    and saturate_law: "R e (e\<lparr>pc := saturating_add (pc e) n\<rparr>)"
begin

lemma keeps_push1: "vm_keeps b R op_push1"
  unfolding vm_keeps_def
proof (intro allI impI)
  fix e e' :: evm and r assume "op_push1 e = Done (r, e')"
  then consider "e' = e" | v where "pc e + 1 \<le> length (code e)"
    "push_or (Error ''Stack Overflow on PUSH1'') v (e\<lparr>pc := pc e + 1\<rparr>) = Done (r, e')"
    by (auto simp: op_push1_def some_or_return_def split: if_splits)
  then show "R e e'"
  proof cases
    case 2
    from vm_keepsD[OF keeps_push_or _ 2(2)] have "R (e\<lparr>pc := pc e + 1\<rparr>) e'" by blast
    with advance_law[OF 2(1)] show ?thesis by (rule trans)
  qed (simp add: refl)
qed

lemma keeps_push2: "vm_keeps b R op_push2"
  unfolding vm_keeps_def
proof (intro allI impI)
  fix e e' :: evm and r assume "op_push2 e = Done (r, e')"
  then consider "e' = e" | v where "pc e + 2 \<le> length (code e)"
    "push_or (Error ''Stack Overflow on PUSH2'') v (e\<lparr>pc := pc e + 2\<rparr>) = Done (r, e')"
    by (auto simp: op_push2_def some_or_return_def split: if_splits)
  then show "R e e'"
  proof cases
    case 2
    from vm_keepsD[OF keeps_push_or _ 2(2)] have "R (e\<lparr>pc := pc e + 2\<rparr>) e'" by blast
    with advance_law[OF 2(1)] show ?thesis by (rule trans)
  qed (simp add: refl)
qed

lemma keeps_push_n: "vm_keeps b R (execute_push_n n)"
proof -
  have "vm_keeps b R (modifies (\<lambda>e. e\<lparr>pc := saturating_add (pc e) n\<rparr>))"
    by (auto simp: vm_keeps_def saturate_law)
  then show ?thesis unfolding execute_push_n_def by (intro keeps_bind keeps_prims keeps_control)
qed

lemmas keeps_push_handlers = keeps_push1 keeps_push2 keeps_push_n

end

text \<open>A relation that also admits a jump to a valid destination.\<close>

locale vm_jump_laws = vm_pc_laws +
  assumes jump_law: "is_jumpdest e d \<Longrightarrow> R e (e\<lparr>pc := d\<rparr>)"
begin

lemma keeps_jump_to: "vm_keeps b R (jump_to r d)"
  by (auto simp: vm_keeps_def jump_to_def jump_law refl split: if_splits)

lemma keeps_jumps: "vm_keeps b R op_jump" "vm_keeps b R op_jumpi"
  unfolding op_jump_def op_jumpi_def by (intro keeps_bind keeps_prims keeps_jump_to keeps_control)+

end

end
