(* ===== verification/EvmCalls.thy ===== *)
theory EvmCalls
  imports EvmEnvOps
begin

text \<open>
  Nested execution in \<open>src/vm.rs\<close>: SELFDESTRUCT, CREATE and CREATE2 with \<open>execute_deploy\<close>, and the
  three calls with \<open>execute_call\<close>.  The run of a child machine is a parameter \<open>rc\<close>; the interpreter
  loop of \<open>EvmExec\<close> instantiates it with itself.  Each operation that hands gas to a child and takes
  back what is left is one definition, so that a law about gas can be stated for it as a whole.
\<close>

type_synonym runner = "evm \<Rightarrow> (execution_result \<times> evm) outcome"

section \<open>SELFDESTRUCT\<close>

definition selfdestruct_account :: "address \<Rightarrow> evm \<Rightarrow> evm" where
  "selfdestruct_account beneficiary e =
     (let account = self_address e;
          bal = get_balance (state e) account;
          e1 = (if account \<noteq> beneficiary
                then e\<lparr>state := set_balance
                         (set_balance (state e) beneficiary (get_balance (state e) beneficiary + bal)) account 0\<rparr>
                else e)
      in if account \<in> created_in_transaction e1
         then e1\<lparr>state := remove_account (state e1) account,
                 contracts := hm_remove account (contracts e1),
                 balances := hm_remove account (balances e1),
                 nonces := hm_remove account (nonces e1),
                 storage := (if storage_address e1 = account then [] else storage e1)\<rparr>
         else e1)"

definition op_selfdestruct :: "unit vm" where
  "op_selfdestruct =
     tbind deny_static (\<lambda>_.
     tbind (pop_with Error) (\<lambda>w.
     tbind (access_cost (account_address w)) (\<lambda>access.
     tbind (charge (5000 + access)) (\<lambda>_.
     modifies (selfdestruct_account (account_address w))))))"

section \<open>Contract creation\<close>

definition value_u128 :: "u256 \<Rightarrow> u128" where
  "value_u128 v = unwrap_or U128_MAX (try_u128 v)"

definition deploy_child :: "evm \<Rightarrow> address \<Rightarrow> u256 \<Rightarrow> bytes \<Rightarrow> u64 \<Rightarrow> evm" where
  "deploy_child e new_addr v init_code gas =
     (new_with_gas init_code gas)
       \<lparr>env := env e,
        txc := default_tx_context\<lparr>cx_caller := cx_address (txc e), cx_address := new_addr, cx_value := value_u128 v\<rparr>,
        storage_address := new_addr, transient_storage_address := Some new_addr,
        state := state e, storage := storage e, balances := balances e, nonces := nonces e,
        contracts := contracts e, created_in_transaction := created_in_transaction e, is_static := False\<rparr>"

text \<open>The transfer that precedes the child, and its undoing on failure.\<close>

definition deploy_transfer :: "evm \<Rightarrow> address \<Rightarrow> address \<Rightarrow> u256 \<Rightarrow> u256 \<times> u256 \<times> usize \<times> evm" where
  "deploy_transfer e sender new_addr v =
     (let sender_balance = unwrap_or 0 (hm_get (balances e) sender);
          ss = snapshot (state e);
          b1 = hm_insert sender (sender_balance - v) (balances e);
          target_balance = unwrap_or 0 (hm_get b1 new_addr);
          b2 = hm_insert new_addr (target_balance + v) b1;
          st = set_balance (set_balance (snd ss) sender (sender_balance - v)) new_addr (target_balance + v)
      in (sender_balance, target_balance, fst ss, e\<lparr>balances := b2, state := st\<rparr>))"

definition deploy_undo :: "address \<Rightarrow> u256 \<Rightarrow> address \<Rightarrow> u256 \<Rightarrow> usize \<Rightarrow> evm \<Rightarrow> evm" where
  "deploy_undo sender sender_balance new_addr target_balance sid e =
     e\<lparr>balances := hm_insert new_addr target_balance (hm_insert sender sender_balance (balances e)),
       state := revert_to_snapshot (state e) sid\<rparr>"

definition deploy_commit :: "evm \<Rightarrow> evm \<Rightarrow> address \<Rightarrow> bytes \<Rightarrow> u64 \<Rightarrow> evm" where
  "deploy_commit e child new_addr runtime_code deposit =
     e\<lparr>gas_left := gas_left e - deposit,
       contracts := hm_insert new_addr runtime_code (contracts e),
       created_in_transaction := insert new_addr (created_in_transaction e),
       state := set_code (state child) new_addr runtime_code,
       storage := storage child, balances := balances child, nonces := nonces child\<rparr>"

definition deploy_finish ::
    "(evm \<Rightarrow> evm) \<Rightarrow> address \<Rightarrow> execution_result \<Rightarrow> evm \<Rightarrow> evm \<Rightarrow> (vm_error + u256) \<times> evm" where
  "deploy_finish undo new_addr result child e =
     (let e1 = e\<lparr>gas_left := saturating_add (gas_left e) (gas_left child),
                 created_in_transaction := created_in_transaction e \<union> created_in_transaction child\<rparr>;
          deposit_code = (\<lambda>e2 runtime_code.
            if length runtime_code > 24576 then (Inr 0, undo e2)
            else case checked_mul (length runtime_code) 200 of
                None \<Rightarrow> (Inl Overflow, undo e2)
              | Some deposit \<Rightarrow>
                  if gas_left e2 < deposit then (Inr 0, undo e2)
                  else (Inr (u256_from_be_bytes (replicate 12 0 @ new_addr)),
                        deploy_commit e2 child new_addr runtime_code deposit))
      in case result of
           Return c \<Rightarrow> deposit_code (e1\<lparr>return_data := c\<rparr>) c
         | Halt \<Rightarrow> deposit_code e1 []
         | Revert d \<Rightarrow> (Inr 0, undo (e1\<lparr>return_data := d\<rparr>))
         | _ \<Rightarrow> (Inr 0, undo (e1\<lparr>return_data := []\<rparr>)))"

definition execute_deploy ::
    "runner \<Rightarrow> address \<Rightarrow> u256 \<Rightarrow> bytes \<Rightarrow> u64 \<Rightarrow> evm \<Rightarrow> ((vm_error + u256) \<times> evm) outcome" where
  "execute_deploy rc new_addr v init_code gas e =
     (if is_static e then Done (Inl StaticCallViolation, e)
      else let sender = self_address e
           in if unwrap_or 0 (hm_get (balances e) sender) < v then Done (Inr 0, e)
              else (case deploy_transfer e sender new_addr v of
                  (sender_balance, target_balance, sid, e1) \<Rightarrow>
                    obind (rc (deploy_child e1 new_addr v init_code gas)) (\<lambda>rch.
                    Done (deploy_finish (deploy_undo sender sender_balance new_addr target_balance sid)
                            new_addr (fst rch) (snd rch) e1))))"

text \<open>
  From the charge for the child on: \<open>evm.gas_left -= child_gas\<close>, the deployment, and the word that is
  pushed.  \<open>next_nonce\<close> is the update of the sender's nonce that precedes it.
\<close>

definition next_nonce :: "evm \<Rightarrow> evm" where
  "next_nonce e =
     (let sender = self_address e; nonce = unwrap_or 0 (hm_get (nonces e) sender)
      in e\<lparr>nonces := hm_insert sender (saturating_add nonce 1) (nonces e)\<rparr>)"

definition new_address :: "host \<Rightarrow> u256 option \<Rightarrow> bytes \<Rightarrow> evm \<Rightarrow> address" where
  "new_address h salt init_code e =
     (case salt of
        None \<Rightarrow> derive_create_address (keccak256 h) (self_address e) (unwrap_or 0 (hm_get (nonces e) (self_address e)))
      | Some s \<Rightarrow> derive_create2_address (keccak256 h) (self_address e) s init_code)"

definition nested_deploy :: "runner \<Rightarrow> address \<Rightarrow> u256 \<Rightarrow> bytes \<Rightarrow> (vm_error + u256) vm" where
  "nested_deploy rc new_addr v init_code = (\<lambda>e.
     let child_gas = calc_eip150_call_gas (gas_left e) (of_nat (gas_left e))
     in obind (execute_deploy rc new_addr v init_code child_gas (e\<lparr>gas_left := gas_left e - child_gas\<rparr>)) (\<lambda>re.
        Done (Inr (fst re), snd re)))"

definition create_hash_gas :: "u256 option \<Rightarrow> u256 \<Rightarrow> vm_error + u64" where
  "create_hash_gas salt size_word =
     (case salt of
        None \<Rightarrow> Inr 0
      | Some s \<Rightarrow> rbind (calc_copy_gas size_word) (\<lambda>words. ok_or Overflow (checked_mul words 2)))"

definition execute_create :: "host \<Rightarrow> runner \<Rightarrow> u256 \<Rightarrow> u256 \<Rightarrow> u256 \<Rightarrow> u256 option \<Rightarrow> unit vm" where
  "execute_create h rc v offset_word size_word salt =
     tbind (usize_or_overflow offset_word) (\<lambda>offset.
     tbind (usize_or_overflow size_word) (\<lambda>n.
     tbind (reads (\<lambda>e. memory_expansion_cost e [(offset, n)])) (\<lambda>mc.
     tbind (ok_or_return VmErr mc) (\<lambda>expansion.
     tbind (ok_or_return VmErr (create_hash_gas salt size_word)) (\<lambda>hash_gas.
     tbind (some_or_return (VmErr Overflow)
              (Option.bind (checked_add 32000 expansion) (\<lambda>cost. checked_add cost hash_gas))) (\<lambda>base_gas.
     tbind (charge base_gas) (\<lambda>_.
     tbind (expand_or_return [(offset, n)]) (\<lambda>_.
     tbind (read_memory offset (offset + n)) (\<lambda>init_code.
     tbind (reads (new_address h salt init_code)) (\<lambda>new_addr.
     tbind (modifies next_nonce) (\<lambda>_.
     tbind (nested_deploy rc new_addr v init_code) (\<lambda>result.
     case result of
       Inr a \<Rightarrow> push_or (Error ''Stack Overflow on CREATE'') a
     | Inl StaticCallViolation \<Rightarrow> exit_with (VmErr StaticCallViolation)
     | Inl _ \<Rightarrow> push_or (Error ''Stack Overflow on CREATE'') 0))))))))))))"

definition op_create :: "host \<Rightarrow> runner \<Rightarrow> unit vm" where
  "op_create h rc =
     tbind deny_static (\<lambda>_.
     tbind (pop3_or (Error ''Stack Underflow on CREATE'')) (\<lambda>(v, offset, n).
     execute_create h rc v offset n None))"

definition op_create2 :: "host \<Rightarrow> runner \<Rightarrow> unit vm" where
  "op_create2 h rc =
     tbind deny_static (\<lambda>_.
     tbind (pop3_or (Error ''Stack Underflow on CREATE2'')) (\<lambda>(v, offset, n).
     tbind (pop_or (Error ''Stack Underflow on CREATE2'')) (\<lambda>salt.
     execute_create h rc v offset n (Some salt))))"

section \<open>Calls\<close>

definition value_cost :: "evm \<Rightarrow> address \<Rightarrow> u256 \<Rightarrow> u64 option" where
  "value_cost e target v =
     (if v > 0 then checked_add 9000 (if hm_get (contracts e) target \<noteq> None then 0 else 25000) else Some 0)"

definition calc_call_base_gas :: "address \<Rightarrow> u256 \<Rightarrow> u256 \<Rightarrow> u256 \<Rightarrow> u256 \<Rightarrow> u256 \<Rightarrow> u64 vm" where
  "calc_call_base_gas target v args_off args_size ret_off ret_size =
     tbind (usize_or_overflow args_off) (\<lambda>ao.
     tbind (usize_or_overflow args_size) (\<lambda>as.
     tbind (usize_or_overflow ret_off) (\<lambda>ro.
     tbind (usize_or_overflow ret_size) (\<lambda>rs.
     tbind (reads (\<lambda>e. memory_expansion_cost e [(ao, as), (ro, rs)])) (\<lambda>mc.
     tbind (ok_or_return VmErr mc) (\<lambda>memory_cost.
     tbind (access_cost target) (\<lambda>access.
     tbind (reads (\<lambda>e. value_cost e target v)) (\<lambda>vc.
     tbind (some_or_return (VmErr Overflow) vc) (\<lambda>value_cost.
     some_or_return (VmErr Overflow)
       (Option.bind (checked_add 700 access) (\<lambda>c1.
        Option.bind (checked_add c1 value_cost) (\<lambda>c2. checked_add c2 memory_cost))))))))))))"

definition calc_static_call_base_gas :: "address \<Rightarrow> u256 \<Rightarrow> u256 \<Rightarrow> u256 \<Rightarrow> u256 \<Rightarrow> u64 vm" where
  "calc_static_call_base_gas target args_off args_size ret_off ret_size =
     tbind (calc_call_base_gas target 0 args_off args_size ret_off ret_size) (\<lambda>normal.
     some_or_return (VmErr Overflow) (checked_sub normal 660))"

definition write_output :: "usize \<Rightarrow> usize \<Rightarrow> bytes \<Rightarrow> unit vm" where
  "write_output ret_offset ret_size output =
     tbind (write_memory ret_offset (replicate ret_size 0)) (\<lambda>_.
     write_memory ret_offset (take (min (length output) ret_size) output))"

definition nested_precompile :: "host \<Rightarrow> address \<Rightarrow> bytes \<Rightarrow> u64 \<Rightarrow> bytes vm" where
  "nested_precompile h target input call_gas = (\<lambda>e.
     let e1 = e\<lparr>gas_left := gas_left e - call_gas\<rparr>
     in case execute_precompile h target input call_gas of
          Inr (gas_used, output) \<Rightarrow>
            Done (Inr output, e1\<lparr>gas_left := saturating_add (gas_left e1) (call_gas - gas_used), return_data := output\<rparr>)
        | Inl VmOutOfGas \<Rightarrow> Done (Inl OutOfGas, e1)
        | Inl err \<Rightarrow> Done (Inl (VmErr err), e1))"

definition make_frame :: "evm \<Rightarrow> bool \<Rightarrow> address \<Rightarrow> u256 \<Rightarrow> bytes \<Rightarrow> u64 \<Rightarrow> call_frame" where
  "make_frame e force_static target v input call_gas =
     \<lparr>cf_gas_limit = call_gas, cf_target = target, cf_is_static = (is_static e \<or> force_static),
      cf_value = v, cf_input = input\<rparr>"

definition make_context :: "evm \<Rightarrow> bool \<Rightarrow> call_frame \<Rightarrow> call_context" where
  "make_context e delegate frame =
     \<lparr>cc_caller = (if delegate then cx_caller (txc e) else cx_address (txc e)),
      cc_code_address = cf_target frame,
      cc_storage_address = (if delegate then self_address e else cf_target frame),
      cc_value = (if delegate then of_nat (cx_value (txc e)) else cf_value frame),
      cc_is_static = cf_is_static frame\<rparr>"

definition call_child :: "evm \<Rightarrow> call_frame \<Rightarrow> call_context \<Rightarrow> bytes \<Rightarrow> evm" where
  "call_child e frame cc child_code =
     (new_with_gas child_code (cf_gas_limit frame))
       \<lparr>env := env e,
        txc := default_tx_context\<lparr>cx_caller := cc_caller cc, cx_address := cf_target frame,
                 cx_value := value_u128 (cc_value cc), calldata := cf_input frame\<rparr>,
        storage_address := cc_storage_address cc,
        transient_storage_address := Some (cc_storage_address cc),
        state := state e, storage := storage e, contracts := contracts e,
        created_in_transaction := created_in_transaction e, is_static := cf_is_static frame\<rparr>"

definition call_outcome :: "execution_result \<Rightarrow> bool \<times> bytes" where
  "call_outcome r =
     (case r of Halt \<Rightarrow> (True, []) | Return d \<Rightarrow> (True, d) | Revert d \<Rightarrow> (False, d) | _ \<Rightarrow> (False, []))"

definition call_finish :: "usize \<Rightarrow> execution_result \<Rightarrow> evm \<Rightarrow> evm \<Rightarrow> evm" where
  "call_finish sid result child e =
     (let e1 = e\<lparr>gas_left := saturating_add (gas_left e) (gas_left child), return_data := snd (call_outcome result)\<rparr>
      in if fst (call_outcome result)
         then e1\<lparr>state := state child, storage := storage child,
                 created_in_transaction := created_in_transaction child, logs := logs e1 @ logs child\<rparr>
         else e1\<lparr>state := revert_to_snapshot (state e1) sid\<rparr>)"

definition nested_call ::
    "runner \<Rightarrow> bool \<Rightarrow> bool \<Rightarrow> address \<Rightarrow> u256 \<Rightarrow> bytes \<Rightarrow> u64 \<Rightarrow> (bool \<times> bytes) vm" where
  "nested_call rc force_static delegate target v input call_gas = (\<lambda>e.
     let e1 = e\<lparr>gas_left := gas_left e - call_gas\<rparr>;
         frame = make_frame e1 force_static target v input call_gas;
         cc = make_context e1 delegate frame;
         child_code = get_code (state e1) (cf_target frame);
         ss = snapshot (state e1);
         e2 = e1\<lparr>state := snd ss\<rparr>
     in obind (rc (call_child e2 frame cc child_code)) (\<lambda>rch.
        Done (Inr (call_outcome (fst rch)), call_finish (fst ss) (fst rch) (snd rch) e2)))"

definition call_base_gas :: "bool \<Rightarrow> address \<Rightarrow> u256 \<Rightarrow> u256 \<Rightarrow> u256 \<Rightarrow> u256 \<Rightarrow> u256 \<Rightarrow> u64 vm" where
  "call_base_gas force_static target base_value args_off args_size ret_off ret_size =
     (if force_static then calc_static_call_base_gas target args_off args_size ret_off ret_size
      else calc_call_base_gas target base_value args_off args_size ret_off ret_size)"

text \<open>The pops of \<open>execute_call\<close>; STATICCALL and DELEGATECALL have no value operand.\<close>

definition call_operands :: "bool \<Rightarrow> (u256 \<times> u256 \<times> u256 \<times> u256 \<times> u256 \<times> u256 \<times> u256) vm" where
  "call_operands no_value =
     (let pop = pop_or (Error ''Stack Underflow on CALL'') in
      tbind pop (\<lambda>gas_word. tbind pop (\<lambda>address_word.
      tbind (if no_value then ret 0 else pop) (\<lambda>v.
      tbind pop (\<lambda>ao. tbind pop (\<lambda>as. tbind pop (\<lambda>ro. tbind pop (\<lambda>rs.
      ret (gas_word, address_word, v, ao, as, ro, rs)))))))))"

text \<open>From the charge for the child on.\<close>

definition call_tail ::
    "host \<Rightarrow> runner \<Rightarrow> bool \<Rightarrow> bool \<Rightarrow> address \<Rightarrow> u256 \<Rightarrow> bytes \<Rightarrow> u64 \<Rightarrow> usize \<Rightarrow> usize \<Rightarrow> unit vm" where
  "call_tail h rc force_static delegate target v input call_gas ret_offset ret_size =
     (if is_precompile target
      then tbind (nested_precompile h target input call_gas) (\<lambda>output.
           tbind (write_output ret_offset ret_size output) (\<lambda>_.
           push_or (Error ''Stack Overflow on CALL'') 1))
      else tbind (nested_call rc force_static delegate target v input call_gas) (\<lambda>(success, output).
           tbind (touch_memory ret_offset ret_size) (\<lambda>_.
           tbind (write_output ret_offset ret_size output) (\<lambda>_.
           push_or (Error ''Stack Overflow on CALL'') (if success then 1 else 0)))))"

definition execute_call :: "host \<Rightarrow> runner \<Rightarrow> bool \<Rightarrow> bool \<Rightarrow> unit vm" where
  "execute_call h rc force_static delegate =
     tbind (call_operands (force_static \<or> delegate)) (\<lambda>(gas_word, address_word, v, ao, as, ro, rs).
     tbind (usize_or_overflow ao) (\<lambda>args_offset.
     tbind (usize_or_overflow as) (\<lambda>args_size.
     tbind (usize_or_overflow ro) (\<lambda>ret_offset.
     tbind (usize_or_overflow rs) (\<lambda>ret_size.
     tbind (call_base_gas force_static (account_address address_word)
              (if force_static \<or> delegate then 0 else v) ao as ro rs) (\<lambda>base_gas.
     tbind (charge base_gas) (\<lambda>_.
     tbind (expand_or_return [(args_offset, args_size), (ret_offset, ret_size)]) (\<lambda>_.
     tbind (read_memory args_offset (args_offset + args_size)) (\<lambda>input.
     tbind (reads (\<lambda>e. calc_eip150_call_gas (gas_left e) gas_word)) (\<lambda>call_gas.
     call_tail h rc force_static delegate (account_address address_word) v input call_gas ret_offset ret_size))))))))))"

definition op_call :: "host \<Rightarrow> runner \<Rightarrow> unit vm" where "op_call h rc = execute_call h rc False False"
definition op_delegatecall :: "host \<Rightarrow> runner \<Rightarrow> unit vm" where "op_delegatecall h rc = execute_call h rc False True"
definition op_staticcall :: "host \<Rightarrow> runner \<Rightarrow> unit vm" where "op_staticcall h rc = execute_call h rc True False"

section \<open>The laws, carried to the handlers\<close>

text \<open>
  A relation that also admits the four operations that reach outside the frame, for a given child runner.
\<close>

locale vm_call_laws = vm_write_laws +
  fixes h :: host and rc :: runner
  assumes precompile_law:
      "nested_precompile h target input (calc_eip150_call_gas (gas_left e) w) e = Done (r1, e') \<Longrightarrow> R e e'"
    and call_law:
      "nested_call rc fs dl target v input (calc_eip150_call_gas (gas_left e) w) e = Done (r2, e') \<Longrightarrow> R e e'"
    and deploy_law: "\<not> is_static e \<Longrightarrow> nested_deploy rc a v input e = Done (r3, e') \<Longrightarrow> R e e'"
    and nonce_law: "\<not> is_static e \<Longrightarrow> R e (next_nonce e)"
    and selfdestruct_law: "\<not> is_static e \<Longrightarrow> R e (selfdestruct_account a e)"
begin

lemma keeps_selfdestruct: "vm_keeps b R op_selfdestruct"
proof -
  have "vm_keeps False R (modifies (selfdestruct_account a))" for a
    by (auto simp: vm_keeps_def selfdestruct_law)
  then show ?thesis unfolding op_selfdestruct_def
    by (intro keeps_after_deny keeps_bind keeps_prims keeps_control)
qed

lemma keeps_vm_error: "vm_keeps b R (case_vm_error m1 m2 m3 m4 m5 x)"
  if "vm_keeps b R m1" "vm_keeps b R m2" "vm_keeps b R m3" "vm_keeps b R m4" "vm_keeps b R m5"
  using that by (cases x) simp_all

lemma keeps_execute_create: "vm_keeps False R (execute_create h rc v ow sw salt)"
proof -
  have "vm_keeps False R (modifies next_nonce)" by (auto simp: vm_keeps_def nonce_law)
  moreover have "vm_keeps False R (nested_deploy rc a v bs)" for a bs
    using deploy_law by (auto simp: vm_keeps_def)
  ultimately show ?thesis unfolding execute_create_def
    by (intro keeps_bind keeps_prims keeps_control keeps_vm_error)
qed

lemma keeps_creates: "vm_keeps b R (op_create h rc)" "vm_keeps b R (op_create2 h rc)"
  unfolding op_create_def op_create2_def
  by (intro keeps_after_deny keeps_bind keeps_prims keeps_control keeps_execute_create)+

lemma keeps_call_base_gas: "vm_keeps b R (call_base_gas fs t v ao as ro rs)"
  unfolding call_base_gas_def calc_static_call_base_gas_def calc_call_base_gas_def
  by (intro keeps_bind keeps_prims keeps_control)

lemma keeps_write_output: "vm_keeps b R (write_output ro rs out)"
  unfolding write_output_def by (intro keeps_bind keeps_prims)

lemma keeps_call_operands: "vm_keeps b R (call_operands nv)"
  unfolding call_operands_def Let_def by (intro keeps_bind keeps_prims keeps_control)

text \<open>The gas word is read from the machine that the tail then runs on.\<close>

lemma keeps_call_tail:
  "vm_keeps b R (tbind (reads (\<lambda>e. calc_eip150_call_gas (gas_left e) w)) (\<lambda>call_gas.
     call_tail h rc fs dl t v input call_gas ro rs))"
  unfolding vm_keeps_def
proof (intro allI impI)
  fix e e' :: evm and r
  let ?g = "calc_eip150_call_gas (gas_left e) w"
  assume b: "is_static e = b"
    and "tbind (reads (\<lambda>e. calc_eip150_call_gas (gas_left e) w)) (\<lambda>g. call_tail h rc fs dl t v input g ro rs) e = Done (r, e')"
  then have run: "call_tail h rc fs dl t v input ?g ro rs e = Done (r, e')" by simp
  show "R e e'"
  proof (cases "is_precompile t")
    case True
    have *: "vm_keeps b R (tbind (write_output ro rs out) (\<lambda>_. push_or (Error ''Stack Overflow on CALL'') 1))" for out
      by (intro keeps_bind keeps_write_output keeps_prims)
    from run True consider "\<exists>r1. nested_precompile h t input ?g e = Done (r1, e')"
      | out e1 where "nested_precompile h t input ?g e = Done (Inr out, e1)"
        "tbind (write_output ro rs out) (\<lambda>_. push_or (Error ''Stack Overflow on CALL'') 1) e1 = Done (r, e')"
      unfolding call_tail_def by (auto simp: tbind_Done[of "nested_precompile h t input ?g"])
    then show ?thesis
    proof cases
      case 2
      from precompile_law[OF 2(1)] have R1: "R e e1" .
      with vm_keepsD[OF * _ 2(2)] static b have "R e1 e'" by metis
      with R1 show ?thesis by (rule trans)
    qed (use precompile_law in blast)
  next
    case False
    let ?k = "\<lambda>(success, output). tbind (touch_memory ro rs) (\<lambda>_. tbind (write_output ro rs output) (\<lambda>_.
       push_or (Error ''Stack Overflow on CALL'') (if success then 1 else 0)))"
    have *: "vm_keeps b R (?k so)" for so
      by (intro keeps_bind keeps_write_output keeps_prims keeps_control)
    from run False consider "\<exists>r1. nested_call rc fs dl t v input ?g e = Done (r1, e')"
      | so e1 where "nested_call rc fs dl t v input ?g e = Done (Inr so, e1)" "?k so e1 = Done (r, e')"
      unfolding call_tail_def by (auto simp: tbind_Done[of "nested_call rc fs dl t v input ?g"])
    then show ?thesis
    proof cases
      case 2
      from call_law[OF 2(1)] have R1: "R e e1" .
      with vm_keepsD[OF * _ 2(2)] static b have "R e1 e'" by metis
      with R1 show ?thesis by (rule trans)
    qed (use call_law in blast)
  qed
qed

lemma keeps_execute_call: "vm_keeps b R (execute_call h rc fs dl)"
  unfolding execute_call_def
  by (intro keeps_bind[where m = "call_operands _"] keeps_bind[where m = "usize_or_overflow _"]
      keeps_bind[where m = "call_base_gas _ _ _ _ _ _ _"] keeps_bind[where m = "charge _"]
      keeps_bind[where m = "expand_or_return _"] keeps_bind[where m = "read_memory _ _"]
      keeps_call_tail keeps_call_base_gas keeps_call_operands keeps_prims keeps_control)

lemma keeps_calls: "vm_keeps b R (op_call h rc)" "vm_keeps b R (op_delegatecall h rc)" "vm_keeps b R (op_staticcall h rc)"
  by (simp_all add: op_call_def op_delegatecall_def op_staticcall_def keeps_execute_call)

lemmas keeps_call_handlers = keeps_selfdestruct keeps_creates keeps_calls

end

end
