(* ===== verification/EvmExec.thy ===== *)
theory EvmExec
  imports EvmCalls
begin

text \<open>
  The interpreter of \<open>src/vm.rs\<close>: the gas and dispatch tables, \<open>step\<close>, the loop
  \<open>run_without_sync\<close> and the entry points \<open>run\<close> and \<open>run_child\<close>.  The loop and the nesting of frames
  are bounded by fuel in the model; \<open>run_total\<close> in \<open>EvmTermination\<close> shows that for every machine some fuel is enough
  and that more fuel does not change the outcome, because a step either uses gas or moves the program
  counter forward, and a child starts with less gas than its parent had.
\<close>

section \<open>Tables\<close>

text \<open>\<open>table[lo..=hi].fill(v)\<close>\<close>

definition fill_range :: "byte \<Rightarrow> byte \<Rightarrow> 'a \<Rightarrow> (byte \<Rightarrow> 'a) \<Rightarrow> byte \<Rightarrow> 'a" where
  "fill_range lo hi v t = (\<lambda>op. if lo \<le> op \<and> op \<le> hi then v else t op)"

definition gas_table_1 :: "byte \<Rightarrow> u64" where
  "gas_table_1 = (\<lambda>_. 0)(
     OP_STOP := 0, OP_ADD := 3, OP_MUL := 5, OP_SUB := 3, OP_DIV := 5, OP_SDIV := 5, OP_MOD := 5,
     OP_SMOD := 5, OP_ADDMOD := 8, OP_MULMOD := 8, OP_EXP := 10, OP_SIGNEXTEND := 5, OP_KECCAK256 := 30,
     OP_LT := 3, OP_GT := 3, OP_EQ := 3, OP_ISZERO := 3, OP_AND := 3, OP_OR := 3, OP_XOR := 3, OP_NOT := 3,
     OP_BYTE := 3, OP_SHL := 3, OP_SHR := 3, OP_SAR := 3, OP_ADDRESS := 2, OP_BALANCE := 0,
     OP_BLOCKHASH := 20, OP_SELFBALANCE := 5, OP_CALLER := 2, OP_CALLVALUE := 2, OP_CALLDATALOAD := 3,
     OP_CALLDATASIZE := 2, OP_CALLDATACOPY := 3, OP_CODECOPY := 3, OP_CODESIZE := 2, OP_GASPRICE := 2,
     OP_ORIGIN := 2, OP_COINBASE := 2, OP_TIMESTAMP := 2, OP_NUMBER := 2, OP_PREVRANDAO := 2,
     OP_GASLIMIT := 2, OP_CHAINID := 2, OP_BASEFEE := 2, OP_BLOBHASH := 3, OP_BLOBBASEFEE := 2,
     OP_GAS := 2, OP_RETURNDATASIZE := 2, OP_RETURNDATACOPY := 3, OP_CALL := 0, OP_CREATE := 0,
     OP_DELEGATECALL := 0, OP_CREATE2 := 0, OP_STATICCALL := 0, OP_INVALID := 0, OP_SELFDESTRUCT := 0,
     OP_MLOAD := 3, OP_MSTORE := 3, OP_MSTORE8 := 3, OP_PUSH1 := 3, OP_PUSH2 := 3)"

definition gas_table_2 :: "byte \<Rightarrow> u64" where
  "gas_table_2 = (fill_range OP_PUSH3 OP_PUSH32 3 gas_table_1)(
     OP_MSIZE := 2, OP_MCOPY := 0, OP_JUMPDEST := 1, OP_JUMP := 8, OP_JUMPI := 10, OP_SLOAD := 0,
     OP_SSTORE := 0, OP_TLOAD := 100, OP_TSTORE := 100)"

definition gas_table :: "byte \<Rightarrow> u64" where
  "gas_table = (fill_range 0x80 0x9F 3 gas_table_2)"

definition dispatch_arith :: "host \<Rightarrow> byte \<Rightarrow> unit vm" where
  "dispatch_arith h = (\<lambda>_. op_invalid)(
     OP_STOP := op_stop, OP_ADD := op_add, OP_MUL := op_mul, OP_SUB := op_sub, OP_DIV := op_div,
     OP_SDIV := op_sdiv, OP_MOD := op_mod, OP_SMOD := op_smod, OP_ADDMOD := op_addmod,
     OP_MULMOD := op_mulmod, OP_EXP := op_exp, OP_SIGNEXTEND := op_signextend,
     OP_KECCAK256 := op_keccak256 h, OP_PUSH1 := op_push1, OP_PUSH2 := op_push2)"

definition dispatch_push :: "host \<Rightarrow> byte \<Rightarrow> unit vm" where
  "dispatch_push h = (dispatch_arith h)(
     OP_PUSH3 := execute_push_n 3, OP_PUSH4 := execute_push_n 4, OP_PUSH5 := execute_push_n 5,
     OP_PUSH6 := execute_push_n 6, OP_PUSH7 := execute_push_n 7, OP_PUSH8 := execute_push_n 8,
     OP_PUSH9 := execute_push_n 9, OP_PUSH10 := execute_push_n 10, OP_PUSH11 := execute_push_n 11,
     OP_PUSH12 := execute_push_n 12, OP_PUSH13 := execute_push_n 13, OP_PUSH14 := execute_push_n 14,
     OP_PUSH15 := execute_push_n 15, OP_PUSH16 := execute_push_n 16, OP_PUSH17 := execute_push_n 17,
     OP_PUSH18 := execute_push_n 18, OP_PUSH19 := execute_push_n 19, OP_PUSH20 := execute_push_n 20,
     OP_PUSH21 := execute_push_n 21, OP_PUSH22 := execute_push_n 22, OP_PUSH23 := execute_push_n 23,
     OP_PUSH24 := execute_push_n 24, OP_PUSH25 := execute_push_n 25, OP_PUSH26 := execute_push_n 26,
     OP_PUSH27 := execute_push_n 27, OP_PUSH28 := execute_push_n 28, OP_PUSH29 := execute_push_n 29,
     OP_PUSH30 := execute_push_n 30, OP_PUSH31 := execute_push_n 31, OP_PUSH32 := execute_push_n 32)"

definition dispatch_core :: "host \<Rightarrow> byte \<Rightarrow> unit vm" where
  "dispatch_core h = (dispatch_push h)(
     OP_JUMP := op_jump, OP_JUMPI := op_jumpi, OP_JUMPDEST := op_jumpdest, OP_MLOAD := op_mload,
     OP_MSTORE := op_mstore, OP_MSTORE8 := op_mstore8, OP_MSIZE := op_msize, OP_LT := op_lt,
     OP_GT := op_gt, OP_EQ := op_eq, OP_ISZERO := op_iszero, OP_AND := op_and, OP_OR := op_or,
     OP_XOR := op_xor, OP_NOT := op_not, OP_BYTE := op_byte, OP_SHL := op_shl, OP_SHR := op_shr,
     OP_SAR := op_sar, OP_SLOAD := op_sload, OP_SSTORE := op_sstore, OP_TLOAD := op_tload,
     OP_TSTORE := op_tstore, OP_RETURN := op_return, OP_REVERT := op_revert)"

definition dispatch_context :: "host \<Rightarrow> runner \<Rightarrow> byte \<Rightarrow> unit vm" where
  "dispatch_context h rc = (dispatch_core h)(
     OP_CALLDATALOAD := op_calldataload, OP_CALLDATASIZE := op_calldatasize,
     OP_CALLDATACOPY := op_calldatacopy, OP_CODECOPY := op_codecopy, OP_ADDRESS := op_address,
     OP_BALANCE := op_balance, OP_BLOCKHASH := op_blockhash, OP_CALLER := op_caller,
     OP_CALLVALUE := op_callvalue, OP_CODESIZE := op_codesize, OP_EXTCODESIZE := op_extcodesize,
     OP_EXTCODECOPY := op_extcodecopy, OP_EXTCODEHASH := op_extcodehash h,
     OP_SELFBALANCE := op_selfbalance, OP_GASPRICE := op_gasprice, OP_RETURNDATASIZE := op_returndatasize,
     OP_RETURNDATACOPY := op_returndatacopy, OP_ORIGIN := op_origin, OP_COINBASE := op_coinbase,
     OP_TIMESTAMP := op_timestamp, OP_NUMBER := op_number, OP_PREVRANDAO := op_prevrandao,
     OP_GASLIMIT := op_gaslimit, OP_CHAINID := op_chainid, OP_BASEFEE := op_basefee,
     OP_BLOBHASH := op_blobhash, OP_BLOBBASEFEE := op_blobbasefee, OP_GAS := op_gas, OP_MCOPY := op_mcopy,
     OP_LOG0 := op_log 0, OP_LOG1 := op_log 1, OP_LOG2 := op_log 2, OP_LOG3 := op_log 3,
     OP_LOG4 := op_log 4, OP_CALL := op_call h rc, OP_CREATE := op_create h rc,
     OP_DELEGATECALL := op_delegatecall h rc, OP_CREATE2 := op_create2 h rc,
     OP_STATICCALL := op_staticcall h rc, OP_INVALID := op_invalid_opcode,
     OP_SELFDESTRUCT := op_selfdestruct)"

definition dispatch_table :: "host \<Rightarrow> runner \<Rightarrow> byte \<Rightarrow> unit vm" where
  "dispatch_table h rc = (dispatch_context h rc)(
     OP_DUP1 := op_dup 1, OP_DUP2 := op_dup 2, OP_DUP3 := op_dup 3, OP_DUP4 := op_dup 4,
     OP_DUP5 := op_dup 5, OP_DUP6 := op_dup 6, OP_DUP7 := op_dup 7, OP_DUP8 := op_dup 8,
     OP_DUP9 := op_dup 9, OP_DUP10 := op_dup 10, OP_DUP11 := op_dup 11, OP_DUP12 := op_dup 12,
     OP_DUP13 := op_dup 13, OP_DUP14 := op_dup 14, OP_DUP15 := op_dup 15, OP_DUP16 := op_dup 16,
     OP_SWAP1 := op_swap 1, OP_SWAP2 := op_swap 2, OP_SWAP3 := op_swap 3, OP_SWAP4 := op_swap 4,
     OP_SWAP5 := op_swap 5, OP_SWAP6 := op_swap 6, OP_SWAP7 := op_swap 7, OP_SWAP8 := op_swap 8,
     OP_SWAP9 := op_swap 9, OP_SWAP10 := op_swap 10, OP_SWAP11 := op_swap 11, OP_SWAP12 := op_swap 12,
     OP_SWAP13 := op_swap 13, OP_SWAP14 := op_swap 14, OP_SWAP15 := op_swap 15, OP_SWAP16 := op_swap 16)"

section \<open>The interpreter\<close>

definition trace_step :: "byte \<Rightarrow> u64 \<Rightarrow> evm \<Rightarrow> evm" where
  "trace_step op gas_cost e =
     (case tracer e of
        None \<Rightarrow> e
      | Some frames \<Rightarrow> e\<lparr>tracer := Some (frames @
          [\<lparr>sf_pc = pc e, sf_op = op, sf_mnemonic = opcode_mnemonic op, sf_gas_left = gas_left e,
            sf_gas_cost = gas_cost, sf_stack = stack_values (stack e), sf_memory = memory e\<rparr>])\<rparr>)"

definition handler_result :: "execution_result + unit \<Rightarrow> execution_result" where
  "handler_result r = (case r of Inl x \<Rightarrow> x | Inr u \<Rightarrow> Halt)"

definition step :: "host \<Rightarrow> runner \<Rightarrow> evm \<Rightarrow> (execution_result \<times> evm) outcome" where
  "step h rc e =
     (if pc e \<ge> length (code e) then Done (Halt, e)
      else let op = code e ! pc e; gas_cost = gas_table op
           in if gas_left e < gas_cost then Done (OutOfGas, e)
              else let e1 = trace_step op gas_cost e
                   in obind (dispatch_table h rc op (e1\<lparr>gas_left := gas_left e1 - gas_cost, pc := pc e1 + 1\<rparr>))
                        (\<lambda>re. Done (handler_result (fst re), snd re)))"

primrec run_without_sync :: "nat \<Rightarrow> host \<Rightarrow> evm \<Rightarrow> (execution_result \<times> evm) outcome" where
  "run_without_sync 0 h e = NoFuel"
| "run_without_sync (Suc n) h e =
     (if pc e < length (code e)
      then obind (step h (\<lambda>c. obind (run_without_sync n h (sync_legacy_state_into_fork c)) (\<lambda>re.
                    Done (fst re, sync_fork_into_legacy_state h (snd re)))) e) (\<lambda>re.
           if fst re \<noteq> Halt then Done re else run_without_sync n h (snd re))
      else Done (Halt, e))"

definition run_child :: "nat \<Rightarrow> host \<Rightarrow> evm \<Rightarrow> (execution_result \<times> evm) outcome" where
  "run_child n h c =
     obind (run_without_sync n h (sync_legacy_state_into_fork c)) (\<lambda>re.
     Done (fst re, sync_fork_into_legacy_state h (snd re)))"

definition run :: "nat \<Rightarrow> host \<Rightarrow> evm \<Rightarrow> (execution_result \<times> evm) outcome" where
  "run n h e =
     obind (run_without_sync n h (sync_legacy_state_into_fork e)) (\<lambda>re.
     let e1 = sync_fork_into_legacy_state h (snd re)
     in Done (fst re, e1\<lparr>state := clear_transient_storage (state e1)\<rparr>))"

lemma run_without_sync_Suc:
  "run_without_sync (Suc n) h e =
     (if pc e < length (code e)
      then obind (step h (run_child n h) e) (\<lambda>re. if fst re \<noteq> Halt then Done re else run_without_sync n h (snd re))
      else Done (Halt, e))"
  by (simp add: run_child_def[abs_def])

declare run_without_sync.simps(2) [simp del]

section \<open>The laws, carried to the dispatch table\<close>

lemma table_upd: "(\<And>op. P (t op)) \<Longrightarrow> P x \<Longrightarrow> P ((t(a := x)) op)"
  by simp

lemma step_eq:
  assumes "pc e < length (code e)" "gas_table (code e ! pc e) \<le> gas_left e"
  defines "e1 \<equiv> trace_step (code e ! pc e) (gas_table (code e ! pc e)) e"
  shows "step h rc e =
    obind (dispatch_table h rc (code e ! pc e)
            (e1\<lparr>gas_left := gas_left e1 - gas_table (code e ! pc e), pc := pc e1 + 1\<rparr>))
      (\<lambda>re. Done (handler_result (fst re), snd re))"
  using assms(1,2) by (simp add: step_def e1_def Let_def)

lemma step_cases:
  assumes "step h rc e = Done (r, e')" "e' \<noteq> e"
  shows "pc e < length (code e) \<and> gas_table (code e ! pc e) \<le> gas_left e"
proof (rule ccontr)
  assume "\<not> ?thesis"
  then have "step h rc e = Done (Halt, e) \<or> step h rc e = Done (OutOfGas, e)"
    by (auto simp: step_def Let_def)
  with assms show False by auto
qed

lemma trace_step_fields [simp]:
  "pc (trace_step op g e) = pc e" "code (trace_step op g e) = code e" "gas_left (trace_step op g e) = gas_left e"
  by (simp_all add: trace_step_def split: option.splits)

lemma trace_step_tracer: "trace_step op g e = e\<lparr>tracer := tracer (trace_step op g e)\<rparr>"
  by (simp add: trace_step_def split: option.split)

locale vm_full_laws = vm_jump_laws + vm_call_laws +
  assumes trace_law: "pc e < length (code e) \<Longrightarrow> gas_table (code e ! pc e) \<le> gas_left e \<Longrightarrow>
      R e (trace_step (code e ! pc e) (gas_table (code e ! pc e)) e)"
begin

lemma keeps_dispatch_core: "vm_keeps b R (dispatch_core h' op)"
  unfolding dispatch_core_def dispatch_push_def dispatch_arith_def arith_op_defs
  by (intro table_upd[where P = "vm_keeps b R"] keeps_trivial keeps_arith keeps_mem_handlers keeps_write_handlers
      keeps_push_handlers keeps_jumps)

lemma keeps_dispatch: "vm_keeps b R (dispatch_table h rc op)"
  unfolding dispatch_table_def dispatch_context_def op_calldatacopy_def op_codecopy_def
    op_codesize_def op_gasprice_def op_timestamp_def op_number_def op_prevrandao_def op_gaslimit_def
    op_chainid_def op_basefee_def op_blobbasefee_def op_gas_def op_selfbalance_def
  by (intro table_upd[where P = "vm_keeps b R"] keeps_dispatch_core keeps_mem_handlers keeps_write_handlers
      keeps_env_handlers keeps_call_handlers)

lemma keeps_step:
  assumes "step h rc e = Done (r, e')" shows "R e e'"
proof (cases "e' = e")
  case False
  let ?op = "code e ! pc e"
  let ?e1 = "trace_step ?op (gas_table ?op) e"
  let ?e2 = "?e1\<lparr>gas_left := gas_left ?e1 - gas_table ?op\<rparr>"
  let ?e3 = "?e2\<lparr>pc := pc ?e2 + 1\<rparr>"
  note g = step_cases[OF assms False]
  then have tr: "R e ?e1" by (intro trace_law) simp_all
  from assms obtain r' where "dispatch_table h rc ?op ?e3 = Done (r', e')"
    unfolding step_eq[OF g[THEN conjunct1] g[THEN conjunct2]] by (auto simp: obind_Done_iff)
  then have d: "R ?e3 e'" using vm_keepsD[OF keeps_dispatch] by blast
  have "R ?e1 ?e2" using g by (intro gas_law) simp
  moreover have "R ?e2 ?e3" using g by (intro advance_law) simp
  ultimately have "R ?e1 ?e3" by (rule trans)
  with tr have "R e ?e3" by (rule trans)
  then show ?thesis using d by (rule trans)
qed (simp add: refl)

end

section \<open>The laws, carried to whole runs\<close>

text \<open>
  A relation that satisfies the laws of a frame whenever its child runner keeps the relation, and that bridges
  the synchronisations around a run, is kept by every run: by induction on the fuel the interpreter is such a
  child runner for itself.
\<close>

locale vm_run_laws =
  fixes R :: "evm \<Rightarrow> evm \<Rightarrow> bool" and h :: host
  assumes full_laws: "(\<And>c r c'. rc c = Done (r, c') \<Longrightarrow> R c c') \<Longrightarrow> vm_full_laws R h rc"
    and sync_law: "R (sync_legacy_state_into_fork e) e1 \<Longrightarrow> R e (sync_fork_into_legacy_state h e1)"
    and clear_law: "R e (e\<lparr>state := clear_transient_storage (state e)\<rparr>)"
begin

lemma order: "vm_order R"
  using full_laws[of "\<lambda>_. NoFuel"]
  by (simp add: vm_full_laws_def vm_call_laws_def vm_write_laws_def vm_laws_def)

lemma run_without_sync_keeps: "run_without_sync n h e = Done (r, e') \<Longrightarrow> R e e'"
proof (induction n arbitrary: e r e')
  case (Suc n)
  have "R c c'" if "run_child n h c = Done (res, c')" for c c' res
    using that Suc.IH sync_law by (auto simp: run_child_def obind_Done_iff)
  then have laws: "vm_full_laws R h (run_child n h)" by (rule full_laws)
  show ?case
  proof (cases "pc e < length (code e)")
    case False
    with Suc.prems show ?thesis by (auto simp: run_without_sync_Suc vm_order.refl[OF order])
  next
    case True
    with Suc.prems obtain r1 e1 where s: "step h (run_child n h) e = Done (r1, e1)"
      and k: "(if r1 \<noteq> Halt then Done (r1, e1) else run_without_sync n h e1) = Done (r, e')"
      unfolding run_without_sync_Suc by (cases "step h (run_child n h) e") (auto split: if_splits)
    have "R e e1" using vm_full_laws.keeps_step[OF laws s] .
    moreover have "R e1 e'" using k Suc.IH by (auto simp: vm_order.refl[OF order] split: if_splits)
    ultimately show ?thesis by (rule vm_order.trans[OF order])
  qed
qed simp

lemma run_child_keeps: "run_child n h e = Done (r, e') \<Longrightarrow> R e e'"
  using run_without_sync_keeps sync_law by (auto simp: run_child_def obind_Done_iff)

lemma run_keeps:
  assumes "run n h e = Done (r, e')" shows "R e e'"
proof -
  obtain e1 where "run_without_sync n h (sync_legacy_state_into_fork e) = Done (r, e1)"
    and e': "e' = (sync_fork_into_legacy_state h e1)\<lparr>state := clear_transient_storage (state (sync_fork_into_legacy_state h e1))\<rparr>"
    using assms by (auto simp: run_def Let_def obind_Done_iff)
  then have "R e (sync_fork_into_legacy_state h e1)" by (intro sync_law run_without_sync_keeps)
  then show ?thesis unfolding e' using clear_law by (rule vm_order.trans[OF order])
qed

end

sublocale vm_run_laws \<subseteq> nested: vm_full_laws R h "run_child n h" for n
  by (rule full_laws[OF run_child_keeps])

end
