(* ===== verification/EvmInvariant.thy ===== *)
theory EvmInvariant
  imports EvmExec
begin

text \<open>
  The well-formedness invariant of a machine and the relation \<open>evolves\<close> between a machine and a
  later one: gas only goes down, memory only grows, the frame's code, environment and addresses stay,
  logs are only appended (and not in a static frame), and well-formedness is kept.  The interpretation
  of the locale \<open>vm_full_laws\<close> for \<open>evolves\<close> and the interpreter as its own child runner is proved by
  induction on the fuel.
\<close>

section \<open>The invariant\<close>

definition evm_ok :: "evm \<Rightarrow> bool" where
  "evm_ok e \<longleftrightarrow>
     stack_ok (stack e) \<and> length (data (stack e)) = 1024 \<and> 32 dvd length (memory e) \<and>
     valid_jumpdests e = analyze_jumpdests (code e) \<and> gas_left e \<le> U64_MAX \<and> fork_ok (state e) \<and>
     hm_wf (storage e) \<and> hm_wf (balances e) \<and> hm_wf (nonces e) \<and> hm_wf (contracts e)"

definition evolves :: "evm \<Rightarrow> evm \<Rightarrow> bool" where
  "evolves e e' \<longleftrightarrow>
     gas_left e' \<le> gas_left e \<and> is_static e' = is_static e \<and> code e' = code e \<and>
     env e' = env e \<and> txc e' = txc e \<and> storage_address e' = storage_address e \<and>
     transient_storage_address e' = transient_storage_address e \<and>
     length (memory e) \<le> length (memory e') \<and>
     prefix (logs e) (logs e') \<and> (is_static e \<longrightarrow> logs e' = logs e) \<and>
     (evm_ok e \<longrightarrow> evm_ok e')"

lemma new_with_gas_ok: "g \<le> U64_MAX \<Longrightarrow> evm_ok (new_with_gas c g)"
  by (simp add: evm_ok_def new_with_gas_def fork_ok_def default_fork_def accounts_ok_def snapshots_ok_def)

lemma stack_ops_ok:
  assumes "stack_ok s" "length (data s) = 1024"
  shows "stack_ok (snd (stack_pop s)) \<and> length (data (snd (stack_pop s))) = 1024"
    "stack_ok (snd (stack_push s v)) \<and> length (data (snd (stack_push s v))) = 1024"
    "stack_ok (snd (stack_swap s n)) \<and> length (data (snd (stack_swap s n))) = 1024"
  using assms by (auto simp: stack_ok_def stack_pop_def stack_push_def stack_swap_def Let_def)

lemma evolves_refl: "evolves e e"
  by (simp add: evolves_def)

lemma evolves_trans: "evolves e e1 \<Longrightarrow> evolves e1 e2 \<Longrightarrow> evolves e e2"
  by (auto simp: evolves_def intro: prefix_order.trans)

lemma evolves_stack:
  assumes "stack_ok (stack e) \<and> length (data (stack e)) = 1024 \<Longrightarrow> stack_ok s \<and> length (data s) = 1024"
  shows "evolves e (e\<lparr>stack := s\<rparr>)"
  using assms by (simp add: evolves_def evm_ok_def)

lemma evolves_pc: "evolves e (e\<lparr>pc := n\<rparr>)"
  by (simp add: evolves_def evm_ok_def)

lemma evm_ok_gas: "evm_ok e \<Longrightarrow> g \<le> gas_left e \<Longrightarrow> evm_ok (e\<lparr>gas_left := g\<rparr>)"
  by (auto simp: evm_ok_def)

lemma evolves_gas: "g \<le> gas_left e \<Longrightarrow> evolves e (e\<lparr>gas_left := g\<rparr>)"
  by (simp add: evolves_def evm_ok_gas)

lemma evolves_state: "(fork_ok (state e) \<Longrightarrow> fork_ok st) \<Longrightarrow> evolves e (e\<lparr>state := st\<rparr>)"
  by (auto simp: evolves_def evm_ok_def)

section \<open>Nested execution\<close>

lemma saturating_return: "c \<le> g \<Longrightarrow> g' \<le> c \<Longrightarrow> saturating_add (g - c) g' \<le> g"
  by (simp add: saturating_add_def)

lemma saturating_return_u64: "saturating_add a b \<le> U64_MAX"
  by (rule saturating_add_u64)

lemma evolves_precompile:
  assumes "nested_precompile h target input (calc_eip150_call_gas (gas_left e) w) e = Done (r, e')"
  shows "evolves e e'"
proof -
  let ?c = "calc_eip150_call_gas (gas_left e) w"
  have c: "?c \<le> gas_left e" by (rule call_gas_le)
  from assms consider
      gas out where "execute_precompile h target input ?c = Inr (gas, out)"
        "e' = e\<lparr>gas_left := saturating_add (gas_left e - ?c) (?c - gas), return_data := out\<rparr>"
    | "e' = e\<lparr>gas_left := gas_left e - ?c\<rparr>"
    by (auto simp: nested_precompile_def Let_def split: sum.splits vm_error.splits)
  then show ?thesis
  proof cases
    case 1
    then show ?thesis
      using saturating_return[OF c, of "?c - gas"] saturating_return_u64 by (simp add: evolves_def evm_ok_def)
  next
    case 2
    then show ?thesis by (simp add: evolves_gas)
  qed
qed

lemma call_child_ok:
  assumes "evm_ok e" "cf_gas_limit frame \<le> U64_MAX" shows "evm_ok (call_child e frame cc c)"
  using assms by (simp add: evm_ok_def call_child_def new_with_gas_def)

lemma call_child_fields:
  "gas_left (call_child e frame cc c) = cf_gas_limit frame" "logs (call_child e frame cc c) = []"
  "is_static (call_child e frame cc c) = cf_is_static frame"
  by (simp_all add: call_child_def new_with_gas_def)

text \<open>What the parent relies on from the run of a child.\<close>

definition runner_ok :: "runner \<Rightarrow> bool" where
  "runner_ok rc \<longleftrightarrow> (\<forall>c r c'. rc c = Done (r, c') \<longrightarrow> evolves c c')"

lemma runner_okD: "runner_ok rc \<Longrightarrow> rc c = Done (r, c') \<Longrightarrow> evolves c c'"
  by (simp add: runner_ok_def)

lemma call_finish_evolves:
  fixes e ch :: evm and sid :: nat and st :: state_fork and res :: execution_result and c :: nat
  defines "e' \<equiv> call_finish sid res ch (e\<lparr>gas_left := gas_left e - c, state := st\<rparr>)"
  assumes "c \<le> gas_left e" "gas_left ch \<le> c" "is_static e \<Longrightarrow> logs ch = []"
    and ok: "evm_ok e \<Longrightarrow> fork_ok st \<and> fork_ok (state ch) \<and> hm_wf (storage ch)"
  shows "evolves e e'"
proof -
  have gas: "gas_left e' \<le> gas_left e" "gas_left e' \<le> U64_MAX"
    using saturating_return[OF assms(2,3)] saturating_return_u64[of "gas_left e - c" "gas_left ch"]
    by (simp_all add: e'_def call_finish_def Let_def)
  have "evm_ok e' " if "evm_ok e"
    using that ok[OF that] gas(2) revert_ok[of st sid] by (simp add: evm_ok_def e'_def call_finish_def Let_def)
  moreover have "prefix (logs e) (logs e') \<and> (is_static e \<longrightarrow> logs e' = logs e)"
    using assms(4) by (simp add: e'_def call_finish_def Let_def)
  ultimately show ?thesis using gas(1) by (simp add: evolves_def) (simp add: e'_def call_finish_def Let_def)
qed

lemma evolves_call:
  assumes "runner_ok rc"
    "nested_call rc fs dl target v input (calc_eip150_call_gas (gas_left e) w) e = Done (r, e')"
  shows "evolves e e'"
proof -
  define c where "c = calc_eip150_call_gas (gas_left e) w"
  define e1 where "e1 = e\<lparr>gas_left := gas_left e - c\<rparr>"
  define frame where "frame = make_frame e1 fs target v input c"
  define st where "st = snd (snapshot (state e1))"
  define child where "child = call_child (e1\<lparr>state := st\<rparr>) frame (make_context e1 dl frame)
     (get_code (state e1) (cf_target frame))"
  from assms(2) obtain res ch where run: "rc child = Done (res, ch)"
    and e': "e' = call_finish (fst (snapshot (state e1))) res ch (e\<lparr>gas_left := gas_left e - c, state := st\<rparr>)"
    unfolding nested_call_def Let_def c_def[symmetric] e1_def[symmetric] frame_def[symmetric] st_def[symmetric]
      child_def[symmetric] by (auto simp: obind_Done_iff e1_def)
  have c: "c \<le> gas_left e" unfolding c_def by (rule call_gas_le)
  note ev = runner_okD[OF assms(1) run]
  have f: "cf_gas_limit frame = c" "cf_is_static frame = (is_static e \<or> fs)"
    by (simp_all add: frame_def make_frame_def e1_def)
  show ?thesis unfolding e'
  proof (rule call_finish_evolves[OF c])
    show "gas_left ch \<le> c" using ev f by (simp add: evolves_def child_def call_child_fields)
    show "logs ch = []" if "is_static e"
      using ev f that by (simp add: evolves_def child_def call_child_fields)
    assume ok: "evm_ok e"
    then have st: "fork_ok st" by (simp add: st_def e1_def evm_ok_def snapshot_ok)
    with ok have "evm_ok (e1\<lparr>state := st\<rparr>)" by (auto simp: evm_ok_def e1_def)
    moreover have "c \<le> U64_MAX" using c ok by (simp add: evm_ok_def)
    ultimately have "evm_ok child" unfolding child_def using f by (intro call_child_ok) simp_all
    then have "evm_ok ch" using ev by (simp add: evolves_def)
    with st show "fork_ok st \<and> fork_ok (state ch) \<and> hm_wf (storage ch)" by (simp add: evm_ok_def)
  qed
qed

lemma deploy_undo_fields:
  "gas_left (deploy_undo s sb a tb sid e) = gas_left e"
  "evm_ok e \<Longrightarrow> evm_ok (deploy_undo s sb a tb sid e)"
  "evolves e0 e \<Longrightarrow> evolves e0 (deploy_undo s sb a tb sid e)"
  by (simp_all add: deploy_undo_def evm_ok_def evolves_def revert_ok)

lemma deploy_finish_evolves:
  assumes undo: "\<And>e0 e. evolves e0 e \<Longrightarrow> evolves e0 (undo e)"
    and "\<not> is_static e" "c \<le> gas_left e" "gas_left ch \<le> c" "evm_ok e \<Longrightarrow> evm_ok ch"
  shows "evolves e (snd (deploy_finish undo a res ch (e\<lparr>gas_left := gas_left e - c\<rparr>)))"
proof -
  define e1 where "e1 = e\<lparr>gas_left := saturating_add (gas_left e - c) (gas_left ch),
      created_in_transaction := created_in_transaction e \<union> created_in_transaction ch\<rparr>"
  have g: "saturating_add (gas_left e - c) (gas_left ch) \<le> gas_left e"
    using assms(3,4) by (rule saturating_return)
  have e1: "evolves e (e1\<lparr>return_data := d\<rparr>)" "evolves e e1" for d
    using g by (simp_all add: evolves_def evm_ok_def e1_def)
  have commit: "evolves e (deploy_commit e2 ch a code deposit)"
    if "evolves e e2" "is_static e2 = is_static e" for e2 code deposit
    using that assms(2,5) writers_ok(3)[of "state ch" a code]
    by (auto simp: evolves_def deploy_commit_def evm_ok_def)
  have st: "is_static (e1\<lparr>return_data := d\<rparr>) = is_static e" "is_static e1 = is_static e" for d
    by (simp_all add: e1_def)
  have x: "e\<lparr>gas_left := gas_left e - c, gas_left := saturating_add (gas_left (e\<lparr>gas_left := gas_left e - c\<rparr>)) (gas_left ch),
       created_in_transaction := created_in_transaction (e\<lparr>gas_left := gas_left e - c\<rparr>) \<union> created_in_transaction ch\<rparr> = e1"
    by (simp add: e1_def)
  show ?thesis unfolding deploy_finish_def Let_def x
    using undo[OF e1(1)] undo[OF e1(2)] commit[OF e1(1) st(1)] commit[OF e1(2) st(2)]
    by (auto split: execution_result.splits option.splits)
qed

lemma deploy_transfer_eq:
  assumes "deploy_transfer e s a v = (sb, tb, sid, e1)"
  shows "e1 = e\<lparr>balances := balances e1, state := state e1\<rparr>"
    "hm_wf (balances e) \<Longrightarrow> hm_wf (balances e1)" "fork_ok (state e) \<Longrightarrow> fork_ok (state e1)"
  using assms by (auto simp: deploy_transfer_def Let_def writers_ok snapshot_ok)

lemma deploy_child_ok:
  assumes "evm_ok e" "g \<le> U64_MAX" shows "evm_ok (deploy_child e a v c g)"
  using assms by (simp add: evm_ok_def deploy_child_def new_with_gas_def)

lemma evolves_deploy:
  assumes "runner_ok rc" "\<not> is_static e" "nested_deploy rc a v input e = Done (r, e')"
  shows "evolves e e'"
proof -
  define c where "c = calc_eip150_call_gas (gas_left e) (of_nat (gas_left e))"
  define e0 where "e0 = e\<lparr>gas_left := gas_left e - c\<rparr>"
  have c: "c \<le> gas_left e" unfolding c_def by (rule call_gas_le)
  obtain sb tb sid e1 where tr: "deploy_transfer e0 (self_address e0) a v = (sb, tb, sid, e1)"
    by (metis prod_cases4)
  define b st where "b = balances e1" and "st = state e1"
  have e1: "e1 = e0\<lparr>balances := b, state := st\<rparr>" "hm_wf (balances e) \<Longrightarrow> hm_wf b" "fork_ok (state e) \<Longrightarrow> fork_ok st"
    using deploy_transfer_eq[OF tr] by (simp_all add: e0_def b_def st_def)
  let ?m = "e\<lparr>balances := b, state := st\<rparr>"
  have m: "evolves e ?m" using e1(2,3) assms(2) by (auto simp: evolves_def evm_ok_def)
  have "evolves e e0" by (simp add: e0_def evolves_gas)
  show ?thesis
  proof (cases "e' = e0")
    case False
    with assms(3) obtain res ch where run: "rc (deploy_child e1 a v input c) = Done (res, ch)"
      and e': "e' = snd (deploy_finish (deploy_undo (self_address e0) sb a tb sid) a res ch e1)"
      unfolding nested_deploy_def execute_deploy_def Let_def c_def[symmetric] e0_def[symmetric] tr
      using assms(2) by (auto simp: obind_Done_iff e0_def split: if_splits)
    note ev = runner_okD[OF assms(1) run]
    have e1m: "e1 = ?m\<lparr>gas_left := gas_left ?m - c\<rparr>" by (simp add: e1(1) e0_def)
    have "evolves ?m e'" unfolding e' e1m
    proof (rule deploy_finish_evolves)
      show "gas_left ch \<le> c" using ev by (simp add: evolves_def deploy_child_def new_with_gas_def)
      assume "evm_ok ?m"
      then have "evm_ok e1" "c \<le> U64_MAX" using c by (auto simp: e1m evm_ok_def)
      then show "evm_ok ch" using ev deploy_child_ok by (simp add: evolves_def)
    qed (use assms(2) c deploy_undo_fields(3) in auto)
    with m show ?thesis by (rule evolves_trans)
  qed (use \<open>evolves e e0\<close> in simp)
qed

lemma evolves_selfdestruct: "evolves e (selfdestruct_account a e)"
proof -
  define e1 where "e1 = (if self_address e \<noteq> a
     then e\<lparr>state := set_balance (set_balance (state e) a
              (get_balance (state e) a + get_balance (state e) (self_address e))) (self_address e) 0\<rparr>
     else e)"
  have "evolves e e1" by (auto simp: e1_def evolves_refl writers_ok intro!: evolves_state)
  moreover have "evolves e1 (selfdestruct_account a e)"
    unfolding selfdestruct_account_def Let_def e1_def[symmetric]
    by (auto simp: evolves_refl) (auto simp: evolves_def evm_ok_def remove_account_ok)
  ultimately show ?thesis by (rule evolves_trans)
qed

lemma evolves_laws: "runner_ok rc \<Longrightarrow> vm_full_laws evolves h rc"
proof unfold_locales
  show "evolves e (e\<lparr>stack := snd (stack_pop (stack e))\<rparr>)"
    "evolves e (e\<lparr>stack := snd (stack_push (stack e) v)\<rparr>)"
    "evolves e (e\<lparr>stack := snd (stack_swap (stack e) n)\<rparr>)" for e v n
    using stack_ops_ok by (auto intro!: evolves_stack)
  show "evolves e (next_nonce e)" for e
    by (simp add: next_nonce_def Let_def evolves_def evm_ok_def)
  show "evolves e (e\<lparr>gas_left := gas_left e - g\<rparr>)" for e g by (simp add: evolves_gas)
  show "evolves e (e\<lparr>memory := resize (memory e) n 0\<rparr>)" if "length (memory e) \<le> n" "32 dvd n" for e n
    using that by (simp add: evolves_def evm_ok_def)
  show "evolves e (e\<lparr>memory := m\<rparr>)" if "length m = length (memory e)" for e m
    using that by (simp add: evolves_def evm_ok_def)
  show "evolves e (e\<lparr>accessed_slots := S\<rparr>)" "evolves e (e\<lparr>accessed_addresses := A\<rparr>)" for e S A
    by (simp_all add: evolves_def evm_ok_def)
  show "evolves e (trace_step op g e)" for op g e
    by (subst trace_step_tracer) (simp add: evolves_def evm_ok_def)
  show "evolves e (e\<lparr>logs := logs e @ [l]\<rparr>)" if "\<not> is_static e" for e l
    using that by (simp add: evolves_def evm_ok_def)
  show "evolves e (e\<lparr>state := set_storage (state e) a k v\<rparr>)"
    "evolves e (e\<lparr>state := tstore (state e) a k v\<rparr>)" for e a k v
    by (intro evolves_state writers_ok; assumption)+
  show "is_static e' = is_static e" if "evolves e e'" for e e' using that by (simp add: evolves_def)
qed (rule evolves_refl, erule (1) evolves_trans, rule evolves_pc, rule evolves_pc, rule evolves_pc,
    erule evolves_precompile, erule (1) evolves_call, erule (2) evolves_deploy, rule evolves_selfdestruct)

section \<open>The synchronisations\<close>

lemma foldl_invariant: "P s \<Longrightarrow> (\<And>s x. x \<in> set xs \<Longrightarrow> P s \<Longrightarrow> P (f s x)) \<Longrightarrow> P (foldl f s xs)"
  by (induction xs arbitrary: s) simp_all

lemma evolves_sync_legacy: "evolves e (sync_legacy_state_into_fork e)"
  unfolding sync_legacy_state_into_fork_def Let_def
  by (intro evolves_state foldl_invariant[where P = fork_ok]) (simp_all add: writers_ok)

lemma evolves_sync_fork: "evolves e (sync_fork_into_legacy_state h e)"
proof -
  let ?d = "dirty_order h (dirty_state (state e))"
  have "evolves e (foldl sync_account e ?d) \<and> state (foldl sync_account e ?d) = state e"
  proof (rule foldl_invariant[where P = "\<lambda>s. evolves e s \<and> state s = state e"])
    fix s x assume x: "x \<in> set ?d" and s: "evolves e s \<and> state s = state e"
    have "hm_wf (acc_storage (snd x))" if "fork_ok (state e)"
      using that x by (auto simp: fork_ok_def accounts_ok_def)
    then have "evolves s (sync_account s x)"
      using s by (auto simp: sync_account_def Let_def evolves_def evm_ok_def)
    with s show "evolves e (sync_account s x) \<and> state (sync_account s x) = state e"
      by (auto intro: evolves_trans simp: sync_account_def Let_def)
  qed (simp add: evolves_refl)
  then show ?thesis by (simp add: sync_fork_into_legacy_state_def)
qed

lemma evolves_between_syncs:
  assumes "evolves (sync_legacy_state_into_fork e) e1"
  shows "evolves e (sync_fork_into_legacy_state h e1)"
  by (rule evolves_trans[OF evolves_trans[OF evolves_sync_legacy assms] evolves_sync_fork])

section \<open>The interpreter keeps the relation\<close>

interpretation evolving: vm_run_laws evolves h for h
proof (rule vm_run_laws.intro)
  fix rc :: runner assume "\<And>c r c'. rc c = Done (r, c') \<Longrightarrow> evolves c c'"
  then show "vm_full_laws evolves h rc" by (intro evolves_laws) (simp add: runner_ok_def)
next
  fix e :: evm show "evolves e (e\<lparr>state := clear_transient_storage (state e)\<rparr>)" by (intro evolves_state writers_ok)
qed (rule evolves_between_syncs)

lemmas step_evolves = evolving.nested.keeps_step

lemmas run_evolves = evolving.run_keeps

end
