(* ===== verification/EvmTermination.thy ===== *)
theory EvmTermination
  imports EvmInvariant
begin

text \<open>
  The interpreter always comes to an end.  A handler asks the child runner at most once, for a child
  with less gas (\<open>delegates\<close>); a step that succeeds either uses gas or moves the program counter
  forward; so the recursion of frames and steps is well founded, and for every machine there is fuel
  from which on the outcome is the same and is not \<open>NoFuel\<close>.
\<close>

section \<open>Computations without children\<close>

definition fuel_safe :: "'a vm \<Rightarrow> bool" where
  "fuel_safe m \<longleftrightarrow> (\<forall>e. m e \<noteq> NoFuel)"

lemma safe_control:
  "fuel_safe (ret x)" "fuel_safe (exit_with r)" "fuel_safe (reads f)" "fuel_safe (modifies u)"
  "fuel_safe (some_or_return r y)" "fuel_safe (ok_or_return g z)" "fuel_safe (usize_or_overflow w)"
  "fuel_safe deny_static"
  by (auto simp: fuel_safe_def some_or_return_def ok_or_return_def usize_or_overflow_def deny_static_def
      split: option.splits sum.splits)

lemma safe_bind: "fuel_safe m \<Longrightarrow> (\<And>x. fuel_safe (f x)) \<Longrightarrow> fuel_safe (tbind m f)"
  by (auto simp: fuel_safe_def tbind_def obind_NoFuel_iff split: sum.splits)

lemma safe_if: "fuel_safe m \<Longrightarrow> fuel_safe n \<Longrightarrow> fuel_safe (if c then m else n)"
  by simp

lemma safe_option: "fuel_safe m \<Longrightarrow> (\<And>x. fuel_safe (f x)) \<Longrightarrow> fuel_safe (case_option m f y)"
  by (cases y) simp_all

lemma safe_prod: "(\<And>x y. fuel_safe (f x y)) \<Longrightarrow> fuel_safe (case_prod f p)"
  by (cases p) simp

lemma safe_lift: "(\<And>e. f e \<noteq> NoFuel) \<Longrightarrow> fuel_safe (lift_outcome f)"
  by (auto simp: fuel_safe_def lift_outcome_def obind_NoFuel_iff)

lemma safe_stack: "fuel_safe (pop_with f)" "fuel_safe (push_with f v)"
  by (auto simp: fuel_safe_def pop_with_def push_with_def split: prod.splits sum.splits)

lemma safe_pops: "fuel_safe (pop_or r)" "fuel_safe (pop2_or r)" "fuel_safe (pop3_or r)" "fuel_safe (push_or r v)"
  unfolding pop3_or_def pop2_or_def pop_or_def push_or_def by (intro safe_bind safe_stack safe_control)+

lemma safe_gas: "fuel_safe (charge c)" "fuel_safe (mark_slot_warm k)" "fuel_safe (access_cost a)"
  by (auto simp: fuel_safe_def charge_def mark_slot_warm_def access_cost_def)

lemma safe_memory: "fuel_safe (read_memory a b)" "fuel_safe (write_memory i bs)" "fuel_safe (copy_padded s i d n)"
  "fuel_safe (result_data i n)" "fuel_safe (expand_or_return rs)"
  by (auto simp: read_memory_def result_data_def copy_padded_def write_memory_def expand_or_return_def fuel_safe_def
      obind_NoFuel_iff lift_outcome_def split: sum.splits)

lemma u64_ops_NoFuel [simp]: "mul_u64 a b \<noteq> NoFuel" "add_u64 a b \<noteq> NoFuel" "sub_u64 a b \<noteq> NoFuel"
  by (simp_all add: arith_defs)

lemma memory_cost_NoFuel [simp]: "memory_cost w \<noteq> NoFuel"
  by (simp add: memory_cost_def obind_NoFuel_iff)

lemma safe_touch_memory: "fuel_safe (touch_memory i n)"
  by (auto simp: fuel_safe_def touch_memory_def Let_def obind_NoFuel_iff split: option.splits)

lemma safe_pop_topics: "fuel_safe (pop_topics n)"
proof (induction n)
  case (Suc n)
  then show ?case unfolding pop_topics.simps by (intro safe_bind safe_pops safe_control)
qed (simp add: safe_control del: vm_simps)

lemma safe_jump_swap: "fuel_safe (jump_to r d)" "fuel_safe (op_swap n)"
  by (auto simp: fuel_safe_def jump_to_def op_swap_def split: prod.splits sum.splits)

lemmas safe_intros = safe_bind safe_if safe_option safe_prod safe_control safe_stack safe_pops safe_gas safe_memory
  safe_touch_memory safe_pop_topics safe_jump_swap

lemma safe_arith: "fuel_safe (unop name f)" "fuel_safe (binop name g)" "fuel_safe (triop name k)"
  unfolding unop_def binop_def triop_def by (intro safe_intros)+

lemma safe_mem_ops:
  "fuel_safe op_mstore" "fuel_safe op_mstore8" "fuel_safe op_mload" "fuel_safe op_msize" "fuel_safe op_mcopy"
  "fuel_safe (op_keccak256 h)" "fuel_safe op_sload" "fuel_safe op_sstore" "fuel_safe op_tload" "fuel_safe op_tstore"
  "fuel_safe op_return" "fuel_safe op_revert" "fuel_safe op_calldataload" "fuel_safe op_calldatasize"
  "fuel_safe (copy_from name src)" "fuel_safe op_returndatasize" "fuel_safe op_returndatacopy" "fuel_safe (op_log n)"
  unfolding op_mstore_def op_mstore8_def op_mload_def op_msize_def op_mcopy_def op_keccak256_def op_sload_def
    op_sstore_def op_tload_def op_tstore_def op_return_def op_revert_def op_calldataload_def op_calldatasize_def
    copy_from_def op_returndatasize_def op_returndatacopy_def op_log_def Let_def
  by (intro safe_intros)+

lemma safe_pushes: "fuel_safe (push_address a)" "fuel_safe (push_u256 v)" "fuel_safe (push_read name f)"
  "fuel_safe (charge_account_access a)"
  unfolding push_address_def push_u256_def push_read_def charge_account_access_def by (intro safe_intros)+

lemma safe_env_ops:
  "fuel_safe op_invalid" "fuel_safe op_invalid_opcode" "fuel_safe op_stop" "fuel_safe op_jumpdest"
  "fuel_safe (execute_push_n k)" "fuel_safe op_push1" "fuel_safe op_push2" "fuel_safe (op_dup k)"
  "fuel_safe op_jump" "fuel_safe op_jumpi" "fuel_safe op_address" "fuel_safe op_caller" "fuel_safe op_origin"
  "fuel_safe op_coinbase" "fuel_safe op_callvalue" "fuel_safe op_blockhash" "fuel_safe op_blobhash"
  "fuel_safe op_balance" "fuel_safe op_extcodesize" "fuel_safe (op_extcodehash h)" "fuel_safe op_extcodecopy"
  "fuel_safe op_selfdestruct"
  unfolding op_invalid_def op_invalid_opcode_def op_stop_def op_jumpdest_def execute_push_n_def op_push1_def op_push2_def
    op_dup_def op_jump_def op_jumpi_def op_address_def op_caller_def op_origin_def op_coinbase_def op_callvalue_def
    op_blockhash_def op_blobhash_def op_balance_def op_extcodesize_def op_extcodehash_def op_extcodecopy_def
    op_selfdestruct_def
  by (intro safe_intros safe_pushes)+

lemma safe_call_parts: "fuel_safe (call_operands nv)" "fuel_safe (call_base_gas fs t v ao as ro rs)"
  "fuel_safe (write_output i n bs)"
  unfolding call_operands_def call_base_gas_def calc_static_call_base_gas_def calc_call_base_gas_def write_output_def Let_def
  by (intro safe_intros)+

lemma safe_precompile: "fuel_safe (nested_precompile h t input g)"
  by (auto simp: fuel_safe_def nested_precompile_def Let_def split: sum.splits vm_error.splits)

section \<open>At most one child, with less gas\<close>

definition delegates_to :: "(evm \<Rightarrow> evm \<Rightarrow> bool) \<Rightarrow> (runner \<Rightarrow> 'a vm) \<Rightarrow> bool" where
  "delegates_to L m \<longleftrightarrow> (\<forall>e. (\<exists>x. x \<noteq> NoFuel \<and> (\<forall>rc. m rc e = x)) \<or>
     (\<exists>c k. L c e \<and> (\<forall>rc. m rc e = obind (rc c) k) \<and> (\<forall>y. k y \<noteq> NoFuel)))"

definition gas_le :: "evm \<Rightarrow> evm \<Rightarrow> bool" where "gas_le c e \<longleftrightarrow> gas_left c \<le> gas_left e"
definition gas_less :: "evm \<Rightarrow> evm \<Rightarrow> bool" where "gas_less c e \<longleftrightarrow> gas_left c < gas_left e"

lemma delegates_safe: "fuel_safe m \<Longrightarrow> delegates_to L (\<lambda>rc. m)"
  by (auto simp: delegates_to_def fuel_safe_def)

lemma delegates_then_safe:
  assumes "delegates_to L m" "\<And>x. fuel_safe (f x)"
  shows "delegates_to L (\<lambda>rc. tbind (m rc) f)"
  unfolding delegates_to_def
proof
  fix e
  from assms(1) consider x where "x \<noteq> NoFuel" "\<forall>rc. m rc e = x"
    | c k where "L c e" "\<forall>rc. m rc e = obind (rc c) k" "\<forall>y. k y \<noteq> NoFuel"
    unfolding delegates_to_def by blast
  then show "(\<exists>x. x \<noteq> NoFuel \<and> (\<forall>rc. tbind (m rc) f e = x)) \<or>
     (\<exists>c k. L c e \<and> (\<forall>rc. tbind (m rc) f e = obind (rc c) k) \<and> (\<forall>y. k y \<noteq> NoFuel))"
  proof cases
    case 1
    let ?x = "obind x (\<lambda>re. case fst re of Inl r \<Rightarrow> Done (Inl r, snd re) | Inr y \<Rightarrow> f y (snd re))"
    have "?x \<noteq> NoFuel" using 1(1) assms(2) by (auto simp: obind_NoFuel_iff fuel_safe_def split: sum.splits)
    then show ?thesis using 1(2) by (auto simp: tbind_def)
  next
    case (2 c k)
    let ?k = "\<lambda>y. obind (k y) (\<lambda>re. case fst re of Inl r \<Rightarrow> Done (Inl r, snd re) | Inr y \<Rightarrow> f y (snd re))"
    have "\<forall>y. ?k y \<noteq> NoFuel" using 2(3) assms(2) by (auto simp: obind_NoFuel_iff fuel_safe_def split: sum.splits)
    moreover have "\<forall>rc. tbind (m rc) f e = obind (rc c) ?k" using 2(2) by (simp add: tbind_def obind_assoc)
    ultimately show ?thesis using 2(1) by (intro disjI2 exI[of _ c] exI[of _ ?k] conjI)
  qed
qed

text \<open>A computation without children first; \<open>Q\<close> is what its value and its end satisfy.\<close>

lemma safe_then_delegates:
  assumes "fuel_safe m" "\<And>e x e1. m e = Done (Inr x, e1) \<Longrightarrow> Q x \<and> gas_left e1 \<le> gas_left e"
    and "\<And>x. Q x \<Longrightarrow> delegates_to L (\<lambda>rc. f rc x)"
    and L: "\<And>c e e1. L c e1 \<Longrightarrow> gas_left e1 \<le> gas_left e \<Longrightarrow> L c e"
  shows "delegates_to L (\<lambda>rc. tbind m (f rc))"
  unfolding delegates_to_def
proof
  fix e
  show "(\<exists>x. x \<noteq> NoFuel \<and> (\<forall>rc. tbind m (f rc) e = x)) \<or>
     (\<exists>c k. L c e \<and> (\<forall>rc. tbind m (f rc) e = obind (rc c) k) \<and> (\<forall>y. k y \<noteq> NoFuel))"
  proof (cases "\<exists>x e1. m e = Done (Inr x, e1)")
    case True
    then obtain x e1 where m: "m e = Done (Inr x, e1)" by blast
    with assms(2) have Q: "Q x" "gas_left e1 \<le> gas_left e" by blast+
    have eq: "tbind m (f rc) e = f rc x e1" for rc using m by (simp add: tbind_def)
    from assms(3)[OF Q(1)] consider y where "y \<noteq> NoFuel" "\<forall>rc. f rc x e1 = y"
      | c k where "L c e1" "\<forall>rc. f rc x e1 = obind (rc c) k" "\<forall>y. k y \<noteq> NoFuel"
      unfolding delegates_to_def by blast
    then show ?thesis unfolding eq using L[OF _ Q(2)] by cases blast+
  next
    case False
    then have "tbind m (f rc) e = tbind m (\<lambda>_. ret undefined) e" for rc
      by (cases "m e") (auto simp: tbind_def split: sum.splits)
    moreover have "fuel_safe (tbind m (\<lambda>_. ret undefined))" by (intro safe_intros assms(1))
    ultimately show ?thesis by (auto simp: fuel_safe_def)
  qed
qed

lemma gas_mono: "gas_le c e1 \<Longrightarrow> gas_left e1 \<le> gas_left e \<Longrightarrow> gas_le c e"
  "gas_less c e1 \<Longrightarrow> gas_left e1 \<le> gas_left e \<Longrightarrow> gas_less c e"
  by (simp_all add: gas_le_def gas_less_def)

definition gas_order :: "(evm \<Rightarrow> evm \<Rightarrow> bool) \<Rightarrow> bool" where
  "gas_order L \<longleftrightarrow> (\<forall>c e e1. L c e1 \<longrightarrow> gas_left e1 \<le> gas_left e \<longrightarrow> L c e)"

lemma gas_orders: "gas_order gas_le" "gas_order gas_less"
  by (auto simp: gas_order_def gas_le_def gas_less_def)

lemma keeps_gas: "(\<And>b. vm_keeps b evolves m) \<Longrightarrow> m e = Done (r, e1) \<Longrightarrow> gas_left e1 \<le> gas_left e"
  using vm_keepsD[of "is_static e" evolves m e r e1] by (simp add: evolves_def)

lemma delegates_bind:
  assumes "gas_order L" "fuel_safe m" "\<And>b. vm_keeps b evolves m" "\<And>x. delegates_to L (\<lambda>rc. f rc x)"
  shows "delegates_to L (\<lambda>rc. tbind m (f rc))"
  using assms keeps_gas[OF assms(3)]
  by (intro safe_then_delegates[where Q = "\<lambda>_. True"]) (auto simp: gas_order_def)

lemma delegates_charge:
  assumes "0 < g" "delegates_to gas_le f"
  shows "delegates_to gas_less (\<lambda>rc. tbind (charge g) (\<lambda>_. f rc))"
  unfolding delegates_to_def
proof
  fix e
  show "(\<exists>x. x \<noteq> NoFuel \<and> (\<forall>rc. tbind (charge g) (\<lambda>_. f rc) e = x)) \<or>
     (\<exists>c k. gas_less c e \<and> (\<forall>rc. tbind (charge g) (\<lambda>_. f rc) e = obind (rc c) k) \<and> (\<forall>y. k y \<noteq> NoFuel))"
  proof (cases "gas_left e < g")
    case True
    then have "tbind (charge g) (\<lambda>_. f rc) e = Done (Inl OutOfGas, e)" for rc
      by (simp add: tbind_def charge_def)
    then show ?thesis by (intro disjI1) simp
  next
    case False
    let ?e1 = "e\<lparr>gas_left := gas_left e - g\<rparr>"
    have eq: "tbind (charge g) (\<lambda>_. f rc) e = f rc ?e1" for rc
      using False by (simp add: tbind_def charge_def)
    have lt: "gas_le c ?e1 \<Longrightarrow> gas_less c e" for c
      using False assms(1) by (auto simp: gas_le_def gas_less_def)
    from assms(2) consider y where "y \<noteq> NoFuel" "\<forall>rc. f rc ?e1 = y"
      | c k where "gas_le c ?e1" "\<forall>rc. f rc ?e1 = obind (rc c) k" "\<forall>y. k y \<noteq> NoFuel"
      unfolding delegates_to_def by blast
    then show ?thesis unfolding eq using lt by cases blast+
  qed
qed

lemma delegates_nested_call:
  "delegates_to (\<lambda>c e. gas_left c \<le> g) (\<lambda>rc. nested_call rc fs dl t v input g)"
  unfolding delegates_to_def nested_call_def Let_def
proof (rule allI, rule disjI2)
  fix e :: evm
  let ?e1 = "e\<lparr>gas_left := gas_left e - g\<rparr>"
  let ?frame = "make_frame ?e1 fs t v input g"
  let ?ss = "snapshot (state ?e1)"
  let ?c = "call_child (?e1\<lparr>state := snd ?ss\<rparr>) ?frame (make_context ?e1 dl ?frame)
     (get_code (state ?e1) (cf_target ?frame))"
  let ?k = "\<lambda>rch. Done (Inr (call_outcome (fst rch)), call_finish (fst ?ss) (fst rch) (snd rch) (?e1\<lparr>state := snd ?ss\<rparr>))"
  show "\<exists>c k. gas_left c \<le> g \<and> (\<forall>rc. obind (rc ?c) ?k = obind (rc c) k) \<and> (\<forall>y. k y \<noteq> NoFuel)"
  proof (rule exI[of _ ?c], rule exI[of _ ?k], intro conjI allI)
    show "gas_left ?c \<le> g" by (simp add: call_child_fields make_frame_def)
  qed simp_all
qed

lemma delegates_call_tail:
  "delegates_to (\<lambda>c e. gas_left c \<le> g) (\<lambda>rc. call_tail h rc fs dl t v input g ro rs)"
proof (cases "is_precompile t")
  case True
  then show ?thesis unfolding call_tail_def
    by (simp only: if_True) (intro delegates_safe safe_intros safe_call_parts safe_precompile)
next
  case False
  then show ?thesis unfolding call_tail_def
    by (simp only: if_False) (intro delegates_then_safe delegates_nested_call safe_intros safe_call_parts)
qed

lemma delegates_call_gas:
  "delegates_to gas_le (\<lambda>rc. tbind (reads (\<lambda>e. calc_eip150_call_gas (gas_left e) w)) (\<lambda>g.
     call_tail h rc fs dl t v input g ro rs))"
  unfolding delegates_to_def
proof
  fix e :: evm
  let ?g = "calc_eip150_call_gas (gas_left e) w"
  from delegates_call_tail[of ?g h fs dl t v input ro rs] have
    "(\<exists>x. x \<noteq> NoFuel \<and> (\<forall>rc. call_tail h rc fs dl t v input ?g ro rs e = x)) \<or>
     (\<exists>c k. gas_left c \<le> ?g \<and> (\<forall>rc. call_tail h rc fs dl t v input ?g ro rs e = obind (rc c) k) \<and> (\<forall>y. k y \<noteq> NoFuel))"
    unfolding delegates_to_def by blast
  moreover have "gas_left c \<le> ?g \<Longrightarrow> gas_le c e" for c
    using call_gas_le[of "gas_left e" w] by (simp add: gas_le_def)
  ultimately show "(\<exists>x. x \<noteq> NoFuel \<and> (\<forall>rc. tbind (reads (\<lambda>e. calc_eip150_call_gas (gas_left e) w)) (\<lambda>g.
       call_tail h rc fs dl t v input g ro rs) e = x)) \<or>
     (\<exists>c k. gas_le c e \<and> (\<forall>rc. tbind (reads (\<lambda>e. calc_eip150_call_gas (gas_left e) w)) (\<lambda>g.
       call_tail h rc fs dl t v input g ro rs) e = obind (rc c) k) \<and> (\<forall>y. k y \<noteq> NoFuel))"
    unfolding vm_simps by blast
qed

lemma calc_call_base_gas_ge:
  "calc_call_base_gas t v ao as ro rs e = Done (Inr g, e1) \<Longrightarrow> 800 \<le> g"
  by (auto simp: calc_call_base_gas_def tbind_Done access_cost_def some_or_return_def usize_or_overflow_def
      ok_or_return_def checked_Some Option.bind_eq_Some_conv split: option.splits sum.splits if_splits)

lemma call_base_gas_pos: "call_base_gas fs t v ao as ro rs e = Done (Inr g, e1) \<Longrightarrow> 0 < g"
proof (cases fs)
  case True
  assume "call_base_gas fs t v ao as ro rs e = Done (Inr g, e1)"
  with True obtain n e2 where "calc_call_base_gas t 0 ao as ro rs e = Done (Inr n, e2)"
    "some_or_return (VmErr Overflow) (checked_sub n 660) e2 = Done (Inr g, e1)"
    by (auto simp: call_base_gas_def calc_static_call_base_gas_def tbind_Done)
  with calc_call_base_gas_ge[of t 0 ao as ro rs e n e2] show ?thesis
    by (auto simp: some_or_return_def checked_sub_def split: if_splits)
next
  case False
  assume "call_base_gas fs t v ao as ro rs e = Done (Inr g, e1)"
  with False have "800 \<le> g" by (auto simp: call_base_gas_def intro: calc_call_base_gas_ge)
  then show ?thesis by simp
qed

lemma delegates_case:
  "(\<And>a b c d f g w. delegates_to L (\<lambda>rc. m rc a b c d f g w)) \<Longrightarrow>
   delegates_to L (\<lambda>rc. case p of (a, b, c, d, f, g, w) \<Rightarrow> m rc a b c d f g w)"
  by (cases p) simp

lemma delegates_paid:
  assumes "0 < g"
  shows "delegates_to gas_less (\<lambda>rc. tbind (charge g) (\<lambda>_. tbind (expand_or_return rs) (\<lambda>_.
    tbind (read_memory x y) (\<lambda>input. tbind (reads (\<lambda>e. calc_eip150_call_gas (gas_left e) w)) (\<lambda>call_gas.
    call_tail h rc fs dl t v input call_gas ro n)))))"
  by (intro delegates_charge[OF assms] delegates_call_gas
      delegates_bind[where m = "expand_or_return _", OF gas_orders(1)]
      delegates_bind[where m = "read_memory _ _", OF gas_orders(1)] safe_memory evolving.nested.keeps_prims)

lemma delegates_priced:
  "delegates_to gas_less (\<lambda>rc. tbind (call_base_gas fs t bv ao as ro rs) (\<lambda>base_gas.
    tbind (charge base_gas) (\<lambda>_. tbind (expand_or_return ranges) (\<lambda>_.
    tbind (read_memory x y) (\<lambda>input. tbind (reads (\<lambda>e. calc_eip150_call_gas (gas_left e) w)) (\<lambda>call_gas.
    call_tail h rc fs dl t v input call_gas i n))))))"
  by (rule safe_then_delegates[where Q = "\<lambda>g. 0 < g"])
    (auto intro: safe_call_parts delegates_paid call_base_gas_pos gas_mono keeps_gas[OF evolving.nested.keeps_call_base_gas])

lemma delegates_execute_call: "delegates_to gas_less (\<lambda>rc. execute_call h rc fs dl)"
  unfolding execute_call_def
  by (intro delegates_bind[where m = "call_operands _", OF gas_orders(2)] delegates_case
      delegates_bind[where m = "usize_or_overflow _", OF gas_orders(2)] delegates_priced
      safe_call_parts safe_control evolving.nested.keeps_call_operands evolving.nested.keeps_control)

lemma delegates_deploy:
  "delegates_to gas_le (\<lambda>rc. nested_deploy rc a v input)"
  unfolding delegates_to_def
proof
  fix e :: evm
  let ?g = "calc_eip150_call_gas (gas_left e) (of_nat (gas_left e))"
  let ?e0 = "e\<lparr>gas_left := gas_left e - ?g\<rparr>"
  obtain sb tb sid e1 where tr: "deploy_transfer ?e0 (self_address ?e0) a v = (sb, tb, sid, e1)"
    by (metis prod_cases4)
  let ?c = "deploy_child e1 a v input ?g"
  let ?k = "\<lambda>rch. Done (Inr (fst (deploy_finish (deploy_undo (self_address ?e0) sb a tb sid) a (fst rch) (snd rch) e1)),
    snd (deploy_finish (deploy_undo (self_address ?e0) sb a tb sid) a (fst rch) (snd rch) e1))"
  show "(\<exists>x. x \<noteq> NoFuel \<and> (\<forall>rc. nested_deploy rc a v input e = x)) \<or>
     (\<exists>c k. gas_le c e \<and> (\<forall>rc. nested_deploy rc a v input e = obind (rc c) k) \<and> (\<forall>y. k y \<noteq> NoFuel))"
  proof (cases "is_static e \<or> unwrap_or 0 (hm_get (balances e) (self_address ?e0)) < v")
    case True
    then show ?thesis by (intro disjI1) (auto simp: nested_deploy_def execute_deploy_def Let_def)
  next
    case False
    have "nested_deploy rc a v input e = obind (rc ?c) ?k" for rc
      using False unfolding nested_deploy_def execute_deploy_def Let_def by (simp add: tr obind_assoc)
    moreover have "gas_le ?c e"
      using call_gas_le[of "gas_left e" "of_nat (gas_left e)"] by (simp add: gas_le_def deploy_child_def new_with_gas_def)
    ultimately show ?thesis by (intro disjI2 exI[of _ ?c] exI[of _ ?k]) simp
  qed
qed

lemma delegates_deploy_then:
  "delegates_to gas_le (\<lambda>rc. tbind (nested_deploy rc a v input) (\<lambda>result. case result of
       Inr a \<Rightarrow> push_or (Error ''Stack Overflow on CREATE'') a
     | Inl StaticCallViolation \<Rightarrow> exit_with (VmErr StaticCallViolation)
     | Inl _ \<Rightarrow> push_or (Error ''Stack Overflow on CREATE'') 0))"
  by (intro delegates_then_safe[OF delegates_deploy])
    (simp add: safe_pops safe_control split: sum.splits vm_error.splits)

lemma next_nonce_keeps: "vm_keeps b evolves (modifies next_nonce)"
  by (simp add: vm_keeps_def next_nonce_def Let_def evolves_def evm_ok_def)

lemma create_gas_pos:
  "some_or_return r (Option.bind (checked_add 32000 x) (\<lambda>c. checked_add c y)) e = Done (Inr g, e1) \<Longrightarrow> 0 < g"
  by (auto simp: some_or_return_def checked_Some Option.bind_eq_Some_conv split: option.splits)

lemma delegates_create_paid:
  assumes "0 < g"
  shows "delegates_to gas_less (\<lambda>rc. tbind (charge g) (\<lambda>_. tbind (expand_or_return rs) (\<lambda>_.
     tbind (read_memory x y) (\<lambda>init_code. tbind (reads (new_address h salt init_code)) (\<lambda>new_addr.
     tbind (modifies next_nonce) (\<lambda>_. tbind (nested_deploy rc new_addr v init_code) (\<lambda>result. case result of
       Inr a \<Rightarrow> push_or (Error ''Stack Overflow on CREATE'') a
     | Inl StaticCallViolation \<Rightarrow> exit_with (VmErr StaticCallViolation)
     | Inl _ \<Rightarrow> push_or (Error ''Stack Overflow on CREATE'') 0)))))))"
  by (intro delegates_charge[OF assms] delegates_deploy_then next_nonce_keeps
      delegates_bind[where m = "expand_or_return _", OF gas_orders(1)]
      delegates_bind[where m = "read_memory _ _", OF gas_orders(1)]
      delegates_bind[where m = "reads _", OF gas_orders(1)] delegates_bind[where m = "modifies _", OF gas_orders(1)]
      safe_memory safe_control evolving.nested.keeps_prims evolving.nested.keeps_control)

lemma delegates_execute_create: "delegates_to gas_less (\<lambda>rc. execute_create h rc v ow sw salt)"
proof -
  have "delegates_to gas_less (\<lambda>rc. tbind (some_or_return (VmErr Overflow)
      (Option.bind (checked_add 32000 xp) (\<lambda>cost. checked_add cost hg))) (\<lambda>base_gas.
     tbind (charge base_gas) (\<lambda>_. tbind (expand_or_return rs) (\<lambda>_.
     tbind (read_memory x y) (\<lambda>init_code. tbind (reads (new_address h salt init_code)) (\<lambda>new_addr.
     tbind (modifies next_nonce) (\<lambda>_. tbind (nested_deploy rc new_addr v init_code) (\<lambda>result. case result of
       Inr a \<Rightarrow> push_or (Error ''Stack Overflow on CREATE'') a
     | Inl StaticCallViolation \<Rightarrow> exit_with (VmErr StaticCallViolation)
     | Inl _ \<Rightarrow> push_or (Error ''Stack Overflow on CREATE'') 0))))))))" for xp hg rs x y
    by (rule safe_then_delegates[where Q = "\<lambda>g. 0 < g"])
      (auto intro: safe_control delegates_create_paid create_gas_pos gas_mono keeps_gas[OF evolving.nested.keeps_some_or])
  then show ?thesis unfolding execute_create_def
    by (intro delegates_bind[where m = "usize_or_overflow _", OF gas_orders(2)]
        delegates_bind[where m = "reads (\<lambda>e. memory_expansion_cost e _)", OF gas_orders(2)]
        delegates_bind[where m = "ok_or_return _ _", OF gas_orders(2)]
        safe_control evolving.nested.keeps_control)
qed

lemma delegates_case3:
  "(\<And>a b c. delegates_to L (\<lambda>rc. m rc a b c)) \<Longrightarrow> delegates_to L (\<lambda>rc. case p of (a, b, c) \<Rightarrow> m rc a b c)"
  by (cases p) simp

lemma delegates_nested_ops:
  "delegates_to gas_less (\<lambda>rc. op_call h rc)" "delegates_to gas_less (\<lambda>rc. op_delegatecall h rc)"
  "delegates_to gas_less (\<lambda>rc. op_staticcall h rc)" "delegates_to gas_less (\<lambda>rc. op_create h rc)"
  "delegates_to gas_less (\<lambda>rc. op_create2 h rc)"
  unfolding op_call_def op_delegatecall_def op_staticcall_def op_create_def op_create2_def
  by (intro delegates_execute_call delegates_execute_create delegates_case3
      delegates_bind[where m = "deny_static", OF gas_orders(2)] delegates_bind[where m = "pop3_or _", OF gas_orders(2)]
      delegates_bind[where m = "pop_or _", OF gas_orders(2)] safe_control safe_pops evolving.nested.keeps_prims
      evolving.nested.keeps_deny_static)+

lemma delegates_table_upd:
  "delegates_to L (\<lambda>rc. T rc op) \<Longrightarrow> delegates_to L (\<lambda>rc. x rc) \<Longrightarrow> delegates_to L (\<lambda>rc. ((T rc)(a := x rc)) op)"
  by (cases "op = a") simp_all

lemma safe_dispatch_core: "fuel_safe (dispatch_core h op)"
  unfolding dispatch_core_def dispatch_push_def dispatch_arith_def arith_op_defs
  by (intro table_upd[where P = fuel_safe] safe_env_ops safe_arith safe_mem_ops)

lemma delegates_dispatch: "delegates_to gas_less (\<lambda>rc. dispatch_table h rc op)"
  unfolding dispatch_table_def dispatch_context_def op_calldatacopy_def op_codecopy_def
    op_codesize_def op_gasprice_def op_timestamp_def op_number_def op_prevrandao_def op_gaslimit_def
    op_chainid_def op_basefee_def op_blobbasefee_def op_gas_def op_selfbalance_def
  by (intro delegates_table_upd delegates_nested_ops delegates_safe safe_dispatch_core safe_mem_ops safe_env_ops
      safe_pushes safe_jump_swap)

section \<open>Progress of a step\<close>

definition same_pc :: "evm \<Rightarrow> evm \<Rightarrow> bool" where
  "same_pc e e' \<longleftrightarrow> pc e' = pc e \<and> is_static e' = is_static e"

lemma same_pc_deploy: "nested_deploy rc a v input e = Done (r, e') \<Longrightarrow> same_pc e e'"
proof -
  have undo: "same_pc e0 (deploy_undo s sb a tb sid e1) \<longleftrightarrow> same_pc e0 e1" for e0 s sb a tb sid e1
    by (simp add: same_pc_def deploy_undo_def)
  have commit: "same_pc e0 (deploy_commit e1 ch a c d) \<longleftrightarrow> same_pc e0 e1" for e0 e1 ch a c d
    by (simp add: same_pc_def deploy_commit_def)
  have finish: "same_pc e1 (snd (deploy_finish (deploy_undo s sb a tb sid) a res ch e1))" for s sb a tb sid res ch e1
    unfolding deploy_finish_def Let_def
    by (auto simp: undo commit split: execution_result.splits option.splits) (simp_all add: same_pc_def)
  assume run: "nested_deploy rc a v input e = Done (r, e')"
  define e0 where "e0 = e\<lparr>gas_left := gas_left e - calc_eip150_call_gas (gas_left e) (of_nat (gas_left e))\<rparr>"
  have "same_pc e e0" by (simp add: e0_def same_pc_def)
  moreover have "same_pc e0 e'"
  proof (cases "e' = e0")
    case False
    obtain sb tb sid e1 where tr: "deploy_transfer e0 (self_address e0) a v = (sb, tb, sid, e1)"
      by (metis prod_cases4)
    with run False obtain x res ch where e': "deploy_finish (deploy_undo (self_address e0) sb a tb sid) a res ch e1 = (x, e')"
      unfolding nested_deploy_def execute_deploy_def Let_def e0_def[symmetric]
      by (auto simp: obind_Done_iff split: if_splits)
    have "same_pc e0 e1" unfolding same_pc_def by (subst (1 2) deploy_transfer_eq(1)[OF tr]) simp
    moreover have "same_pc e1 e'" using finish[of e1 "self_address e0" sb a tb sid res ch] by (simp add: e')
    ultimately show ?thesis by (simp add: same_pc_def)
  qed (simp add: same_pc_def)
  ultimately show ?thesis by (simp add: same_pc_def)
qed

lemma same_pc_call: "nested_call rc fs dl t v input g e = Done (r, e') \<Longrightarrow> same_pc e e'"
  by (auto simp: nested_call_def Let_def obind_Done_iff same_pc_def call_finish_def split: if_splits)

lemma same_pc_precompile: "nested_precompile h t input g e = Done (r, e') \<Longrightarrow> same_pc e e'"
  by (auto simp: nested_precompile_def Let_def same_pc_def split: sum.splits vm_error.splits)

interpretation same_pc: vm_call_laws same_pc h rc for h rc
  by unfold_locales (auto simp: same_pc_deploy same_pc_call same_pc_precompile,
      simp_all add: same_pc_def next_nonce_def selfdestruct_account_def Let_def)

lemma free_table_upd:
  "(gas_table op = 0 \<Longrightarrow> P (t op)) \<Longrightarrow> (gas_table a = 0 \<Longrightarrow> P x) \<Longrightarrow> gas_table op = 0 \<Longrightarrow> P ((t(a := x)) op)"
  by (cases "op = a") simp_all

text \<open>The handlers that move the program counter have a price in the table.\<close>

lemma priced:
  "gas_table OP_PUSH1 \<noteq> 0" "gas_table OP_PUSH2 \<noteq> 0" "gas_table OP_JUMP \<noteq> 0" "gas_table OP_JUMPI \<noteq> 0"
  by (simp_all add: gas_table_def gas_table_2_def gas_table_1_def fill_range_def)

lemma priced_push: "OP_PUSH3 \<le> op \<Longrightarrow> op \<le> OP_PUSH32 \<Longrightarrow> gas_table op \<noteq> 0"
proof -
  assume op: "OP_PUSH3 \<le> op" "op \<le> OP_PUSH32"
  then have "op \<noteq> OP_MSIZE" "op \<noteq> OP_MCOPY" "op \<noteq> OP_JUMPDEST" "op \<noteq> OP_JUMP" "op \<noteq> OP_JUMPI"
    "op \<noteq> OP_SLOAD" "op \<noteq> OP_SSTORE" "op \<noteq> OP_TLOAD" "op \<noteq> OP_TSTORE"
    by (auto simp: word_le_nat_alt)
  with op show ?thesis by (simp add: gas_table_def gas_table_2_def fill_range_def)
qed

lemma free_dispatch_push: "gas_table op = 0 \<Longrightarrow> dispatch_push h op = dispatch_arith h op"
proof -
  assume "gas_table op = 0"
  then have ne: "op \<noteq> a" if "OP_PUSH3 \<le> a" "a \<le> OP_PUSH32" for a using priced_push[OF that] by auto
  show ?thesis unfolding dispatch_push_def fun_upd_apply
    by (simp add: ne[of OP_PUSH3] ne[of OP_PUSH4] ne[of OP_PUSH5] ne[of OP_PUSH6] ne[of OP_PUSH7] ne[of OP_PUSH8]
        ne[of OP_PUSH9] ne[of OP_PUSH10] ne[of OP_PUSH11] ne[of OP_PUSH12] ne[of OP_PUSH13] ne[of OP_PUSH14]
        ne[of OP_PUSH15] ne[of OP_PUSH16] ne[of OP_PUSH17] ne[of OP_PUSH18] ne[of OP_PUSH19] ne[of OP_PUSH20]
        ne[of OP_PUSH21] ne[of OP_PUSH22] ne[of OP_PUSH23] ne[of OP_PUSH24] ne[of OP_PUSH25] ne[of OP_PUSH26]
        ne[of OP_PUSH27] ne[of OP_PUSH28] ne[of OP_PUSH29] ne[of OP_PUSH30] ne[of OP_PUSH31] ne[of OP_PUSH32])
qed

lemma same_pc_free_arith: "gas_table op = 0 \<Longrightarrow> vm_keeps b same_pc (dispatch_arith h op)"
  unfolding dispatch_arith_def arith_op_defs
  by (rule free_table_upd[where P = "vm_keeps b same_pc"] | erule priced(1,2)[THEN notE] | assumption
      | rule same_pc.keeps_trivial same_pc.keeps_arith same_pc.keeps_mem_handlers)+

lemma same_pc_free_core: "gas_table op = 0 \<Longrightarrow> vm_keeps b same_pc (dispatch_core h op)"
  unfolding dispatch_core_def arith_op_defs
  by (rule free_table_upd[where P = "vm_keeps b same_pc"] | erule priced(3,4)[THEN notE] | assumption
      | rule same_pc.keeps_trivial same_pc.keeps_arith same_pc.keeps_mem_handlers same_pc.keeps_write_handlers
      | (subst free_dispatch_push, assumption, erule same_pc_free_arith))+

lemma same_pc_free: "gas_table op = 0 \<Longrightarrow> vm_keeps b same_pc (dispatch_table h rc op)"
  unfolding dispatch_table_def dispatch_context_def op_calldatacopy_def op_codecopy_def
    op_codesize_def op_gasprice_def op_timestamp_def op_number_def op_prevrandao_def op_gaslimit_def
    op_chainid_def op_basefee_def op_blobbasefee_def op_gas_def op_selfbalance_def
  by (intro free_table_upd[where P = "vm_keeps b same_pc"] same_pc_free_core same_pc.keeps_mem_handlers
      same_pc.keeps_write_handlers same_pc.keeps_env_handlers same_pc.keeps_call_handlers)

definition progress :: "(evm \<times> evm) set" where
  "progress = inv_image (less_than <*lex*> less_than) (\<lambda>e. (gas_left e, length (code e) - pc e))"

lemma wf_progress: "wf progress"
  unfolding progress_def by (intro wf_inv_image wf_lex_prod wf_less_than)

lemma step_progress:
  assumes "pc e < length (code e)" "step h (run_child n h) e = Done (Halt, e')"
  shows "(e', e) \<in> progress"
proof -
  let ?op = "code e ! pc e"
  have gas: "gas_table ?op \<le> gas_left e"
    using assms by (auto simp: step_def Let_def not_le[symmetric] split: if_splits)
  define e1 where "e1 = trace_step ?op (gas_table ?op) e"
  define e2 where "e2 = e1\<lparr>gas_left := gas_left e1 - gas_table ?op, pc := pc e1 + 1\<rparr>"
  have e2: "gas_left e2 = gas_left e - gas_table ?op" "pc e2 = pc e + 1" "code e2 = code e"
    by (simp_all add: e2_def e1_def)
  obtain r where d: "dispatch_table h (run_child n h) ?op e2 = Done (r, e')"
    using assms(2) unfolding step_eq[OF assms(1) gas] e1_def[symmetric] e2_def[symmetric]
    by (auto simp: obind_Done_iff)
  have ev: "evolves e2 e'" using vm_keepsD[OF evolving.nested.keeps_dispatch refl d] .
  show ?thesis
  proof (cases "gas_table ?op = 0")
    case True
    then have "same_pc e2 e'" using vm_keepsD[OF same_pc_free refl d] by simp
    then show ?thesis using ev e2 assms(1) by (auto simp: progress_def same_pc_def evolves_def)
  next
    case False
    then show ?thesis using ev e2 gas by (auto simp: progress_def evolves_def)
  qed
qed

section \<open>Enough fuel\<close>

definition settles :: "host \<Rightarrow> evm \<Rightarrow> nat \<Rightarrow> bool" where
  "settles h e n \<longleftrightarrow> run_without_sync n h e \<noteq> NoFuel \<and>
     (\<forall>m \<ge> n. run_without_sync m h e = run_without_sync n h e)"

lemma settlesD: "settles h e n \<Longrightarrow> n \<le> m \<Longrightarrow> run_without_sync m h e = run_without_sync n h e"
  "settles h e n \<Longrightarrow> run_without_sync n h e \<noteq> NoFuel"
  unfolding settles_def by blast+

lemma settlesI:
  "run_without_sync n h e \<noteq> NoFuel \<Longrightarrow> (\<And>m. n \<le> m \<Longrightarrow> run_without_sync m h e = run_without_sync n h e) \<Longrightarrow> settles h e n"
  unfolding settles_def by blast

lemma settles_mono: "settles h e n \<Longrightarrow> n \<le> m \<Longrightarrow> settles h e m"
proof (rule settlesI)
  assume s: "settles h e n" "n \<le> m"
  show "run_without_sync m h e \<noteq> NoFuel" unfolding settlesD(1)[OF s] using s(1) by (rule settlesD)
  show "run_without_sync k h e = run_without_sync m h e" if "m \<le> k" for k
    using settlesD(1)[OF s] settlesD(1)[OF s(1), of k] s(2) that by simp
qed

lemma settles_child:
  assumes "settles h (sync_legacy_state_into_fork c) n"
  shows "run_child n h c \<noteq> NoFuel" "n \<le> m \<Longrightarrow> run_child m h c = run_child n h c"
proof -
  show "run_child n h c \<noteq> NoFuel" using settlesD(2)[OF assms] by (simp add: run_child_def obind_NoFuel_iff)
  show "run_child m h c = run_child n h c" if "n \<le> m" unfolding run_child_def settlesD(1)[OF assms that] ..
qed

lemma settles_step:
  assumes step: "\<And>m. n \<le> m \<Longrightarrow> step h (run_child m h) e = s" and "s \<noteq> NoFuel"
    and rest: "\<And>e'. s = Done (Halt, e') \<Longrightarrow> settles h e' n"
  shows "settles h e (Suc n)"
proof -
  define out where "out = (if pc e < length (code e)
      then obind s (\<lambda>re. if fst re \<noteq> Halt then Done re else run_without_sync n h (snd re)) else Done (Halt, e))"
  have eq: "run_without_sync (Suc m) h e = out" if "n \<le> m" for m
  proof -
    have "(if fst re \<noteq> Halt then Done re else run_without_sync m h (snd re)) =
        (if fst re \<noteq> Halt then Done re else run_without_sync n h (snd re))" if "s = Done re" for re
    proof (cases "fst re = Halt")
      case True
      then have "settles h (snd re) n" using that by (intro rest) (cases re, simp)
      with True show ?thesis using settlesD(1)[OF _ \<open>n \<le> m\<close>] by simp
    qed simp
    then show ?thesis unfolding run_without_sync_Suc step[OF that] out_def by (cases s) auto
  qed
  have "out \<noteq> NoFuel" unfolding out_def
  proof (cases s)
    case (Done re)
    then show "(if pc e < length (code e)
      then obind s (\<lambda>re. if fst re \<noteq> Halt then Done re else run_without_sync n h (snd re)) else Done (Halt, e)) \<noteq> NoFuel"
      using rest[of "snd re"] settlesD(2)[of h "snd re" n] by (cases re) auto
  qed (use assms(2) in auto)
  then show ?thesis
    using eq by (intro settlesI) (metis Suc_le_D Suc_le_mono order_refl)+
qed

text \<open>
  The outcome of a step does not depend on the runner from some fuel on; \<open>sub\<close> gives that fuel for the
  children.
\<close>

lemma step_settles:
  assumes sub: "\<And>c. gas_left c < gas_left e \<Longrightarrow> \<exists>n. settles h (sync_legacy_state_into_fork c) n"
  shows "\<exists>n s. s \<noteq> NoFuel \<and> (\<forall>m \<ge> n. step h (run_child m h) e = s)"
proof (cases "pc e < length (code e) \<and> gas_table (code e ! pc e) \<le> gas_left e")
  case False
  then have "step h rc e = (if pc e \<ge> length (code e) then Done (Halt, e) else Done (OutOfGas, e))" for rc
    by (auto simp: step_def Let_def not_le)
  then show ?thesis
    by (intro exI[of _ 0] exI[of _ "if pc e \<ge> length (code e) then Done (Halt, e) else Done (OutOfGas, e)"]) simp
next
  case True
  define e1 where "e1 = trace_step (code e ! pc e) (gas_table (code e ! pc e)) e"
  define e2 where "e2 = e1\<lparr>gas_left := gas_left e1 - gas_table (code e ! pc e), pc := pc e1 + 1\<rparr>"
  have step: "step h rc e = obind (dispatch_table h rc (code e ! pc e) e2) (\<lambda>re. Done (handler_result (fst re), snd re))"
    for rc using True unfolding e2_def e1_def by (intro step_eq) simp_all
  have le: "gas_left e2 \<le> gas_left e" by (simp add: e2_def e1_def)
  from delegates_dispatch[of h "code e ! pc e"] consider
      x where "x \<noteq> NoFuel" "\<forall>rc. dispatch_table h rc (code e ! pc e) e2 = x"
    | c k where "gas_less c e2" "\<forall>rc. dispatch_table h rc (code e ! pc e) e2 = obind (rc c) k" "\<forall>y. k y \<noteq> NoFuel"
    unfolding delegates_to_def by blast
  then show ?thesis
  proof cases
    case 1
    then show ?thesis unfolding step
      by (intro exI[of _ 0] exI[of _ "obind x (\<lambda>re. Done (handler_result (fst re), snd re))"])
        (simp add: obind_NoFuel_iff)
  next
    case (2 c k)
    from 2(1) le have "gas_left c < gas_left e" by (simp add: gas_less_def)
    from sub[OF this] obtain n where n: "settles h (sync_legacy_state_into_fork c) n" by blast
    let ?s = "obind (obind (run_child n h c) k) (\<lambda>re. Done (handler_result (fst re), snd re))"
    have "?s \<noteq> NoFuel" using settles_child(1)[OF n] 2(3) by (simp add: obind_NoFuel_iff)
    moreover have "step h (run_child m h) e = ?s" if "n \<le> m" for m
      unfolding step 2(2)[rule_format] settles_child(2)[OF n that] ..
    ultimately show ?thesis by blast
  qed
qed

lemma sync_legacy_gas [simp]: "gas_left (sync_legacy_state_into_fork c) = gas_left c"
  by (simp add: sync_legacy_state_into_fork_def Let_def)

lemma run_settles: "\<exists>n. settles h e n"
proof (induction e rule: wf_induct_rule[OF wf_progress])
  case (1 e)
  show ?case
  proof (cases "pc e < length (code e)")
    case False
    then have "run_without_sync (Suc n) h e = Done (Halt, e)" for n by (simp add: run_without_sync_Suc)
    then have "settles h e (Suc 0)" by (intro settlesI) (simp_all, metis Suc_le_D)
    then show ?thesis ..
  next
    case True
    have "\<exists>n. settles h (sync_legacy_state_into_fork c) n" if "gas_left c < gas_left e" for c
      using that by (intro 1) (simp add: progress_def)
    then obtain n s where s: "s \<noteq> NoFuel" "\<And>m. n \<le> m \<Longrightarrow> step h (run_child m h) e = s"
      using step_settles[of e h] by blast
    have "\<exists>k. \<forall>e'. s = Done (Halt, e') \<longrightarrow> settles h e' k"
    proof (cases "\<exists>e'. s = Done (Halt, e')")
      case True
      then obtain e' where e': "s = Done (Halt, e')" by blast
      with s(2)[OF order_refl] \<open>pc e < length (code e)\<close> have "(e', e) \<in> progress" by (intro step_progress) simp_all
      then obtain k where "settles h e' k" using 1 by blast
      with e' show ?thesis by auto
    qed auto
    then obtain k where k: "\<And>e'. s = Done (Halt, e') \<Longrightarrow> settles h e' k" by blast
    have "settles h e (Suc (max n k))"
      using s k by (intro settles_step[where s = s]) (auto intro: settles_mono)
    then show ?thesis ..
  qed
qed

lemma run_total:
  "\<exists>n out. out \<noteq> NoFuel \<and> (\<forall>m \<ge> n. run m h e = out)"
proof -
  from run_settles[of h "sync_legacy_state_into_fork e"] obtain n where
    n: "settles h (sync_legacy_state_into_fork e) n" by blast
  have "run n h e \<noteq> NoFuel" using settlesD(2)[OF n] by (simp add: run_def Let_def obind_NoFuel_iff)
  moreover have "run m h e = run n h e" if "n \<le> m" for m unfolding run_def settlesD(1)[OF n that] ..
  ultimately show ?thesis by blast
qed

lemma settled_run [settled_intros]: "settled (\<lambda>n. run n h e)"
  using run_total[of h e] by (simp add: settled_def)

end
