(* ===== verification/EvmOpSpecs.thy ===== *)
theory EvmOpSpecs
  imports EvmTermination
begin

text \<open>
  What single handlers compute, on the contents \<open>stack_values\<close> of the operand stack: the three
  arithmetic shapes, memory stores and loads, the price of memory, storage reads and writes, and the
  frame conditions of static frames and failed calls.
\<close>

section \<open>Stack effects\<close>

lemma pop_with_snoc:
  assumes "stack_ok (stack e)" "stack_values (stack e) = xs @ [v]"
  obtains s where "pop_with f e = Done (Inr v, e\<lparr>stack := s\<rparr>)" "stack_ok s" "stack_values s = xs"
    "length (data s) = length (data (stack e))"
  using evm_stack.pop_snoc[OF assms] by (auto simp: pop_with_def)

lemma pop_with_empty:
  assumes "stack_ok (stack e)" "stack_values (stack e) = []"
  shows "pop_with f e = Done (Inl (f ''Stack Underflow''), e)"
  using evm_stack.pop_empty[OF assms] by (simp add: pop_with_def)

lemma push_with_room:
  assumes "stack_ok (stack e)" "length (stack_values (stack e)) < length (data (stack e))"
  obtains s where "push_with f v e = Done (Inr (), e\<lparr>stack := s\<rparr>)" "stack_ok s"
    "stack_values s = stack_values (stack e) @ [v]" "length (data s) = length (data (stack e))"
  using evm_stack.push_room[OF assms, of v] by (auto simp: push_with_def)

lemma pop2_snoc:
  assumes "stack_ok (stack e)" "stack_values (stack e) = xs @ [b, a]"
  obtains s where "pop2_or r e = Done (Inr (a, b), e\<lparr>stack := s\<rparr>)" "stack_ok s" "stack_values s = xs"
    "length (data s) = length (data (stack e))"
proof -
  obtain s where s: "pop_or r e = Done (Inr a, e\<lparr>stack := s\<rparr>)" "stack_ok s" "stack_values s = xs @ [b]"
    "length (data s) = length (data (stack e))"
    using pop_with_snoc[of e "xs @ [b]" a "\<lambda>_. r"] assms by (auto simp: pop_or_def)
  obtain s' where s': "pop_or r (e\<lparr>stack := s\<rparr>) = Done (Inr b, e\<lparr>stack := s'\<rparr>)" "stack_ok s'" "stack_values s' = xs"
    "length (data s') = length (data s)"
    using pop_with_snoc[of "e\<lparr>stack := s\<rparr>" xs b "\<lambda>_. r"] s by (auto simp: pop_or_def)
  show thesis using that[of s'] s s' by (simp add: pop2_or_def tbind_def)
qed

lemma pop3_snoc:
  assumes "stack_ok (stack e)" "stack_values (stack e) = xs @ [c, b, a]"
  obtains s where "pop3_or r e = Done (Inr (a, b, c), e\<lparr>stack := s\<rparr>)" "stack_ok s" "stack_values s = xs"
    "length (data s) = length (data (stack e))"
proof -
  obtain s where s: "pop_or r e = Done (Inr a, e\<lparr>stack := s\<rparr>)" "stack_ok s" "stack_values s = xs @ [c, b]"
    "length (data s) = length (data (stack e))"
    using pop_with_snoc[of e "xs @ [c, b]" a "\<lambda>_. r"] assms by (auto simp: pop_or_def)
  obtain s' where s': "pop2_or r (e\<lparr>stack := s\<rparr>) = Done (Inr (b, c), e\<lparr>stack := s'\<rparr>)" "stack_ok s'" "stack_values s' = xs"
    "length (data s') = length (data s)"
    using pop2_snoc[of "e\<lparr>stack := s\<rparr>" xs c b r] s by auto
  show thesis using that[of s'] s s' by (simp add: pop3_or_def tbind_def)
qed

text \<open>A handler that replaces its operands by one word.\<close>

definition replaces :: "unit vm \<Rightarrow> evm \<Rightarrow> u256 list \<Rightarrow> bool" where
  "replaces m e ys \<longleftrightarrow> (\<exists>s. m e = Done (Inr (), e\<lparr>stack := s\<rparr>) \<and> stack_ok s \<and> stack_values s = ys
     \<and> length (data s) = length (data (stack e)))"

lemma push_or_replaces:
  assumes "m e = Done (Inr x, e\<lparr>stack := s\<rparr>)" "stack_ok s" "length (stack_values s) < length (data s)"
    "length (data s) = length (data (stack e))"
  shows "\<exists>s'. tbind m (\<lambda>x. push_or r (f x)) e = Done (Inr (), e\<lparr>stack := s'\<rparr>) \<and> stack_ok s' \<and>
    stack_values s' = stack_values s @ [f x] \<and> length (data s') = length (data (stack e))"
proof -
  obtain s' where "push_or r (f x) (e\<lparr>stack := s\<rparr>) = Done (Inr (), e\<lparr>stack := s'\<rparr>)" "stack_ok s'"
    "stack_values s' = stack_values s @ [f x]" "length (data s') = length (data s)"
    using push_with_room[of "e\<lparr>stack := s\<rparr>" "\<lambda>_. r" "f x"] assms by (auto simp: push_or_def)
  with assms show ?thesis by (intro exI[of _ s']) (simp add: tbind_def)
qed

lemma values_bound:
  assumes "stack_ok s" "stack_values s = xs @ ys" "ys \<noteq> []" shows "length xs < length (data s)"
  using assms evm_stack.vals_cap[OF assms(1)] by (cases ys) auto

lemma unop_replaces:
  assumes "stack_ok (stack e)" "stack_values (stack e) = xs @ [a]"
  shows "replaces (unop name f) e (xs @ [f a])"
proof -
  obtain s where s: "pop_or (Error (''Stack Underflow on '' @ name)) e = Done (Inr a, e\<lparr>stack := s\<rparr>)" "stack_ok s"
    "stack_values s = xs" "length (data s) = length (data (stack e))"
    using pop_with_snoc[OF assms] unfolding pop_or_def by blast
  with values_bound[OF assms] show ?thesis
    unfolding unop_def replaces_def using push_or_replaces[of _ e a s _ f] by (auto simp: assms)
qed

lemma binop_replaces:
  assumes "stack_ok (stack e)" "stack_values (stack e) = xs @ [b, a]"
  shows "replaces (binop name f) e (xs @ [f a b])"
proof -
  obtain s where s: "pop2_or (Error (''Stack Underflow on '' @ name)) e = Done (Inr (a, b), e\<lparr>stack := s\<rparr>)" "stack_ok s"
    "stack_values s = xs" "length (data s) = length (data (stack e))"
    by (rule pop2_snoc[OF assms])
  with values_bound[OF assms] show ?thesis
    unfolding binop_def replaces_def using push_or_replaces[of _ e "(a, b)" s _ "\<lambda>(a, b). f a b"]
    by (simp add: case_prod_beta')
qed

lemma triop_replaces:
  assumes "stack_ok (stack e)" "stack_values (stack e) = xs @ [c, b, a]"
  shows "replaces (triop name f) e (xs @ [f a b c])"
proof -
  obtain s where s: "pop3_or (Error (''Stack Underflow on '' @ name)) e = Done (Inr (a, b, c), e\<lparr>stack := s\<rparr>)" "stack_ok s"
    "stack_values s = xs" "length (data s) = length (data (stack e))"
    by (rule pop3_snoc[OF assms])
  with values_bound[OF assms] show ?thesis
    unfolding triop_def replaces_def using push_or_replaces[of _ e "(a, b, c)" s _ "\<lambda>(a, b, c). f a b c"]
    by (simp add: case_prod_beta')
qed

section \<open>The price of memory\<close>

definition memory_price :: "nat \<Rightarrow> nat" where
  "memory_price words = 3 * words + words * words div 512"

lemma memory_price_mono: "a \<le> b \<Longrightarrow> memory_price a \<le> memory_price b"
  by (simp add: memory_price_def add_mono div_le_mono mult_le_mono)

lemma memory_cost_eq:
  assumes "words < 2 ^ 32" shows "memory_cost words = Done (memory_price words)"
proof -
  have le: "words \<le> 2 ^ 32 - 1" using assms by simp
  then have "words * words \<le> (2 ^ 32 - 1) * (2 ^ 32 - 1)" by (intro mult_le_mono)
  then have sq: "words * words \<le> U64_MAX" by simp
  moreover have "words * words div 512 \<le> U64_MAX div 512" using sq by (rule div_le_mono)
  ultimately show ?thesis using le
    by (simp add: memory_cost_def memory_price_def mul_u64_def add_u64_def)
qed

lemma memory_cost_panics: "2 ^ 32 \<le> words \<Longrightarrow> words \<le> 2 ^ 60 \<Longrightarrow> memory_cost words = Panic"
proof -
  assume w: "2 ^ 32 \<le> words" "words \<le> 2 ^ 60"
  then have "2 ^ 32 * 2 ^ 32 \<le> words * words" by (intro mult_le_mono)
  with w show ?thesis by (simp add: memory_cost_def mul_u64_def)
qed

lemma touch_memory_eq:
  assumes "0 < n" "off + n < 2 ^ 36"
  shows "touch_memory off n e =
    (let new_words = (off + n + 31) div 32; words = length (memory e) div 32;
         cost = memory_price new_words - memory_price words
     in if new_words \<le> words then Done (Inr (), e)
        else if gas_left e < cost then Done (Inl OutOfGas, e)
        else Done (Inr (), e\<lparr>gas_left := gas_left e - cost, memory := resize (memory e) (new_words * 32) 0\<rparr>))"
proof -
  define new_words where "new_words = (off + n + 31) div 32"
  define words where "words = length (memory e) div 32"
  have "new_words < 2 ^ 32" using assms(2) by (simp add: new_words_def)
  moreover have "checked_add off n = Some (off + n)" "checked_add (off + n) 31 = Some (off + n + 31)"
    using assms(2) by (simp_all add: checked_add_def)
  moreover have "memory_price words \<le> memory_price new_words" if "words < new_words"
    using that by (intro memory_price_mono) simp
  ultimately show ?thesis
    using assms(1) unfolding touch_memory_def Let_def new_words_def[symmetric] words_def[symmetric]
    by (auto simp: memory_cost_eq sub_u64_def new_words_def[symmetric] words_def[symmetric])
qed

lemma touch_memory_Inr:
  assumes "touch_memory off n e = Done (Inr (), e1)" "32 dvd length (memory e)" "0 < n"
  shows "off + n \<le> length (memory e1)" "off + n + 31 \<le> U64_MAX" "32 dvd length (memory e1)"
    "e1 = e\<lparr>gas_left := gas_left e1, memory := memory e1\<rparr>"
    "\<forall>i < length (memory e). memory e1 ! i = memory e ! i"
    "\<forall>i. length (memory e) \<le> i \<longrightarrow> i < length (memory e1) \<longrightarrow> memory e1 ! i = 0"
proof -
  define new_words where "new_words = (off + n + 31) div 32"
  have c: "off + n + 31 \<le> U64_MAX"
    using assms(1,3) by (auto simp: touch_memory_def checked_add_def split: if_splits)
  then have ca: "checked_add off n = Some (off + n)" "checked_add (off + n) 31 = Some (off + n + 31)"
    by (simp_all add: checked_add_def)
  have le: "off + n \<le> new_words * 32" by (simp add: new_words_def)
  from assms(1,3) consider "e1 = e" "new_words \<le> length (memory e) div 32"
    | g where "e1 = e\<lparr>gas_left := g, memory := resize (memory e) (new_words * 32) 0\<rparr>" "length (memory e) div 32 < new_words"
    by (auto simp: touch_memory_def ca Let_def obind_Done_iff new_words_def[symmetric] split: if_splits)
  note cases = this
  then show "off + n \<le> length (memory e1)"
  proof cases
    case 1
    then have "new_words * 32 \<le> length (memory e)" using assms(2) by auto
    with le 1 show ?thesis by simp
  qed (use le in simp)
  from cases show "32 dvd length (memory e1)" using assms(2) by cases simp_all
  have grow: "length (memory e) \<le> new_words * 32" if "length (memory e) div 32 < new_words"
    using that by (simp add: div_less_iff_less_mult)
  from cases show "\<forall>i < length (memory e). memory e1 ! i = memory e ! i"
  proof cases
    case (2 g)
    with grow show ?thesis by (simp add: nth_resize)
  qed simp
  from cases show "\<forall>i. length (memory e) \<le> i \<longrightarrow> i < length (memory e1) \<longrightarrow> memory e1 ! i = 0"
    by cases (simp_all add: nth_resize)
  from cases show "e1 = e\<lparr>gas_left := gas_left e1, memory := memory e1\<rparr>" by cases simp_all
  show "off + n + 31 \<le> U64_MAX" by (rule c)
qed

lemma touch_memory_inside:
  assumes "off + n \<le> length (memory e)" "32 dvd length (memory e)" "off + n + 31 \<le> U64_MAX"
  shows "touch_memory off n e = Done (Inr (), e)"
proof -
  have "(off + n + 31) div 32 \<le> (length (memory e) + 31) div 32" using assms(1) by (intro div_le_mono) simp
  also have "\<dots> = length (memory e) div 32" using assms(2) by auto
  finally show ?thesis using assms(3) by (simp add: touch_memory_def checked_add_def Let_def)
qed

section \<open>Stores and loads\<close>

lemma op_mstore_Inr:
  assumes "evm_ok e" "stack_values (stack e) = xs @ [v, w]" "op_mstore e = Done (Inr (), e1)"
  shows "slice (memory e1) (as_usize w) (as_usize w + 32) = Done (u256_to_be_bytes v)"
    "as_usize w + 63 \<le> U64_MAX" "32 dvd length (memory e1)"
    "\<forall>i < length (memory e). \<not> (as_usize w \<le> i \<and> i < as_usize w + 32) \<longrightarrow> memory e1 ! i = memory e ! i"
proof -
  let ?off = "as_usize w"
  have ok: "stack_ok (stack e)" "32 dvd length (memory e)" using assms(1) by (simp_all add: evm_ok_def)
  obtain s where pop: "pop2_or (Error ''Stack Underflow on MSTORE'') e = Done (Inr (w, v), e\<lparr>stack := s\<rparr>)"
    by (rule pop2_snoc[OF ok(1) assms(2)])
  from assms(3) obtain e2 where t: "touch_memory ?off 32 (e\<lparr>stack := s\<rparr>) = Done (Inr (), e2)"
    and wr: "tbind (write_memory ?off (replicate 24 0)) (\<lambda>_. write_memory ?off (u256_to_be_bytes v)) e2 = Done (Inr (), e1)"
    unfolding op_mstore_def Let_def by (auto simp: tbind_Done pop)
  have ok2: "32 dvd length (memory (e\<lparr>stack := s\<rparr>))" using ok(2) by simp
  note t' = touch_memory_Inr[OF t ok2 zero_less_numeral]
  from wr obtain m1 m2 where m: "write_slice (memory e2) ?off (replicate 24 0) = Done m1"
    "write_slice m1 ?off (u256_to_be_bytes v) = Done m2" "memory e1 = m2"
    by (auto simp: tbind_Done write_memory_def obind_Done_iff)
  note len = length_write_slice[OF m(1)] length_write_slice[OF m(2)]
  show "slice (memory e1) ?off (?off + 32) = Done (u256_to_be_bytes v)"
    using slice_write_slice[OF m(2)] m(3) by simp
  show "?off + 63 \<le> U64_MAX" using t'(2) by simp
  show "32 dvd length (memory e1)" using t'(3) len m(3) by simp
  show "\<forall>i < length (memory e). \<not> (?off \<le> i \<and> i < ?off + 32) \<longrightarrow> memory e1 ! i = memory e ! i"
  proof (intro allI impI)
    fix i assume i: "i < length (memory e)" "\<not> (?off \<le> i \<and> i < ?off + 32)"
    have "length (memory e) \<le> length (memory e2)"
      using keeps_gas[of "touch_memory ?off 32"] vm_keepsD[OF evolving.nested.keeps_touch_memory refl t] by (simp add: evolves_def)
    with i(1) have i2: "i < length (memory e2)" by simp
    then have "m1 ! i = memory e2 ! i" using nth_write_slice[OF m(1) i2] i(2) by auto
    moreover have "m2 ! i = m1 ! i" using nth_write_slice[OF m(2), of i] i2 len(1) i(2) by auto
    moreover have "memory e2 ! i = memory e ! i" using t'(5) i(1) by simp
    ultimately show "memory e1 ! i = memory e ! i" using m(3) by simp
  qed
qed

lemma op_mload_replaces:
  assumes "stack_ok (stack e)" "stack_values (stack e) = ys @ [w]" "32 dvd length (memory e)"
    "slice (memory e) (as_usize w) (as_usize w + 32) = Done bs" "as_usize w + 63 \<le> U64_MAX"
  shows "replaces op_mload e (ys @ [u256_from_be_bytes bs])"
proof -
  obtain s where s: "pop_or (Error ''Stack Underflow on MLOAD'') e = Done (Inr w, e\<lparr>stack := s\<rparr>)" "stack_ok s"
    "stack_values s = ys" "length (data s) = length (data (stack e))"
    using pop_with_snoc[OF assms(1,2)] unfolding pop_or_def by blast
  let ?e = "e\<lparr>stack := s\<rparr>"
  have "touch_memory (as_usize w) 32 ?e = Done (Inr (), ?e)"
    using assms(3-5) by (intro touch_memory_inside) (auto simp: slice_Done)
  moreover have "read_memory (as_usize w) (as_usize w + 32) ?e = Done (Inr bs, ?e)"
    using assms(4) by (simp add: read_memory_def lift_outcome_def)
  moreover obtain s' where s': "push_or (Error ''Stack Overflow on MLOAD'') (u256_from_be_bytes bs) ?e = Done (Inr (), e\<lparr>stack := s'\<rparr>)"
    "stack_ok s'" "stack_values s' = ys @ [u256_from_be_bytes bs]" "length (data s') = length (data s)"
    using push_with_room[of ?e "\<lambda>_. Error ''Stack Overflow on MLOAD''" "u256_from_be_bytes bs"] s values_bound[OF assms(1,2)]
    by (auto simp: push_or_def)
  ultimately have "op_mload e = Done (Inr (), e\<lparr>stack := s'\<rparr>)"
    using s(1) by (simp add: op_mload_def Let_def tbind_def)
  with s' s(4) show ?thesis by (auto simp: replaces_def)
qed

lemma mload_after_mstore:
  assumes "evm_ok e" "stack_values (stack e) = xs @ [v, w]" "op_mstore e = Done (Inr (), e1)"
    "stack_ok s" "stack_values s = ys @ [w]"
  shows "replaces op_mload (e1\<lparr>stack := s\<rparr>) (ys @ [v])"
  using op_mload_replaces[of "e1\<lparr>stack := s\<rparr>" ys w "u256_to_be_bytes v"] op_mstore_Inr[OF assms(1-3)] assms(4,5)
  by simp

section \<open>Storage\<close>

lemma self_address_update [simp]:
  "self_address (e\<lparr>stack := s\<rparr>) = self_address e" "self_address (e\<lparr>accessed_slots := S\<rparr>) = self_address e"
  "self_address (e\<lparr>gas_left := g\<rparr>) = self_address e" "self_address (e\<lparr>state := st\<rparr>) = self_address e"
  by (simp_all add: self_address_def)

definition sstore_cost :: "evm \<Rightarrow> u256 \<Rightarrow> u256 \<Rightarrow> nat" where
  "sstore_cost e k v = sstore_base_cost (get_storage (state e) (self_address e) k) v
     + (if k \<in> accessed_slots e then 0 else 2100)"

lemma op_sstore_eq:
  assumes "stack_ok (stack e)" "stack_values (stack e) = xs @ [v, k]" "\<not> is_static e"
  obtains s where "stack_values s = xs"
    "op_sstore e = (let e1 = e\<lparr>stack := s, accessed_slots := insert k (accessed_slots e)\<rparr>
       in if gas_left e < sstore_cost e k v then Done (Inl OutOfGas, e1)
          else Done (Inr (), e1\<lparr>gas_left := gas_left e - sstore_cost e k v,
                                state := set_storage (state e) (self_address e) k v\<rparr>))"
proof -
  obtain s where s: "pop2_or (Error ''Stack Underflow on SSTORE'') e = Done (Inr (k, v), e\<lparr>stack := s\<rparr>)"
    "stack_values s = xs" by (rule pop2_snoc[OF assms(1,2)])
  show thesis
    using that[of s] s assms(3)
    by (simp add: op_sstore_def tbind_def deny_static_def mark_slot_warm_def charge_def sstore_cost_def Let_def)
qed

lemma op_sload_eq:
  assumes "stack_ok (stack e)" "stack_values (stack e) = xs @ [k]"
    "(if k \<in> accessed_slots e then 100 else 2100) \<le> gas_left e"
  obtains s where "stack_values s = xs @ [get_storage (state e) (self_address e) k]"
    "op_sload e = Done (Inr (), e\<lparr>stack := s, accessed_slots := insert k (accessed_slots e),
       gas_left := gas_left e - (if k \<in> accessed_slots e then 100 else 2100)\<rparr>)"
proof -
  obtain s where s: "pop_with Error e = Done (Inr k, e\<lparr>stack := s\<rparr>)" "stack_ok s" "stack_values s = xs"
    "length (data s) = length (data (stack e))" by (rule pop_with_snoc[OF assms(1,2)])
  let ?c = "if k \<in> accessed_slots e then 100 else 2100 :: nat"
  let ?e = "e\<lparr>stack := s, accessed_slots := insert k (accessed_slots e), gas_left := gas_left e - ?c\<rparr>"
  let ?v = "get_storage (state e) (self_address e) k"
  obtain s' where "push_or (Error ''Stack Overflow on SLOAD'') ?v ?e = Done (Inr (), ?e\<lparr>stack := s'\<rparr>)"
    "stack_values s' = xs @ [?v]"
    using push_with_room[of ?e "\<lambda>_. Error ''Stack Overflow on SLOAD''" ?v] s values_bound[OF assms(1,2)]
    by (auto simp: push_or_def)
  then show thesis using that[of s'] s(1) assms(3)
    by (simp add: op_sload_def tbind_def mark_slot_warm_def charge_def not_less)
qed

end
