(* ===== verification/EvmFrames.thy ===== *)
theory EvmFrames
  imports EvmOpSpecs
begin

text \<open>
  Facts about whole frames: what a static frame leaves alone, what a failed call leaves behind, where
  the program counter can be, and the two places where the interpreter departs from what its names
  promise (STOP, and zero-sized reads beyond the memory).
\<close>

section \<open>Static frames\<close>

definition quiet :: "evm \<Rightarrow> evm \<Rightarrow> bool" where
  "quiet e e' \<longleftrightarrow> is_static e' = is_static e \<and>
     (is_static e \<longrightarrow> state e' = state e \<and> logs e' = logs e \<and> storage e' = storage e \<and>
        balances e' = balances e \<and> nonces e' = nonces e \<and> contracts e' = contracts e)"

interpretation quietly: vm_jump_laws quiet
  by unfold_locales (auto simp: quiet_def)

lemma quiet_after_deny:
  assumes "\<And>b. vm_keeps b same_pc (tbind deny_static (\<lambda>_. m))"
  shows "vm_keeps b quiet (tbind deny_static (\<lambda>_. m))"
  unfolding vm_keeps_def
proof (intro allI impI)
  fix e e' :: evm and r assume run: "tbind deny_static (\<lambda>_. m) e = Done (r, e')"
  show "quiet e e'"
  proof (cases "is_static e")
    case True
    with run show ?thesis by (simp add: tbind_def deny_static_def quiet_def)
  next
    case False
    with vm_keepsD[OF assms refl run] show ?thesis by (simp add: quiet_def same_pc_def)
  qed
qed

lemma quiet_refused:
  "vm_keeps b quiet (op_create h rc)" "vm_keeps b quiet (op_create2 h rc)" "vm_keeps b quiet op_selfdestruct"
  using quiet_after_deny[OF same_pc.keeps_creates(1)[unfolded op_create_def]]
    quiet_after_deny[OF same_pc.keeps_creates(2)[unfolded op_create2_def]]
    quiet_after_deny[OF same_pc.keeps_selfdestruct[unfolded op_selfdestruct_def]]
  by (simp_all only: op_create_def op_create2_def op_selfdestruct_def)

lemma table_upd_case: "P (t op) \<Longrightarrow> (op = a \<Longrightarrow> P x) \<Longrightarrow> P ((t(a := x)) op)"
  by simp

abbreviation call_ops :: "byte set" where "call_ops \<equiv> {OP_CALL, OP_DELEGATECALL, OP_STATICCALL}"

lemma quiet_core: "vm_keeps b quiet (dispatch_core h op)"
  unfolding dispatch_core_def dispatch_push_def dispatch_arith_def arith_op_defs
  by (intro table_upd[where P = "vm_keeps b quiet"] quietly.keeps_trivial quietly.keeps_arith quietly.keeps_mem_handlers
      quietly.keeps_write_handlers quietly.keeps_push_handlers quietly.keeps_jumps)

lemma quiet_dispatch: "op \<notin> call_ops \<Longrightarrow> vm_keeps b quiet (dispatch_table h rc op)"
  unfolding dispatch_table_def dispatch_context_def op_calldatacopy_def op_codecopy_def
    op_codesize_def op_gasprice_def op_timestamp_def op_number_def op_prevrandao_def op_gaslimit_def
    op_chainid_def op_basefee_def op_blobbasefee_def op_gas_def op_selfbalance_def
  by (rule table_upd_case[where P = "vm_keeps b quiet"] quiet_core quietly.keeps_mem_handlers
      quietly.keeps_write_handlers quietly.keeps_env_handlers quiet_refused | (simp; fail))+

lemma step_dispatch:
  assumes "step h rc e = Done (r, e')" "e' \<noteq> e"
  obtains r' e2 where "dispatch_table h rc (code e ! pc e) e2 = Done (r', e')" "r = handler_result r'"
    "e2 = (trace_step (code e ! pc e) (gas_table (code e ! pc e)) e)
       \<lparr>gas_left := gas_left e - gas_table (code e ! pc e), pc := pc e + 1\<rparr>"
  using assms(1) step_cases[OF assms] by (auto simp: step_eq obind_Done_iff)

lemma trace_step_quiet: "quiet e ((trace_step op g e)\<lparr>gas_left := x, pc := y\<rparr>)"
  by (simp add: quiet_def trace_step_def split: option.splits)

lemma step_quiet:
  assumes "step h rc e = Done (r, e')" "code e ! pc e \<notin> call_ops" shows "quiet e e'"
proof (cases "e' = e")
  case False
  from step_dispatch[OF assms(1) this] obtain r' e2 where
    d: "dispatch_table h rc (code e ! pc e) e2 = Done (r', e')"
    "e2 = (trace_step (code e ! pc e) (gas_table (code e ! pc e)) e)
       \<lparr>gas_left := gas_left e - gas_table (code e ! pc e), pc := pc e + 1\<rparr>" by metis
  have "quiet e2 e'" using vm_keepsD[OF quiet_dispatch[OF assms(2)] refl d(1)] .
  moreover have "quiet e e2" unfolding d(2) by (rule trace_step_quiet)
  ultimately show ?thesis by (auto simp: quiet_def)
qed (simp add: quiet_def)

section \<open>Failed calls\<close>

lemma nested_call_failure:
  assumes "fork_ok (state e)" "nested_call rc fs dl t v input g e = Done (Inr (False, out), e')"
  shows "state e' = state e \<and> storage e' = storage e \<and> logs e' = logs e \<and> balances e' = balances e \<and>
    created_in_transaction e' = created_in_transaction e \<and> return_data e' = out"
proof -
  obtain res ch where res: "call_outcome res = (False, out)"
    and e': "e' = call_finish (fst (snapshot (state e))) res ch (e\<lparr>gas_left := gas_left e - g, state := snd (snapshot (state e))\<rparr>)"
    using assms(2) by (auto simp: nested_call_def Let_def obind_Done_iff)
  have "revert_to_snapshot (snd (snapshot (state e))) (fst (snapshot (state e))) = state e"
    using revert_restores[OF assms(1) _ run_refl, of _ "snd (snapshot (state e))"] by simp
  then show ?thesis unfolding e' by (simp add: call_finish_def Let_def res)
qed

section \<open>The program counter\<close>

definition imm :: "byte \<Rightarrow> nat" where
  "imm op = (if is_push op then push_len op else 0)"

definition pc_ok :: "byte \<Rightarrow> unit vm \<Rightarrow> bool" where
  "pc_ok op m \<longleftrightarrow> (\<forall>e r e'. m e = Done (r, e') \<longrightarrow> handler_result r = Halt \<longrightarrow> pc e + 32 \<le> U64_MAX \<longrightarrow>
     pc e' = pc e + imm op \<or> is_jumpdest e (pc e'))"

lemma pc_upd: "(\<And>op. pc_ok op (t op)) \<Longrightarrow> pc_ok a x \<Longrightarrow> pc_ok op ((t(a := x)) op)"
  by simp

lemma pc_invalid: "pc_ok op op_invalid"
  by (simp add: pc_ok_def op_invalid_def handler_result_def)

lemma pc_keep: "(\<And>b. vm_keeps b same_pc m) \<Longrightarrow> imm a = 0 \<Longrightarrow> pc_ok a m"
  unfolding pc_ok_def
proof (intro allI impI disjI1)
  fix e e' r
  assume "\<And>b. vm_keeps b same_pc m" "imm a = 0" "m e = Done (r, e')"
  then show "pc e' = pc e + imm a" using vm_keepsD[of "is_static e" same_pc m e r e'] by (simp add: same_pc_def)
qed

lemma pc_of_push_or: "push_or r v e = Done (x, e') \<Longrightarrow> pc e' = pc e"
  using vm_keepsD[OF same_pc.keeps_push_or refl] by (auto simp: same_pc_def)

lemma pc_push_n: "n \<le> 32 \<Longrightarrow> imm a = n \<Longrightarrow> pc_ok a (execute_push_n n)"
  by (auto simp: pc_ok_def execute_push_n_def saturating_add_def min_def dest!: pc_of_push_or)

lemma pc_push1: "pc_ok OP_PUSH1 op_push1"
  by (auto simp: pc_ok_def op_push1_def some_or_return_def handler_result_def imm_def is_push_def push_len_def
      dest!: pc_of_push_or split: if_splits)

lemma pc_push2: "pc_ok OP_PUSH2 op_push2"
  by (auto simp: pc_ok_def op_push2_def some_or_return_def handler_result_def imm_def is_push_def push_len_def
      dest!: pc_of_push_or split: if_splits)

lemma is_jumpdest_stack [simp]: "is_jumpdest (e\<lparr>stack := s\<rparr>) d = is_jumpdest e d"
  by (simp add: is_jumpdest_def)

lemma pc_jump: "pc_ok OP_JUMP op_jump"
  by (auto simp: pc_ok_def op_jump_def tbind_Done pop_or_def pop_with_def jump_to_def handler_result_def
      split: if_splits prod.splits sum.splits)

lemma pop_or_cases: "pop_or r e = Done (x, e') \<Longrightarrow> \<exists>s. e' = e\<lparr>stack := s\<rparr>"
  by (auto simp: pop_or_def pop_with_def split: prod.splits sum.splits)

lemma pop2_or_cases: "pop2_or r e = Done (x, e') \<Longrightarrow> \<exists>s. e' = e\<lparr>stack := s\<rparr>"
  by (auto simp: pop2_or_def tbind_Done dest!: pop_or_cases)

lemma pc_jumpi: "pc_ok OP_JUMPI op_jumpi"
proof -
  have imm: "imm OP_JUMPI = 0" by (simp add: imm_def is_push_def)
  show ?thesis
    by (auto simp: pc_ok_def op_jumpi_def tbind_Done jump_to_def handler_result_def imm
        split: if_splits dest!: pop2_or_cases)
qed

lemma add_not_push: "\<not> OP_PUSH1 \<le> OP_ADD"
  by (simp add: word_le_nat_alt)

lemmas imm_simps = imm_def is_push_def push_len_def add_not_push

lemma pc_core: "pc_ok op (dispatch_core h op)"
  unfolding dispatch_core_def dispatch_push_def dispatch_arith_def arith_op_defs
  by (intro pc_upd pc_push1 pc_push2 pc_jump pc_jumpi pc_push_n pc_invalid pc_keep same_pc.keeps_trivial
      same_pc.keeps_arith same_pc.keeps_mem_handlers same_pc.keeps_write_handlers) (simp_all add: imm_simps)

lemma pc_dispatch: "pc_ok op (dispatch_table h rc op)"
  unfolding dispatch_table_def dispatch_context_def op_calldatacopy_def op_codecopy_def
    op_codesize_def op_gasprice_def op_timestamp_def op_number_def op_prevrandao_def op_gaslimit_def
    op_chainid_def op_basefee_def op_blobbasefee_def op_gas_def op_selfbalance_def
  by (intro pc_upd pc_core pc_keep same_pc.keeps_mem_handlers same_pc.keeps_write_handlers
      same_pc.keeps_env_handlers same_pc.keeps_call_handlers) (simp_all add: imm_simps)

text \<open>The machines that the loop of \<open>run_without_sync\<close> passes through.\<close>

inductive reaches :: "host \<Rightarrow> evm \<Rightarrow> evm \<Rightarrow> bool" for h e0 where
  reaches_start: "reaches h e0 e0"
| reaches_next: "reaches h e0 e \<Longrightarrow> pc e < length (code e) \<Longrightarrow> step h (run_child n h) e = Done (Halt, e') \<Longrightarrow> reaches h e0 e'"

lemma step_pc:
  assumes "pc e < length (code e)" "length (code e) + 32 \<le> U64_MAX" "step h rc e = Done (Halt, e')"
  shows "pc e' = next_pc (code e) (pc e) \<or> is_jumpdest e (pc e')"
proof -
  let ?op = "code e ! pc e"
  have "gas_table ?op \<le> gas_left e"
    using assms(1,3) by (auto simp: step_def Let_def not_le[symmetric] split: if_splits)
  then obtain r e2 where d: "dispatch_table h rc ?op e2 = Done (r, e')" "handler_result r = Halt"
    "pc e2 = pc e + 1" "valid_jumpdests e2 = valid_jumpdests e"
    using assms(1,3) by (auto simp: step_eq obind_Done_iff trace_step_def split: option.splits)
  have "pc e2 + 32 \<le> U64_MAX" using d(3) assms(1,2) by simp
  with pc_dispatch[of ?op h rc] d have "pc e' = pc e2 + imm ?op \<or> is_jumpdest e2 (pc e')"
    unfolding pc_ok_def by blast
  then show ?thesis using d(3,4) by (simp add: next_pc_def imm_def is_jumpdest_def)
qed

lemma reaches_invariant:
  assumes "reaches h e0 e" "evm_ok e0" "pc e0 = 0" "length (code e0) + 32 \<le> U64_MAX"
  shows "evm_ok e \<and> evolves e0 e \<and> follows (code e0) 0 (pc e)"
  using assms
proof (induction rule: reaches.induct)
  case reaches_start
  then show ?case by (simp add: evolves_refl follows.here)
next
  case (reaches_next e n e')
  then have e: "evm_ok e" "evolves e0 e" "follows (code e0) 0 (pc e)" "code e = code e0"
    by (simp_all add: evolves_def)
  have ev: "evolves e e'" using reaches_next.hyps(3) by (rule step_evolves)
  have "length (code e) + 32 \<le> U64_MAX" using reaches_next.prems e(4) by simp
  from step_pc[OF reaches_next.hyps(2) this reaches_next.hyps(3)] have "follows (code e0) 0 (pc e')"
  proof
    assume "pc e' = next_pc (code e) (pc e)"
    with e reaches_next.hyps(2) show ?thesis by (simp add: follows_next)
  next
    assume "is_jumpdest e (pc e')"
    with e(1,4) show ?thesis by (auto simp: is_jumpdest_def evm_ok_def analyze_jumpdests_nth)
  qed
  moreover have "evm_ok e'" using ev e(1) by (simp add: evolves_def)
  moreover have "evolves e0 e'" using e(2) ev by (rule evolves_trans)
  ultimately show ?case by simp
qed

section \<open>STOP, and reads of size zero\<close>

lemma stop_continues:
  assumes "pc e < length (code e)" "code e ! pc e = OP_STOP" "tracer e = None"
  shows "run_without_sync (Suc n) h e = run_without_sync n h (e\<lparr>pc := pc e + 1\<rparr>)"
proof -
  have g: "gas_table OP_STOP = 0"
    by (simp add: gas_table_def gas_table_2_def gas_table_1_def fill_range_def)
  have d: "dispatch_table h rc OP_STOP = op_stop" for rc
    by (simp add: dispatch_table_def dispatch_context_def dispatch_core_def dispatch_push_def dispatch_arith_def)
  have "step h rc e = Done (Halt, e\<lparr>pc := pc e + 1\<rparr>)" for rc
    using assms g d by (simp add: step_eq trace_step_def op_stop_def handler_result_def)
  then show ?thesis using assms(1) by (simp add: run_without_sync_Suc)
qed

lemma keccak_empty_panics:
  assumes "stack_ok (stack e)" "stack_values (stack e) = xs @ [0, w]" "length (memory e) < as_usize w"
  shows "op_keccak256 h e = Panic"
proof -
  obtain s where s: "pop2_or (Error ''Stack Underflow on KECCAK256'') e = Done (Inr (w, 0), e\<lparr>stack := s\<rparr>)"
    by (rule pop2_snoc[OF assms(1,2)])
  have "calc_copy_gas 0 = Inr 0"
    by (simp add: calc_copy_gas_def try_u64_def checked_mul_def)
  then show ?thesis using s assms(3)
    by (simp add: op_keccak256_def Let_def tbind_def ok_or_return_def charge_def touch_memory_def as_usize_def[of 0]
        read_memory_def lift_outcome_def slice_def)
qed

end
