(* ===== verification/EvmPinned.thy ===== *)
theory EvmPinned
  imports EvmInvariant
begin

text \<open>
  Snapshots survive a run: whatever a frame and the frames it calls or creates do to the forked state, the
  snapshots that were there before stay, in place and unchanged, so the caller of the interpreter can still revert
  to them.  Another interpretation of the locale \<open>vm_run_laws\<close>, for the relation \<open>pins\<close>.
\<close>

definition fork_pins :: "state_fork \<Rightarrow> state_fork \<Rightarrow> bool" where
  "fork_pins st st' \<longleftrightarrow> (fork_ok st \<longrightarrow> fork_ok st' \<and> prefix (snapshots st) (snapshots st'))"

definition pins :: "evm \<Rightarrow> evm \<Rightarrow> bool" where
  "pins e e' \<longleftrightarrow> is_static e' = is_static e \<and> fork_pins (state e) (state e')"

lemma fork_pins_refl [simp]: "fork_pins st st"
  by (simp add: fork_pins_def)

lemma fork_pins_trans: "fork_pins st st1 \<Longrightarrow> fork_pins st1 st2 \<Longrightarrow> fork_pins st st2"
  by (auto simp: fork_pins_def)

lemma fork_pins_writes [simp]:
  "fork_pins st (set_storage st a k v)" "fork_pins st (set_balance st a w)" "fork_pins st (set_code st a c)"
  "fork_pins st (set_nonce st a n)" "fork_pins st (tstore st a k v)" "fork_pins st (clear_transient_storage st)"
  "fork_pins st (snd (snapshot st))"
  using writers_ok[of st] snapshot_ok[of st]
  by (simp_all add: fork_pins_def set_storage_def set_balance_def set_code_def set_nonce_def tstore_def
      clear_transient_storage_def snapshot_def Let_def)

lemma fork_pins_transfer: "fork_pins st (set_balance (set_balance st a x) b y)"
  by (rule fork_pins_trans[OF fork_pins_writes(2) fork_pins_writes(2)])

lemma pins_refl: "pins e e"
  by (simp add: pins_def)

lemma pins_trans: "pins e e1 \<Longrightarrow> pins e1 e2 \<Longrightarrow> pins e e2"
  by (auto simp: pins_def intro: fork_pins_trans)

lemma pins_same: "state e' = state e \<Longrightarrow> is_static e' = is_static e \<Longrightarrow> pins e e'"
  by (simp add: pins_def)

lemma pins_state: "fork_pins (state e) st \<Longrightarrow> pins e (e\<lparr>state := st\<rparr>)"
  by (simp add: pins_def)

text \<open>Reverting to the snapshot just taken, after writes, is as if nothing had happened.\<close>

lemma fork_pins_revert:
  assumes "fork_run (fst (snapshot st)) {} (snd (snapshot st)) st'"
  shows "fork_pins st (revert_to_snapshot st' (fst (snapshot st)))"
  using revert_restores[of st "fst (snapshot st)" "snd (snapshot st)" "{}" st'] assms by (simp add: fork_pins_def)

lemma pins_precompile:
  assumes "nested_precompile h target input g e = Done (r, e')"
  shows "pins e e'"
  using assms by (auto simp: nested_precompile_def Let_def intro!: pins_same split: sum.splits vm_error.splits)

lemma pins_call:
  assumes rc: "\<And>c r c'. rc c = Done (r, c') \<Longrightarrow> pins c c'"
    and "nested_call rc fs dl target v input g e = Done (r, e')"
  shows "pins e e'"
proof -
  let ?st = "snd (snapshot (state e))"
  from assms(2) obtain child res ch where run: "rc child = Done (res, ch)" and c: "state child = ?st"
    and e': "e' = call_finish (fst (snapshot (state e))) res ch (e\<lparr>gas_left := gas_left e - g, state := ?st\<rparr>)"
    unfolding nested_call_def Let_def by (auto simp: obind_Done_iff call_child_def)
  have "fork_pins (state e) (state ch)"
    using rc[OF run] fork_pins_trans[of "state e" ?st "state ch"] by (simp add: pins_def c)
  moreover have "fork_pins (state e) (revert_to_snapshot ?st (fst (snapshot (state e))))"
    by (rule fork_pins_revert[OF run_refl])
  ultimately show ?thesis by (simp add: e' pins_def call_finish_def Let_def)
qed

lemma pins_deploy:
  assumes rc: "\<And>c r c'. rc c = Done (r, c') \<Longrightarrow> pins c c'"
    and "nested_deploy rc a v input e = Done (r, e')"
  shows "pins e e'"
proof (cases "state e' = state e \<and> is_static e' = is_static e")
  case False
  define g where "g = calc_eip150_call_gas (gas_left e) (of_nat (gas_left e))"
  let ?e0 = "e\<lparr>gas_left := gas_left e - g\<rparr>"
  let ?ss = "snapshot (state e)"
  obtain sb tb sid e1 where tr: "deploy_transfer ?e0 (self_address ?e0) a v = (sb, tb, sid, e1)"
    by (metis prod_cases4)
  then have e1: "is_static e1 = is_static e" "sid = fst ?ss" "fork_run sid {} (snd ?ss) (state e1)"
    by (auto simp: deploy_transfer_def Let_def intro!: run_balance run_refl)
  have pin: "fork_pins (state e) (state e1)"
    using tr by (auto simp: deploy_transfer_def Let_def intro: fork_pins_trans[OF fork_pins_writes(7) fork_pins_transfer])
  from False assms(2) obtain res ch where run: "rc (deploy_child e1 a v input g) = Done (res, ch)"
    and e': "e' = snd (deploy_finish (deploy_undo (self_address ?e0) sb a tb sid) a res ch e1)"
    unfolding nested_deploy_def execute_deploy_def Let_def g_def[symmetric] tr
    by (auto simp: obind_Done_iff split: if_splits)
  have ch: "fork_pins (state e) (state ch)"
    using rc[OF run] pin fork_pins_trans[of "state e" "state e1" "state ch"] by (simp add: pins_def deploy_child_def)
  have undo: "fork_pins (state e) (revert_to_snapshot (state e1) sid)"
    using fork_pins_revert[of "state e"] e1(2,3) by simp
  have "state e' \<in> {revert_to_snapshot (state e1) sid} \<union> range (set_code (state ch) a) \<and> is_static e' = is_static e1"
    unfolding e' deploy_finish_def Let_def
    by (auto simp: deploy_undo_def deploy_commit_def split: execution_result.splits option.splits)
  then show ?thesis
    using undo e1(1) fork_pins_trans[OF ch fork_pins_writes(3)] by (auto simp: pins_def)
qed (simp add: pins_same)

lemma fork_pins_removed:
  "fork_pins st (remove_account st a)"
  using remove_account_ok by (simp add: fork_pins_def remove_account_def)

lemma pins_selfdestruct: "pins e (selfdestruct_account a e)"
  unfolding selfdestruct_account_def Let_def pins_def
  by (auto intro: fork_pins_transfer fork_pins_removed fork_pins_trans[OF fork_pins_transfer fork_pins_removed])

lemma pins_laws:
  assumes "\<And>c r c'. rc c = Done (r, c') \<Longrightarrow> pins c c'"
  shows "vm_full_laws pins h rc"
proof unfold_locales
  show "pins e e2" if "pins e e1" "pins e1 e2" for e e1 e2 using that by (rule pins_trans)
  show "is_static e' = is_static e" if "pins e e'" for e e' using that by (simp add: pins_def)
  show "pins e (trace_step op g e)" for op g e by (subst trace_step_tracer) (simp add: pins_same)
qed (auto intro: pins_refl pins_same pins_state pins_precompile pins_call[OF assms] pins_deploy[OF assms]
      pins_selfdestruct simp: next_nonce_def Let_def)

lemma pins_between_syncs:
  assumes "pins (sync_legacy_state_into_fork e) e1"
  shows "pins e (sync_fork_into_legacy_state h e1)"
proof -
  have "fork_pins (state e) (state (sync_legacy_state_into_fork e))"
    unfolding sync_legacy_state_into_fork_def Let_def
    by (simp, intro foldl_invariant[where P = "fork_pins (state e)"])
      (auto intro: fork_pins_trans fork_pins_writes)
  moreover have "is_static (sync_legacy_state_into_fork e) = is_static e"
    by (simp add: sync_legacy_state_into_fork_def Let_def)
  ultimately have "pins e e1" using assms pins_trans by (auto simp: pins_def intro: fork_pins_trans)
  moreover have "state (sync_fork_into_legacy_state h e1) = state e1 \<and>
      is_static (sync_fork_into_legacy_state h e1) = is_static e1"
    unfolding sync_fork_into_legacy_state_def
    by (rule foldl_invariant[where P = "\<lambda>s. state s = state e1 \<and> is_static s = is_static e1"])
      (auto simp: sync_account_def Let_def)
  ultimately show ?thesis by (simp add: pins_def)
qed

interpretation pinned: vm_run_laws pins h for h
  by (rule vm_run_laws.intro) (auto intro: pins_laws pins_between_syncs pins_state)

lemmas run_pins = pinned.run_keeps

text \<open>The consequence for the caller of the interpreter: a snapshot taken before the run can be reverted to after it.\<close>

lemma revert_after_run:
  assumes "fork_ok st" "fork_run (fst (snapshot st)) D (snd (snapshot st)) (state e)" "run n h e = Done (r, e')"
  shows "dirty_state (revert_to_snapshot (state e') (fst (snapshot st))) = dirty_state st"
    "transient_storage (revert_to_snapshot (state e') (fst (snapshot st))) = transient_storage st"
    "snapshots (revert_to_snapshot (state e') (fst (snapshot st))) = snapshots st"
proof -
  let ?ss = "snapshot st"
  have ss: "snapshots (snd ?ss) = snapshots st @ [\<lparr>snapshot_id = fst ?ss, snap_dirty_state = dirty_state st,
      snap_transient_storage = transient_storage st\<rparr>]" "fst ?ss = length (snapshots st)"
    by (simp_all add: snapshot_def Let_def)
  have "fork_ok (state e)" "take (Suc (fst ?ss)) (snapshots (state e)) = snapshots (snd ?ss)"
    "fst ?ss < length (snapshots (state e))"
    using fork_run_keeps[OF assms(2) snapshot_ok[OF assms(1)]] by (simp_all add: ss)
  moreover from this have "fork_ok (state e')" "prefix (snapshots (state e)) (snapshots (state e'))"
    using run_pins[OF assms(3)] by (auto simp: pins_def fork_pins_def)
  ultimately have "fork_ok (state e')" "prefix (snapshots (snd ?ss)) (snapshots (state e'))"
    by (metis, metis prefix_order.trans take_is_prefix)
  then obtain rest where "snapshots (state e') = snapshots (snd ?ss) @ rest" "fork_ok (state e')"
    by (auto simp: prefix_def)
  then show "dirty_state (revert_to_snapshot (state e') (fst ?ss)) = dirty_state st"
    "transient_storage (revert_to_snapshot (state e') (fst ?ss)) = transient_storage st"
    "snapshots (revert_to_snapshot (state e') (fst ?ss)) = snapshots st"
    by (simp_all add: revert_to_snapshot_eq ss nth_append)
qed

end
