(* ===== verification/EvmTx.thy ===== *)
theory EvmTx
  imports EvmRlp
begin

text \<open>
  Decoding of raw transactions (\<open>src/tx/decoder.rs\<close>).  The RLP reader and writer of the crate \<open>rlp\<close>, the
  signature recovery of \<open>secp256k1\<close> and the hash of \<open>tiny_keccak\<close> are the fields of the record \<open>tx_crates\<close>;
  a field accessor answers \<open>None\<close> where the crate answers a \<open>DecoderError\<close>.  \<open>H160::from_slice\<close> panics
  on a slice that does not have 20 bytes.
\<close>

section \<open>Functions of other crates\<close>

datatype rlp_field =
    FieldU64 u64
  | FieldU256 u256
  | FieldBytes bytes
  | FieldEmptyData
  | FieldEmptyList

record tx_crates =
  tx_keccak :: "bytes \<Rightarrow> bytes"
  rlp_is_list :: "bytes \<Rightarrow> bool"
  rlp_item_count :: "bytes \<Rightarrow> nat option"
  rlp_u8_at :: "bytes \<Rightarrow> nat \<Rightarrow> nat option"
  rlp_u64_at :: "bytes \<Rightarrow> nat \<Rightarrow> u64 option"
  rlp_u256_at :: "bytes \<Rightarrow> nat \<Rightarrow> u256 option"
  rlp_bytes_at :: "bytes \<Rightarrow> nat \<Rightarrow> bytes option"
  rlp_stream :: "rlp_field list \<Rightarrow> bytes"
  recovery_id_from_i32 :: "nat \<Rightarrow> bool"
  signature_from_compact :: "bytes \<Rightarrow> nat \<Rightarrow> bytes option"
  recover_ecdsa :: "bytes \<Rightarrow> bytes \<Rightarrow> bytes option"

text \<open>What the decoder relies on: a hash has 32 bytes and a \<open>u64\<close> is one, which the Rust types fix.\<close>

definition tx_crates_ok :: "tx_crates \<Rightarrow> bool" where
  "tx_crates_ok c \<longleftrightarrow> (\<forall>bs. length (tx_keccak c bs) = 32) \<and>
     (\<forall>bs i v. rlp_u64_at c bs i = Some v \<longrightarrow> v \<le> U64_MAX)"

section \<open>Transactions\<close>

datatype tx_type = Legacy | Eip2930 | Eip1559

record signed_transaction =
  stx_hash :: bytes
  stx_tx_type :: tx_type
  stx_chain_id :: "u64 option"
  stx_nonce :: u64
  stx_gas_limit :: u64
  stx_max_fee_per_gas :: u256
  stx_max_priority_fee_per_gas :: u256
  stx_to :: "address option"
  stx_value :: u256
  stx_data :: bytes
  stx_sender :: address

datatype tx_decode_error = InvalidRlp | UnsupportedType | InvalidSignature | RecoveryFailed

text \<open>\<open>let x = expr?;\<close> for a field accessor, whose error becomes \<open>err\<close>.\<close>

definition try_some :: "'e \<Rightarrow> 'a option \<Rightarrow> ('a \<Rightarrow> ('e + 'b) outcome) \<Rightarrow> ('e + 'b) outcome" where
  "try_some err x f = (case x of None \<Rightarrow> Done (Inl err) | Some y \<Rightarrow> f y)"

text \<open>\<open>let x = expr?;\<close> for a computation that answers a \<open>Result\<close> or panics.\<close>

definition try_result :: "('e + 'a) outcome \<Rightarrow> ('a \<Rightarrow> ('e + 'b) outcome) \<Rightarrow> ('e + 'b) outcome" where
  "try_result m f = obind m (\<lambda>r. case r of Inl err \<Rightarrow> Done (Inl err) | Inr x \<Rightarrow> f x)"

definition pad_zero_left :: "bytes \<Rightarrow> nat \<Rightarrow> bytes" where
  "pad_zero_left sl len =
     (if length sl \<ge> len then drop (length sl - len) sl else replicate (len - length sl) 0 @ sl)"

definition address_from_slice :: "bytes \<Rightarrow> address outcome" where
  "address_from_slice bs = (if length bs = 20 then Done bs else Panic)"

definition recover_sender :: "tx_crates \<Rightarrow> bytes \<Rightarrow> bytes \<Rightarrow> bytes \<Rightarrow> nat \<Rightarrow> (tx_decode_error + address) outcome" where
  "recover_sender c sighash r s rec_id =
     (let sig_bytes = pad_zero_left r 32 @ pad_zero_left s 32
      in if \<not> recovery_id_from_i32 c rec_id then Done (Inl InvalidSignature)
         else try_some InvalidSignature (signature_from_compact c sig_bytes rec_id) (\<lambda>sig.
              try_some RecoveryFailed (recover_ecdsa c sighash sig) (\<lambda>uncompressed.
              let pub_hash = tx_keccak c (drop 1 uncompressed)
              in obind (address_from_slice (drop 12 pub_hash)) (\<lambda>a. Done (Inr a)))))"

text \<open>\<open>if to_bytes.is_empty() { None } else { Some(Address::from_slice(&to_bytes)) }\<close>, and the field it is written back as.\<close>

definition decode_to :: "bytes \<Rightarrow> address option outcome" where
  "decode_to to_bytes = (if to_bytes = [] then Done None else obind (address_from_slice to_bytes) (\<lambda>a. Done (Some a)))"

definition to_field :: "address option \<Rightarrow> rlp_field" where
  "to_field t = (case t of Some a \<Rightarrow> FieldBytes a | None \<Rightarrow> FieldBytes [])"

definition decode_eip1559 :: "tx_crates \<Rightarrow> bytes \<Rightarrow> bytes \<Rightarrow> (tx_decode_error + signed_transaction) outcome" where
  "decode_eip1559 c payload tx_hash =
     (if \<not> rlp_is_list c payload then Done (Inl InvalidRlp)
      else try_some InvalidRlp (rlp_item_count c payload) (\<lambda>items.
      if items < 12 then Done (Inl InvalidRlp)
      else try_some InvalidRlp (rlp_u64_at c payload 0) (\<lambda>chain_id.
      try_some InvalidRlp (rlp_u64_at c payload 1) (\<lambda>nonce.
      try_some InvalidRlp (rlp_u256_at c payload 2) (\<lambda>max_priority_fee_per_gas.
      try_some InvalidRlp (rlp_u256_at c payload 3) (\<lambda>max_fee_per_gas.
      try_some InvalidRlp (rlp_u64_at c payload 4) (\<lambda>gas_limit.
      try_some InvalidRlp (rlp_bytes_at c payload 5) (\<lambda>to_bytes.
      obind (decode_to to_bytes) (\<lambda>to_addr.
      try_some InvalidRlp (rlp_u256_at c payload 6) (\<lambda>v.
      try_some InvalidRlp (rlp_bytes_at c payload 7) (\<lambda>data_bytes.
      try_some InvalidRlp (rlp_u8_at c payload 9) (\<lambda>y_parity.
      try_some InvalidRlp (rlp_bytes_at c payload 10) (\<lambda>r_bytes.
      try_some InvalidRlp (rlp_bytes_at c payload 11) (\<lambda>s_bytes.
      let stream = rlp_stream c [FieldU64 chain_id, FieldU64 nonce, FieldU256 max_priority_fee_per_gas,
            FieldU256 max_fee_per_gas, FieldU64 gas_limit, to_field to_addr, FieldU256 v, FieldBytes data_bytes,
            FieldEmptyList];
          sighash = tx_keccak c (0x02 # stream)
      in try_result (recover_sender c sighash r_bytes s_bytes y_parity) (\<lambda>sender.
         Done (Inr \<lparr>stx_hash = tx_hash, stx_tx_type = Eip1559, stx_chain_id = Some chain_id, stx_nonce = nonce,
                    stx_gas_limit = gas_limit, stx_max_fee_per_gas = max_fee_per_gas,
                    stx_max_priority_fee_per_gas = max_priority_fee_per_gas, stx_to = to_addr, stx_value = v,
                    stx_data = data_bytes, stx_sender = sender\<rparr>))))))))))))))))"

text \<open>Chain id and recovery parity from \<open>v\<close> (EIP-155).\<close>

definition legacy_v :: "u64 \<Rightarrow> tx_decode_error + u64 option \<times> nat" where
  "legacy_v v =
     (if v \<ge> 35 then Inr (Some ((v - 35) div 2), (v - 35) mod 2)
      else if v = 27 \<or> v = 28 then Inr (None, v - 27)
      else Inl InvalidSignature)"

definition legacy_fields ::
    "u64 option \<Rightarrow> u64 \<Rightarrow> u256 \<Rightarrow> u64 \<Rightarrow> address option \<Rightarrow> u256 \<Rightarrow> bytes \<Rightarrow> rlp_field list" where
  "legacy_fields chain_id nonce gas_price gas_limit to_addr v data_bytes =
     [FieldU64 nonce, FieldU256 gas_price, FieldU64 gas_limit, to_field to_addr, FieldU256 v, FieldBytes data_bytes] @
     (case chain_id of Some cid \<Rightarrow> [FieldU64 cid, FieldEmptyData, FieldEmptyData] | None \<Rightarrow> [])"

definition decode_legacy :: "tx_crates \<Rightarrow> bytes \<Rightarrow> bytes \<Rightarrow> (tx_decode_error + signed_transaction) outcome" where
  "decode_legacy c raw_bytes tx_hash =
     (if \<not> rlp_is_list c raw_bytes then Done (Inl InvalidRlp)
      else try_some InvalidRlp (rlp_item_count c raw_bytes) (\<lambda>items.
      if items < 9 then Done (Inl InvalidRlp)
      else try_some InvalidRlp (rlp_u64_at c raw_bytes 0) (\<lambda>nonce.
      try_some InvalidRlp (rlp_u256_at c raw_bytes 1) (\<lambda>gas_price.
      try_some InvalidRlp (rlp_u64_at c raw_bytes 2) (\<lambda>gas_limit.
      try_some InvalidRlp (rlp_bytes_at c raw_bytes 3) (\<lambda>to_bytes.
      obind (decode_to to_bytes) (\<lambda>to_addr.
      try_some InvalidRlp (rlp_u256_at c raw_bytes 4) (\<lambda>value_word.
      try_some InvalidRlp (rlp_bytes_at c raw_bytes 5) (\<lambda>data_bytes.
      try_some InvalidRlp (rlp_u64_at c raw_bytes 6) (\<lambda>v.
      try_some InvalidRlp (rlp_bytes_at c raw_bytes 7) (\<lambda>r_bytes.
      try_some InvalidRlp (rlp_bytes_at c raw_bytes 8) (\<lambda>s_bytes.
      try_result (Done (legacy_v v)) (\<lambda>(chain_id, rec_id).
      let sighash = tx_keccak c (rlp_stream c
            (legacy_fields chain_id nonce gas_price gas_limit to_addr value_word data_bytes))
      in try_result (recover_sender c sighash r_bytes s_bytes rec_id) (\<lambda>sender.
         Done (Inr \<lparr>stx_hash = tx_hash, stx_tx_type = Legacy, stx_chain_id = chain_id, stx_nonce = nonce,
                    stx_gas_limit = gas_limit, stx_max_fee_per_gas = gas_price,
                    stx_max_priority_fee_per_gas = gas_price, stx_to = to_addr, stx_value = value_word,
                    stx_data = data_bytes, stx_sender = sender\<rparr>)))))))))))))))"

definition decode_raw_tx :: "tx_crates \<Rightarrow> bytes \<Rightarrow> (tx_decode_error + signed_transaction) outcome" where
  "decode_raw_tx c raw_bytes =
     (case raw_bytes of
        [] \<Rightarrow> Done (Inl InvalidRlp)
      | first # rest \<Rightarrow>
          let tx_hash = tx_keccak c raw_bytes
          in if first = 0x02 then decode_eip1559 c rest tx_hash
             else if first \<ge> 0xc0 then decode_legacy c raw_bytes tx_hash
             else Done (Inl UnsupportedType))"

section \<open>What the decoder guarantees\<close>

lemma length_pad_zero_left [simp]: "length (pad_zero_left sl n) = n"
  by (simp add: pad_zero_left_def)

lemma try_some_Inr: "try_some err x f = Done (Inr y) \<longleftrightarrow> (\<exists>z. x = Some z \<and> f z = Done (Inr y))"
  by (cases x) (simp_all add: try_some_def)

lemma try_result_Inr: "try_result m f = Done (Inr y) \<longleftrightarrow> (\<exists>z. m = Done (Inr z) \<and> f z = Done (Inr y))"
  by (cases m) (auto simp: try_result_def split: sum.splits)

lemma address_from_slice_Done: "address_from_slice bs = Done a \<longleftrightarrow> length bs = 20 \<and> a = bs"
  by (auto simp: address_from_slice_def)

lemma recover_sender_length: "recover_sender c d r s i = Done (Inr a) \<Longrightarrow> length a = 20"
  by (auto simp: recover_sender_def Let_def try_some_Inr obind_Done_iff address_from_slice_Done split: if_splits)

lemma recover_sender_returns:
  assumes "tx_crates_ok c" shows "\<exists>x. recover_sender c d r s i = Done x"
  using assms by (auto simp: recover_sender_def Let_def try_some_def tx_crates_ok_def address_from_slice_def split: option.splits)

lemma decode_to_Done: "decode_to bs = Done t \<Longrightarrow> t = None \<or> (\<exists>a. t = Some a \<and> length a = 20)"
  by (auto simp: decode_to_def obind_Done_iff address_from_slice_Done split: if_splits)

lemma try_some_fuel: "(\<And>y. f y \<noteq> NoFuel) \<Longrightarrow> try_some err x f \<noteq> NoFuel"
  by (simp add: try_some_def split: option.split)

lemma try_result_fuel: "m \<noteq> NoFuel \<Longrightarrow> (\<And>y. f y \<noteq> NoFuel) \<Longrightarrow> try_result m f \<noteq> NoFuel"
  by (simp add: try_result_def obind_NoFuel_iff split: sum.split)

lemma decode_to_fuel: "decode_to bs \<noteq> NoFuel"
  by (simp add: decode_to_def address_from_slice_def)

lemma recover_sender_fuel: "recover_sender c d r s i \<noteq> NoFuel"
  by (simp add: recover_sender_def address_from_slice_def Let_def try_some_def split: option.split)

lemma obind_fuel: "m \<noteq> NoFuel \<Longrightarrow> (\<And>y. f y \<noteq> NoFuel) \<Longrightarrow> obind m f \<noteq> NoFuel"
  by (simp add: obind_NoFuel_iff)

lemma if_fuel: "x \<noteq> NoFuel \<Longrightarrow> y \<noteq> NoFuel \<Longrightarrow> (if b then x else y) \<noteq> NoFuel"
  by simp

lemma pair_fuel: "(\<And>a b. f a b \<noteq> NoFuel) \<Longrightarrow> (case p of (a, b) \<Rightarrow> f a b) \<noteq> NoFuel"
  by (simp split: prod.split)

lemma Done_fuel: "Done x \<noteq> NoFuel"
  by simp

lemmas decode_fuel = if_fuel try_some_fuel try_result_fuel obind_fuel pair_fuel decode_to_fuel recover_sender_fuel Done_fuel

lemma decode_raw_tx_fuel: "decode_raw_tx c raw \<noteq> NoFuel"
proof -
  have "decode_eip1559 c p hash \<noteq> NoFuel" for p hash
    unfolding decode_eip1559_def Let_def by (intro decode_fuel)
  moreover have "decode_legacy c p hash \<noteq> NoFuel" for p hash
    unfolding decode_legacy_def Let_def by (intro decode_fuel)
  ultimately show ?thesis by (simp add: decode_raw_tx_def Let_def split: list.split)
qed

definition tx_ok :: "signed_transaction \<Rightarrow> bool" where
  "tx_ok tx \<longleftrightarrow> length (stx_sender tx) = 20 \<and> (\<forall>a. stx_to tx = Some a \<longrightarrow> length a = 20)"

lemmas decode_unfold = try_some_Inr try_result_Inr obind_Done_iff Let_def

lemma decode_eip1559_ok:
  assumes "decode_eip1559 c payload hash = Done (Inr tx)"
  shows "tx_ok tx \<and> stx_hash tx = hash \<and> stx_tx_type tx = Eip1559"
  using assms unfolding decode_eip1559_def decode_unfold
  by (auto simp: tx_ok_def decode_unfold recover_sender_length dest!: decode_to_Done split: if_splits)

lemma decode_legacy_ok:
  assumes "decode_legacy c payload hash = Done (Inr tx)"
  shows "tx_ok tx \<and> stx_hash tx = hash \<and> stx_tx_type tx = Legacy \<and>
    stx_max_priority_fee_per_gas tx = stx_max_fee_per_gas tx"
  using assms unfolding decode_legacy_def decode_unfold
  by (auto simp: tx_ok_def decode_unfold recover_sender_length dest!: decode_to_Done split: if_splits)

section \<open>Properties\<close>

text \<open>C34.  A transaction that decodes carries the hash of the raw bytes, a sender and a recipient of 20 bytes, and the type that
  the first byte of the envelope announces; a legacy transaction uses its gas price for both fees.\<close>

theorem decoded_transaction:
  assumes "decode_raw_tx c raw = Done (Inr tx)"
  shows "stx_hash tx = tx_keccak c raw \<and> tx_ok tx \<and>
    (hd raw = 0x02 \<and> stx_tx_type tx = Eip1559 \<or>
     hd raw \<ge> 0xc0 \<and> stx_tx_type tx = Legacy \<and> stx_max_priority_fee_per_gas tx = stx_max_fee_per_gas tx)"
proof (cases raw)
  case (Cons b rest)
  with assms show ?thesis
    by (auto simp: decode_raw_tx_def Let_def dest!: decode_eip1559_ok decode_legacy_ok split: if_splits)
qed (use assms in \<open>simp add: decode_raw_tx_def\<close>)

text \<open>Stand-ins for the crates: every payload is a list of nine items whose recipient field is given.\<close>

definition sample_crates :: "bytes \<Rightarrow> tx_crates" where
  "sample_crates recipient =
     \<lparr>tx_keccak = (\<lambda>_. replicate 32 7), rlp_is_list = (\<lambda>_. True), rlp_item_count = (\<lambda>_. Some 9),
      rlp_u8_at = (\<lambda>_ _. Some 0), rlp_u64_at = (\<lambda>_ i. Some (if i = 6 then 37 else 5)), rlp_u256_at = (\<lambda>_ _. Some 1),
      rlp_bytes_at = (\<lambda>_ i. Some (if i = 3 then recipient else [1])), rlp_stream = (\<lambda>_. []),
      recovery_id_from_i32 = (\<lambda>i. i < 4), signature_from_compact = (\<lambda>bs i. Some bs),
      recover_ecdsa = (\<lambda>d s. Some (replicate 65 4))\<rparr>"

lemma sample_decodes:
  "\<exists>tx. decode_raw_tx (sample_crates []) [0xc1] = Done (Inr tx) \<and> stx_chain_id tx = Some 1"
  by (simp add: decode_raw_tx_def Let_def decode_legacy_def sample_crates_def try_some_def decode_to_def try_result_def
      legacy_v_def recover_sender_def address_from_slice_def)

theorem decoded_transaction_witness:
  "\<exists>tx. decode_raw_tx (sample_crates []) [0xc1] = Done (Inr tx) \<and> stx_tx_type tx = Legacy \<and> length (stx_sender tx) = 20"
proof -
  from sample_decodes obtain tx where tx: "decode_raw_tx (sample_crates []) [0xc1] = Done (Inr tx)" by blast
  from decoded_transaction[OF this] have "stx_tx_type tx = Legacy" "length (stx_sender tx) = 20"
    by (auto simp: tx_ok_def)
  with tx show ?thesis by blast
qed

text \<open>A legacy transaction whose recipient field is neither empty nor 20 bytes long makes the decoder panic, before any
  signature is looked at: the slice is handed to \<open>H160::from_slice\<close> unchecked.\<close>

lemma bad_recipient_panics:
  assumes "raw \<noteq> []" "hd raw \<ge> 0xc0" "rlp_is_list c raw" "rlp_item_count c raw = Some items" "9 \<le> items"
    "rlp_u64_at c raw 0 = Some nonce" "rlp_u256_at c raw 1 = Some price" "rlp_u64_at c raw 2 = Some gas"
    "rlp_bytes_at c raw 3 = Some recipient" "length recipient \<noteq> 0" "length recipient \<noteq> 20"
  shows "decode_raw_tx c raw = Panic"
proof (cases raw)
  case (Cons b rest)
  have "b \<noteq> 0x02" using assms(2) Cons by auto
  with assms Cons show ?thesis
    by (simp add: decode_raw_tx_def Let_def decode_legacy_def try_some_def decode_to_def address_from_slice_def)
qed (use assms(1) in simp)

lemma bad_recipient_panics_example: "decode_raw_tx (sample_crates [1, 2, 3]) [0xc1] = Panic"
  by (rule bad_recipient_panics[where items = 9 and nonce = 5 and price = 1 and gas = 5 and recipient = "[1, 2, 3]"])
    (simp_all add: sample_crates_def)

end
