(* ===== verification/EvmSimulation.thy ===== *)
theory EvmSimulation
  imports EvmPinned EvmTermination EvmTx
begin

text \<open>
  Transactions on top of the interpreter: the simulation of a call on a copy of the state (\<open>src/simulation.rs\<close>)
  and the application of a signed transaction to the state (\<open>src/vm/runner.rs\<close>).  Both come to an end because the
  interpreter does; a simulation that fails shows no state change, and a transaction that fails changes the nonce
  and the balance of its sender only.
\<close>

section \<open>Simulation of a call\<close>

record simulation_result =
  sim_success :: bool
  sim_gas_used :: u64
  sim_return_data :: bytes
  sim_state_diff :: "(address, account_state) hashmap"
  sim_logs :: "log_record list"

text \<open>The machine that both entry points set up for a call: the code of the target, and the call context.\<close>

definition call_machine :: "state_fork \<Rightarrow> address \<Rightarrow> address \<Rightarrow> bytes \<Rightarrow> u256 \<Rightarrow> bytes \<Rightarrow> u64 \<Rightarrow> evm" where
  "call_machine st caller target c v input gas_limit =
     (new_with_gas c gas_limit)
       \<lparr>state := st,
        txc := default_tx_context\<lparr>cx_caller := caller, cx_address := target, cx_value := value_u128 v, calldata := input\<rparr>,
        storage_address := target\<rparr>"

definition is_success :: "execution_result \<Rightarrow> bool" where
  "is_success r = (case r of Halt \<Rightarrow> True | Return d \<Rightarrow> True | _ \<Rightarrow> False)"

definition output_of :: "execution_result \<Rightarrow> bytes \<Rightarrow> bytes" where
  "output_of r d = (case r of Return b \<Rightarrow> b | Revert b \<Rightarrow> b | _ \<Rightarrow> d)"

definition simulate_tx ::
    "nat \<Rightarrow> host \<Rightarrow> state_fork \<Rightarrow> address \<Rightarrow> address \<Rightarrow> u256 \<Rightarrow> bytes \<Rightarrow> u64 \<Rightarrow> simulation_result outcome" where
  "simulate_tx n h st caller target v input gas_limit =
     (let vm = call_machine st caller target (get_code st target) v input gas_limit;
          ss = snapshot (state vm);
          caller_balance = get_balance (snd ss) caller
      in if caller_balance < v
         then Done \<lparr>sim_success = False, sim_gas_used = 0, sim_return_data = [], sim_state_diff = [], sim_logs = []\<rparr>
         else let st1 = set_balance (snd ss) caller (caller_balance - v);
                  st2 = set_balance st1 target (get_balance st1 target + v)
              in obind (run n h (vm\<lparr>state := st2\<rparr>)) (\<lambda>rvm.
                 let success = is_success (fst rvm); vm1 = snd rvm;
                     st3 = (if success then state vm1 else revert_to_snapshot (state vm1) (fst ss))
                 in Done \<lparr>sim_success = success, sim_gas_used = saturating_sub gas_limit (gas_left vm1),
                          sim_return_data = output_of (fst rvm) (return_data vm1),
                          sim_state_diff = dirty_state st3, sim_logs = logs vm1\<rparr>))"

lemma settled_simulate [settled_intros]: "settled (\<lambda>n. simulate_tx n h st caller target v input g)"
  unfolding simulate_tx_def Let_def by (intro settled_intros) simp_all

lemma simulate_poor:
  assumes "get_balance st caller < v"
  shows "simulate_tx n h st caller target v input g =
    Done \<lparr>sim_success = False, sim_gas_used = 0, sim_return_data = [], sim_state_diff = [], sim_logs = []\<rparr>"
  using assms by (simp add: simulate_tx_def Let_def call_machine_def get_balance_def)

lemma simulate_failure:
  assumes "fork_ok st" "simulate_tx n h st caller target v input g = Done res" "\<not> sim_success res"
    "v \<le> get_balance st caller"
  shows "sim_state_diff res = dirty_state st"
proof -
  let ?st1 = "set_balance (snd (snapshot st)) caller (get_balance st caller - v)"
  let ?st2 = "set_balance ?st1 target (get_balance ?st1 target + v)"
  let ?vm = "(call_machine st caller target (get_code st target) v input g)\<lparr>state := ?st2\<rparr>"
  have bal: "get_balance (snd (snapshot st)) caller = get_balance st caller"
    by (simp add: get_balance_def)
  from assms(2-4) obtain r vm1 where r: "run n h ?vm = Done (r, vm1)"
    and d: "sim_state_diff res = dirty_state (revert_to_snapshot (state vm1) (fst (snapshot st)))"
    by (auto simp: simulate_tx_def Let_def bal call_machine_def obind_Done_iff not_less[symmetric] split: if_splits)
  have "fork_run (fst (snapshot st)) {} (snd (snapshot st)) (state ?vm)"
    by (auto intro!: run_balance run_refl)
  from revert_after_run(1)[OF assms(1) this r] show ?thesis by (simp add: d)
qed

section \<open>Application of a signed transaction\<close>

record tx_execution_receipt =
  rcpt_tx_hash :: bytes
  rcpt_status :: u64
  rcpt_gas_used :: u64
  rcpt_logs :: "log_record list"

datatype execution_error =
    NonceMismatch u64 u64
  | InsufficientBalance
  | VmExecutionError string

definition max_gas_cost :: "signed_transaction \<Rightarrow> u256" where
  "max_gas_cost tx = of_nat (stx_gas_limit tx) * stx_max_fee_per_gas tx"

definition apply_signed_transaction ::
    "nat \<Rightarrow> host \<Rightarrow> state_fork \<Rightarrow> signed_transaction \<Rightarrow> ((execution_error + tx_execution_receipt) \<times> state_fork) outcome" where
  "apply_signed_transaction n h st tx =
     (let sender = stx_sender tx; current_nonce = acc_nonce (get_account st sender)
      in if current_nonce \<noteq> stx_nonce tx then Done (Inl (NonceMismatch current_nonce (stx_nonce tx)), st)
         else let total_upfront_cost = stx_value tx + max_gas_cost tx; sender_balance = get_balance st sender
      in if sender_balance < total_upfront_cost then Done (Inl InsufficientBalance, st)
         else obind (add_u64 current_nonce 1) (\<lambda>next_nonce.
         let st1 = set_nonce (set_balance st sender (sender_balance - max_gas_cost tx)) sender next_nonce;
             target = unwrap_or zero_address (stx_to tx);
             c = (case stx_to tx of Some a \<Rightarrow> get_code st1 a | None \<Rightarrow> [])
         in obind (run n h (call_machine st1 sender target c (stx_value tx) (stx_data tx) (stx_gas_limit tx))) (\<lambda>rvm.
            let vm = snd rvm; ok = is_success (fst rvm);
                st2 = (if ok then state vm else st1);
                gas_used = saturating_sub (stx_gas_limit tx) (gas_left vm);
                unused_gas = saturating_sub (stx_gas_limit tx) gas_used;
                refund_amount = of_nat unused_gas * stx_max_fee_per_gas tx;
                st3 = set_balance st2 sender (get_balance st2 sender + refund_amount)
            in Done (Inr \<lparr>rcpt_tx_hash = stx_hash tx, rcpt_status = (if ok then 1 else 0), rcpt_gas_used = gas_used,
                          rcpt_logs = (if ok then logs vm else [])\<rparr>, st3))))"

lemma settled_apply [settled_intros]: "settled (\<lambda>n. apply_signed_transaction n h st tx)"
proof -
  have "add_u64 a b \<noteq> NoFuel" for a b by (simp add: add_u64_def)
  then show ?thesis unfolding apply_signed_transaction_def Let_def by (intro settled_intros) simp_all
qed

lemma apply_rejects:
  assumes "apply_signed_transaction n h st tx = Done (Inl err, st')"
  shows "st' = st \<and> (if acc_nonce (get_account st (stx_sender tx)) \<noteq> stx_nonce tx
    then err = NonceMismatch (acc_nonce (get_account st (stx_sender tx))) (stx_nonce tx)
    else err = InsufficientBalance \<and> get_balance st (stx_sender tx) < stx_value tx + max_gas_cost tx)"
  using assms by (auto simp: apply_signed_transaction_def Let_def obind_Done_iff split: if_splits)

text \<open>Refunding the unused gas leaves the used gas charged, in the ring of words.\<close>

lemma refund_charges:
  fixes b f :: u256
  shows "b - of_nat l * f + of_nat (l - (l - g)) * f = b - of_nat (l - min g l) * f"
proof -
  have "l - (l - g) = min g l" by simp
  moreover have "of_nat (l - min g l) = (of_nat l - of_nat (min g l) :: u256)" by (simp add: of_nat_diff)
  ultimately show ?thesis by (simp add: algebra_simps)
qed

lemma apply_failed:
  assumes "apply_signed_transaction n h st tx = Done (Inr rcpt, st')" "rcpt_status rcpt = 0"
  defines "s \<equiv> stx_sender tx"
  shows "st' = set_balance (set_nonce (set_balance st s (get_balance st s - max_gas_cost tx)) s (stx_nonce tx + 1)) s
      (get_balance st s - of_nat (rcpt_gas_used rcpt) * stx_max_fee_per_gas tx)"
    "rcpt_gas_used rcpt \<le> stx_gas_limit tx" "rcpt_logs rcpt = []"
    "acc_nonce (get_account st s) = stx_nonce tx"
proof -
  let ?st1 = "set_nonce (set_balance st s (get_balance st s - max_gas_cost tx)) s (stx_nonce tx + 1)"
  have bal: "get_balance ?st1 s = get_balance st s - max_gas_cost tx"
    by (simp add: get_balance_def set_nonce_def set_balance_def)
  from assms(1,2) obtain g where
    st': "st' = set_balance ?st1 s (get_balance ?st1 s + of_nat (stx_gas_limit tx - (stx_gas_limit tx - g)) * stx_max_fee_per_gas tx)"
    and g: "rcpt_gas_used rcpt = stx_gas_limit tx - g" "rcpt_logs rcpt = []" "acc_nonce (get_account st s) = stx_nonce tx"
    by (auto simp: apply_signed_transaction_def Let_def obind_Done_iff add_u64_def s_def saturating_sub_def split: if_splits)
  have used: "stx_gas_limit tx - min g (stx_gas_limit tx) = rcpt_gas_used rcpt" using g(1) by simp
  show "st' = set_balance ?st1 s (get_balance st s - of_nat (rcpt_gas_used rcpt) * stx_max_fee_per_gas tx)"
    unfolding st' bal unfolding max_gas_cost_def refund_charges used ..
  show "rcpt_gas_used rcpt \<le> stx_gas_limit tx" "rcpt_logs rcpt = []" "acc_nonce (get_account st s) = stx_nonce tx"
    using g by simp_all
qed

section \<open>Properties\<close>

text \<open>The program INVALID, as an example of a failing run.\<close>

lemma invalid_run:
  assumes "code e = [OP_INVALID]" "pc e = 0" "tracer e = None"
    "storage e = []" "balances e = []" "nonces e = []" "contracts e = []"
  shows "\<exists>e'. run 1 h e = Done (InvalidOpcode OP_INVALID, e')"
proof -
  have "sync_legacy_state_into_fork e = e" using assms(4-7) by (simp add: sync_legacy_state_into_fork_def Let_def)
  moreover have "gas_table OP_INVALID = 0" by (simp add: gas_table_def gas_table_2_def gas_table_1_def fill_range_def)
  moreover have "dispatch_table h rc OP_INVALID = op_invalid_opcode" for rc
    by (simp add: dispatch_table_def dispatch_context_def)
  ultimately show ?thesis
    using assms(1-3) by (simp add: run_def run_without_sync_Suc step_def Let_def trace_step_def op_invalid_opcode_def handler_result_def)
qed

lemma invalid_call_machine_run:
  "\<exists>e'. run 1 h (call_machine st caller target [OP_INVALID] v input g) = Done (InvalidOpcode OP_INVALID, e')"
  by (rule invalid_run) (simp_all add: call_machine_def new_with_gas_def)

text \<open>A call to an account without code succeeds with any gas.\<close>

lemma empty_code_run:
  assumes "code e = []" "storage e = []" "balances e = []" "nonces e = []" "contracts e = []"
  shows "\<exists>e'. run 1 h e = Done (Halt, e')"
  using assms by (simp add: run_def run_without_sync_Suc sync_legacy_state_into_fork_def Let_def)

lemma empty_code_simulates:
  "\<exists>res. simulate_tx 1 h default_fork caller target 0 input g = Done res \<and> sim_success res"
proof -
  have code: "get_code default_fork target = []" by (simp add: get_code_def get_account_def default_fork_def default_account_def)
  have "\<exists>e'. run 1 h ((call_machine default_fork caller target [] 0 input g)\<lparr>state := st\<rparr>) = Done (Halt, e')" for st
    by (rule empty_code_run) (simp_all add: call_machine_def new_with_gas_def)
  then obtain f where "run 1 h ((call_machine default_fork caller target [] 0 input g)\<lparr>state := st\<rparr>) = Done (Halt, f st)" for st
    by metis
  then show ?thesis unfolding simulate_tx_def Let_def code by (simp add: is_success_def)
qed

text \<open>C29.  A simulation that fails leaves no effect of the call in its state diff.  When the caller cannot pay the value
  nothing is run: the diff, the logs and the returned data are empty and no gas is used.  Otherwise the diff is the dirty accounts of
  the state it started from: no write of the failed call, of its nested calls or of the value transfer is left in it (the
  logs of the failed run are reported as they stand).\<close>

theorem failed_simulation_restores:
  assumes "fork_ok st" "simulate_tx n h st caller target v input g = Done res" "\<not> sim_success res"
  shows "if get_balance st caller < v
    then res = \<lparr>sim_success = False, sim_gas_used = 0, sim_return_data = [], sim_state_diff = [], sim_logs = []\<rparr>
    else sim_state_diff res = dirty_state st"
proof (cases "get_balance st caller < v")
  case True
  with assms(2) show ?thesis by (simp add: simulate_poor)
next
  case False
  then show ?thesis using simulate_failure[OF assms] by simp
qed

definition sample_state :: state_fork where
  "sample_state = set_code (set_balance default_fork [1] 100) [2] [OP_INVALID]"

lemma sample_state_facts:
  "fork_ok sample_state" "get_balance sample_state [1] = 100" "get_code sample_state [2] = [OP_INVALID]"
  "acc_nonce (get_account sample_state [1]) = 0"
proof -
  have "fork_ok default_fork" by (simp add: fork_ok_def default_fork_def accounts_ok_def snapshots_ok_def)
  then show "fork_ok sample_state" by (simp add: sample_state_def writers_ok)
qed (simp_all add: sample_state_def get_balance_def get_code_def set_code_def set_balance_def,
     simp add: get_account_def default_fork_def default_account_def)

theorem failed_simulation_restores_witness:
  "(\<exists>res. simulate_tx 1 flat_host sample_state [1] [2] 30 [] 5000 = Done res \<and> \<not> sim_success res \<and>
      sim_state_diff res = dirty_state sample_state) \<and>
   (\<exists>res. simulate_tx 1 flat_host sample_state [1] [2] 200 [] 5000 = Done res \<and> \<not> sim_success res \<and>
      sim_state_diff res = [])"
proof (rule conjI)
  let ?vm = "call_machine sample_state [1] [2] [OP_INVALID] 30 [] 5000"
  let ?st1 = "set_balance (snd (snapshot sample_state)) [1] (100 - 30)"
  have f: "get_code sample_state [2] = [OP_INVALID]" "state ?vm = sample_state" "get_balance (snd (snapshot sample_state)) [1] = 100"
    using sample_state_facts(2,3) by (simp_all add: call_machine_def get_balance_def)
  have "\<exists>e'. run 1 flat_host (?vm\<lparr>state := set_balance ?st1 [2] (get_balance ?st1 [2] + 30)\<rparr>) = Done (InvalidOpcode OP_INVALID, e')"
    by (rule invalid_run) (simp_all add: call_machine_def new_with_gas_def)
  then obtain res where "simulate_tx 1 flat_host sample_state [1] [2] 30 [] 5000 = Done res" "\<not> sim_success res"
    unfolding simulate_tx_def Let_def f by (auto simp: is_success_def)
  moreover from failed_simulation_restores[OF sample_state_facts(1) this] have "sim_state_diff res = dirty_state sample_state"
    by (simp add: sample_state_facts)
  ultimately show "\<exists>res. simulate_tx 1 flat_host sample_state [1] [2] 30 [] 5000 = Done res \<and> \<not> sim_success res \<and>
      sim_state_diff res = dirty_state sample_state" by blast
next
  obtain res where res: "simulate_tx 1 flat_host sample_state [1] [2] 200 [] 5000 = Done res" "\<not> sim_success res"
    by (simp add: simulate_poor sample_state_facts)
  from failed_simulation_restores[OF sample_state_facts(1) this] have "sim_state_diff res = []"
    by (simp add: sample_state_facts)
  with res show "\<exists>res. simulate_tx 1 flat_host sample_state [1] [2] 200 [] 5000 = Done res \<and> \<not> sim_success res \<and>
      sim_state_diff res = []" by blast
qed

text \<open>C30.  A transaction that is included but fails costs its sender exactly the gas it used at the maximum fee and one
  nonce; no other balance, nonce, code or storage cell changes, and the receipt has no logs.\<close>

theorem failed_transaction_accounting:
  assumes "apply_signed_transaction n h st tx = Done (Inr rcpt, st')" "rcpt_status rcpt = 0"
  shows "rcpt_gas_used rcpt \<le> stx_gas_limit tx \<and> rcpt_logs rcpt = [] \<and>
    get_balance st' = (get_balance st)(stx_sender tx := get_balance st (stx_sender tx)
      - of_nat (rcpt_gas_used rcpt) * stx_max_fee_per_gas tx) \<and>
    (\<lambda>a. acc_nonce (get_account st' a)) = (\<lambda>a. acc_nonce (get_account st a))(stx_sender tx := stx_nonce tx + 1) \<and>
    get_code st' = get_code st \<and> get_storage st' = get_storage st"
  using apply_failed[OF assms]
  by (auto simp: fun_eq_iff get_balance_def get_code_def get_storage_def set_balance_def set_nonce_def)

definition sample_tx :: signed_transaction where
  "sample_tx = \<lparr>stx_hash = [], stx_tx_type = Legacy, stx_chain_id = None, stx_nonce = 0, stx_gas_limit = 30,
     stx_max_fee_per_gas = 2, stx_max_priority_fee_per_gas = 2, stx_to = Some [2], stx_value = 1, stx_data = [],
     stx_sender = [1]\<rparr>"

lemma sample_tx_fails:
  "\<exists>rcpt st'. apply_signed_transaction 1 flat_host sample_state sample_tx = Done (Inr rcpt, st') \<and> rcpt_status rcpt = 0"
proof -
  let ?st = "set_nonce (set_balance sample_state [1] 40) [1] 1"
  have "get_code ?st [2] = [OP_INVALID]"
    using sample_state_facts(3) by (simp add: get_code_def set_nonce_def set_balance_def)
  then obtain e' where "run 1 flat_host (call_machine ?st [1] [2] (get_code ?st [2]) 1 [] 30) = Done (InvalidOpcode OP_INVALID, e')"
    using invalid_call_machine_run by metis
  then show ?thesis
    using sample_state_facts(2,4) by (simp add: apply_signed_transaction_def Let_def sample_tx_def max_gas_cost_def add_u64_def is_success_def)
qed

theorem failed_transaction_accounting_witness:
  "\<exists>rcpt st'. apply_signed_transaction 1 flat_host sample_state sample_tx = Done (Inr rcpt, st') \<and> rcpt_status rcpt = 0 \<and>
     get_code st' = get_code sample_state"
  using sample_tx_fails failed_transaction_accounting by metis

end
