(* ===== verification/EvmMempool.thy ===== *)
theory EvmMempool
  imports EvmTx
begin

text \<open>
  The transaction pool of \<open>src/mempool/mod.rs\<close>.  A \<open>BTreeMap\<close> is an association list sorted by key, behind the
  locale \<open>ordered_map\<close>; the \<open>HashMap\<close> of senders is walked in an order \<open>po\<close> that is a parameter.  The lock
  around the map is not modelled: it is poisoned only by a panic while it is held, and \<open>pop_executable\<close> is shown
  not to panic.  The selection of transactions is specified by the relation \<open>selection\<close> on the abstract pool, a map
  from senders and nonces, which \<open>pop_executable\<close> refines; what a block may contain follows from the relation.
\<close>

section \<open>Ordered maps\<close>

text \<open>The contract of a \<open>BTreeMap\<close>, as far as the pool uses it.\<close>

locale ordered_map =
  fixes wf :: "'m \<Rightarrow> bool" and get :: "'m \<Rightarrow> 'k :: linorder \<Rightarrow> 'v option" and put :: "'k \<Rightarrow> 'v \<Rightarrow> 'm \<Rightarrow> 'm"
    and remove :: "'k \<Rightarrow> 'm \<Rightarrow> 'm" and first :: "'m \<Rightarrow> ('k \<times> 'v) option"
  assumes put_wf: "wf m \<Longrightarrow> wf (put k v m)" and remove_wf: "wf m \<Longrightarrow> wf (remove k m)"
    and get_put: "wf m \<Longrightarrow> get (put k v m) = (get m)(k \<mapsto> v)"
    and get_remove: "wf m \<Longrightarrow> get (remove k m) = (get m)(k := None)"
    and first_Some: "wf m \<Longrightarrow> first m = Some (k, v) \<longleftrightarrow> get m k = Some v \<and> (\<forall>k'. get m k' \<noteq> None \<longrightarrow> k \<le> k')"
begin

lemma first_remove:
  assumes "wf m" "first m = Some (k, v)" "first (remove k m) = Some (k', v')" shows "k < k'"
proof -
  have "get (remove k m) k' = Some v'" using assms by (simp add: first_Some remove_wf)
  then have "k' \<noteq> k" "get m k' = Some v'" using assms(1) by (auto simp: get_remove split: if_splits)
  moreover have "k \<le> k'" using assms(1,2) \<open>get m k' = Some v'\<close> by (simp add: first_Some)
  ultimately show ?thesis by simp
qed

lemma first_least: "wf m \<Longrightarrow> first m = Some (k, v) \<Longrightarrow> get m k' = Some v' \<Longrightarrow> k \<le> k'"
  by (simp add: first_Some)

end

type_synonym ('k, 'v) btree = "('k \<times> 'v) list"

definition bt_wf :: "('k :: linorder, 'v) btree \<Rightarrow> bool" where
  "bt_wf m \<longleftrightarrow> sorted_wrt (<) (map fst m)"

fun bt_insert :: "'k :: linorder \<Rightarrow> 'v \<Rightarrow> ('k, 'v) btree \<Rightarrow> ('k, 'v) btree" where
  "bt_insert k v [] = [(k, v)]"
| "bt_insert k v (kv # m) =
     (if k < fst kv then (k, v) # kv # m else if k = fst kv then (k, v) # m else kv # bt_insert k v m)"

definition bt_first :: "('k, 'v) btree \<Rightarrow> ('k \<times> 'v) option" where
  "bt_first m = (case m of [] \<Rightarrow> None | kv # _ \<Rightarrow> Some kv)"

abbreviation bt_remove :: "'k \<Rightarrow> ('k, 'v) btree \<Rightarrow> ('k, 'v) btree" where
  "bt_remove k m \<equiv> AList.delete k m"

lemma fst_bt_insert: "set (map fst (bt_insert k v m)) = insert k (set (map fst m))"
  by (induction k v m rule: bt_insert.induct) auto

lemma bt_insert_wf: "bt_wf m \<Longrightarrow> bt_wf (bt_insert k v m)"
proof (induction k v m rule: bt_insert.induct)
  case (2 k v kv m)
  then show ?case using fst_bt_insert[of k v m] by (auto simp: bt_wf_def)
qed (simp add: bt_wf_def)

lemma bt_get_insert: "bt_wf m \<Longrightarrow> map_of (bt_insert k v m) = (map_of m)(k \<mapsto> v)"
proof (induction k v m rule: bt_insert.induct)
  case (2 k v kv m)
  then show ?case by (cases kv) (auto simp: fun_eq_iff bt_wf_def)
qed simp

lemma bt_remove_wf: "bt_wf m \<Longrightarrow> bt_wf (bt_remove k m)"
  by (auto simp: bt_wf_def AList.delete_eq sorted_wrt_map sorted_wrt_filter)

lemma bt_first_Some:
  assumes "bt_wf m"
  shows "bt_first m = Some (k, v) \<longleftrightarrow> map_of m k = Some v \<and> (\<forall>k'. map_of m k' \<noteq> None \<longrightarrow> k \<le> k')"
proof (cases m)
  case (Cons kv rest)
  obtain a b where kv: "kv = (a, b)" by (cases kv)
  have least: "a \<le> k'" if "map_of m k' \<noteq> None" for k'
  proof -
    have "k' \<in> fst ` set m" using that by (simp add: map_of_eq_None_iff)
    then show ?thesis using assms Cons kv by (auto simp: bt_wf_def)
  qed
  have here: "map_of m a = Some b" using Cons kv by simp
  show ?thesis
  proof
    assume "bt_first m = Some (k, v)"
    then have "k = a" "v = b" using Cons kv by (simp_all add: bt_first_def)
    with least here show "map_of m k = Some v \<and> (\<forall>k'. map_of m k' \<noteq> None \<longrightarrow> k \<le> k')" by blast
  next
    assume r: "map_of m k = Some v \<and> (\<forall>k'. map_of m k' \<noteq> None \<longrightarrow> k \<le> k')"
    then have "k = a" using least[of k] here by (metis antisym option.distinct(1))
    with r here show "bt_first m = Some (k, v)" using Cons kv by (simp add: bt_first_def)
  qed
qed (simp add: bt_first_def)

interpretation btree: ordered_map bt_wf map_of bt_insert AList.delete bt_first
  by unfold_locales (auto simp: bt_insert_wf bt_remove_wf bt_get_insert bt_first_Some fun_eq_iff)

section \<open>The pool\<close>

record pending_tx =
  ptx_raw :: bytes
  ptx_tx :: signed_transaction
  ptx_sender :: address
  ptx_nonce :: u64
  ptx_max_priority_fee_per_gas :: u256
  ptx_gas_limit :: u64

type_synonym pool_map = "(address, (u64, pending_tx) btree) hashmap"

record tx_pool =
  by_sender :: pool_map
  min_tip :: u256

definition pool_new :: tx_pool where
  "pool_new = \<lparr>by_sender = [], min_tip = 0\<rparr>"

definition with_min_tip :: "u256 \<Rightarrow> tx_pool" where
  "with_min_tip tip = \<lparr>by_sender = [], min_tip = tip\<rparr>"

definition pending_of :: "address \<Rightarrow> signed_transaction \<Rightarrow> bytes \<Rightarrow> pending_tx" where
  "pending_of sender tx raw =
     \<lparr>ptx_raw = raw, ptx_tx = tx, ptx_sender = sender, ptx_nonce = stx_nonce tx,
      ptx_max_priority_fee_per_gas = stx_max_priority_fee_per_gas tx, ptx_gas_limit = stx_gas_limit tx\<rparr>"

definition pool_insert :: "tx_pool \<Rightarrow> address \<Rightarrow> signed_transaction \<Rightarrow> bytes \<Rightarrow> (string + unit) \<times> tx_pool" where
  "pool_insert p sender tx raw =
     (if stx_max_priority_fee_per_gas tx < min_tip p
      then (Inl ''transaction tip is below the pool minimum'', p)
      else let pool = (if hm_get (by_sender p) sender = None then hm_insert sender [] (by_sender p) else by_sender p);
               transactions = unwrap_or [] (hm_get pool sender)
           in if map_of transactions (stx_nonce tx) \<noteq> None
              then (Inl ''replacement transactions are not supported'', p\<lparr>by_sender := pool\<rparr>)
              else (Inr (), p\<lparr>by_sender := hm_insert sender
                      (bt_insert (stx_nonce tx) (pending_of sender tx raw) transactions) pool\<rparr>))"

definition senders :: "(pool_map \<Rightarrow> pool_map) \<Rightarrow> tx_pool \<Rightarrow> address list" where
  "senders po p = map fst (po (by_sender p))"

definition pool_len :: "tx_pool \<Rightarrow> usize" where
  "pool_len p = sum_list (map (length \<circ> snd) (by_sender p))"

definition pool_is_empty :: "tx_pool \<Rightarrow> bool" where
  "pool_is_empty p \<longleftrightarrow> pool_len p = 0"

definition pool_pending :: "(pool_map \<Rightarrow> pool_map) \<Rightarrow> tx_pool \<Rightarrow> pending_tx list" where
  "pool_pending po p = concat (map (map snd \<circ> snd) (po (by_sender p)))"

subsection \<open>Selection of the transactions of a block\<close>

type_synonym candidate = "address \<times> u64 \<times> u256"

text \<open>One round of the inner \<open>for\<close>: the best candidate so far, and the next sender of the pool.\<close>

definition better ::
    "(address, u64) hashmap \<Rightarrow> u64 \<Rightarrow> u64 \<Rightarrow> candidate option \<Rightarrow> address \<times> (u64, pending_tx) btree \<Rightarrow> candidate option" where
  "better active gas_used block_gas_limit best st =
     (case bt_first (snd st) of
        None \<Rightarrow> best
      | Some (nonce, transaction) \<Rightarrow>
          if nonce \<noteq> unwrap_or 0 (hm_get active (fst st))
             \<or> saturating_add gas_used (ptx_gas_limit transaction) > block_gas_limit
          then best
          else let new = Some (fst st, nonce, ptx_max_priority_fee_per_gas transaction)
               in case best of
                    None \<Rightarrow> new
                  | Some (_, _, tip) \<Rightarrow> if ptx_max_priority_fee_per_gas transaction > tip then new else best)"

definition best_candidate ::
    "(pool_map \<Rightarrow> pool_map) \<Rightarrow> (address, u64) hashmap \<Rightarrow> u64 \<Rightarrow> u64 \<Rightarrow> pool_map \<Rightarrow> candidate option" where
  "best_candidate po active gas_used block_gas_limit pool =
     foldl (better active gas_used block_gas_limit) None (po pool)"

definition pool_size :: "pool_map \<Rightarrow> nat" where
  "pool_size pool = sum_list (map (length \<circ> snd) pool)"

lemma pool_size_insert:
  "map_of pool s = Some t \<Longrightarrow> pool_size (hm_insert s t' pool) + length t = pool_size pool + length t'"
  by (induction pool) (auto simp: pool_size_def)

lemma pool_size_remove: "pool_size (hm_remove s pool) \<le> pool_size pool"
  by (induction pool) (auto simp: pool_size_def AList.delete_eq)

lemma pool_size_remove_key:
  "map_of pool s = Some t \<Longrightarrow> t \<noteq> [] \<Longrightarrow> pool_size (hm_remove s pool) < pool_size pool"
proof (induction pool)
  case (Cons x pool)
  then show ?case using pool_size_remove[of s pool]
    by (cases t) (auto simp: pool_size_def split: if_splits)
qed simp

lemma length_bt_remove: "map_of t k = Some v \<Longrightarrow> length (bt_remove k t) < length t"
  by (auto simp: AList.delete_eq intro!: length_filter_less dest: map_of_SomeD)

definition take_transaction :: "pool_map \<Rightarrow> address \<Rightarrow> (u64, pending_tx) btree \<Rightarrow> u64 \<Rightarrow> pool_map" where
  "take_transaction pool sender transactions nonce =
     (let rest = bt_remove nonce transactions
      in if rest = [] then hm_remove sender pool else hm_insert sender rest pool)"

lemma take_transaction_smaller:
  assumes "map_of pool s = Some t" "map_of t k = Some v"
  shows "pool_size (take_transaction pool s t k) < pool_size pool"
proof -
  have "t \<noteq> []" using assms(2) by auto
  then show ?thesis
    using pool_size_remove_key[OF assms(1)] pool_size_insert[OF assms(1), of "bt_remove k t"] length_bt_remove[OF assms(2)]
    by (simp add: take_transaction_def Let_def)
qed

function pop_loop ::
    "(pool_map \<Rightarrow> pool_map) \<Rightarrow> u64 \<Rightarrow> pool_map \<Rightarrow> (address, u64) hashmap \<Rightarrow> u64 \<Rightarrow> pending_tx list
     \<Rightarrow> (pending_tx list \<times> pool_map) outcome" where
  "pop_loop po block_gas_limit pool active gas_used selected =
     (case best_candidate po active gas_used block_gas_limit pool of
        None \<Rightarrow> Done (selected, pool)
      | Some (sender, nonce, _) \<Rightarrow>
     (case map_of pool sender of
        None \<Rightarrow> Panic
      | Some transactions \<Rightarrow>
     (case map_of transactions nonce of
        None \<Rightarrow> Panic
      | Some transaction \<Rightarrow>
          pop_loop po block_gas_limit (take_transaction pool sender transactions nonce)
            (hm_insert sender (saturating_add nonce 1) active)
            (saturating_add gas_used (ptx_gas_limit transaction)) (selected @ [transaction]))))"
  by pat_completeness auto
termination
  by (relation "measure (\<lambda>(po, limit, pool, active, gas, sel). pool_size pool)") (auto intro: take_transaction_smaller)

declare pop_loop.simps [simp del]

definition pop_executable ::
    "(pool_map \<Rightarrow> pool_map) \<Rightarrow> tx_pool \<Rightarrow> (address, u64) hashmap \<Rightarrow> u64 \<Rightarrow> (pending_tx list \<times> tx_pool) outcome" where
  "pop_executable po p current_nonces block_gas_limit =
     obind (pop_loop po block_gas_limit (by_sender p) current_nonces 0 []) (\<lambda>sp.
     Done (fst sp, p\<lparr>by_sender := snd sp\<rparr>))"

section \<open>Specification of the selection\<close>

text \<open>
  The abstract pool maps senders and nonces to pending transactions.  A transaction is executable when it is its
  sender's lowest, has the nonce that is due, and fits into the block; the selection takes executable transactions,
  one with the highest tip each time, until there is none.
\<close>

type_synonym pool_view = "address \<Rightarrow> u64 \<Rightarrow> pending_tx option"

definition pool_view :: "pool_map \<Rightarrow> pool_view" where
  "pool_view pool = (\<lambda>s n. case map_of pool s of None \<Rightarrow> None | Some t \<Rightarrow> map_of t n)"

definition without :: "pool_view \<Rightarrow> pending_tx \<Rightarrow> pool_view" where
  "without V x = (\<lambda>s n. if s = ptx_sender x \<and> n = ptx_nonce x then None else V s n)"

definition executable :: "u64 \<Rightarrow> pool_view \<Rightarrow> (address \<Rightarrow> u64) \<Rightarrow> u64 \<Rightarrow> pending_tx \<Rightarrow> bool" where
  "executable limit V active gas x \<longleftrightarrow>
     V (ptx_sender x) (ptx_nonce x) = Some x \<and> ptx_nonce x = active (ptx_sender x) \<and>
     (\<forall>n. V (ptx_sender x) n \<noteq> None \<longrightarrow> ptx_nonce x \<le> n) \<and> gas + ptx_gas_limit x \<le> limit"

inductive selection ::
    "u64 \<Rightarrow> pool_view \<Rightarrow> (address \<Rightarrow> u64) \<Rightarrow> u64 \<Rightarrow> pending_tx list \<Rightarrow> pool_view \<Rightarrow> bool" for limit where
  selection_done: "(\<And>x. \<not> executable limit V active gas x) \<Longrightarrow> selection limit V active gas [] V"
| selection_pick: "executable limit V active gas x \<Longrightarrow>
    (\<And>y. executable limit V active gas y \<Longrightarrow> ptx_max_priority_fee_per_gas y \<le> ptx_max_priority_fee_per_gas x) \<Longrightarrow>
    selection limit (without V x) (active(ptx_sender x := saturating_add (ptx_nonce x) 1)) (gas + ptx_gas_limit x) xs V' \<Longrightarrow>
    selection limit V active gas (x # xs) V'"

inductive_cases selection_ConsE: "selection limit V active gas (x # xs) V'"

definition pool_ok :: "pool_map \<Rightarrow> bool" where
  "pool_ok pool \<longleftrightarrow> hm_wf pool \<and>
     (\<forall>s t. map_of pool s = Some t \<longrightarrow> bt_wf t \<and>
        (\<forall>n x. map_of t n = Some x \<longrightarrow> ptx_sender x = s \<and> ptx_nonce x = n))"

lemma pool_okD:
  assumes "pool_ok pool" "map_of pool s = Some t"
  shows "bt_wf t" "map_of t n = Some x \<Longrightarrow> ptx_sender x = s \<and> ptx_nonce x = n"
  using assms by (auto simp: pool_ok_def)

lemma pool_view_Some:
  "pool_view pool s n = Some x \<longleftrightarrow> (\<exists>t. map_of pool s = Some t \<and> map_of t n = Some x)"
  by (simp add: pool_view_def split: option.splits)

section \<open>The selection refines its specification\<close>

text \<open>What one sender offers.\<close>

definition candidate_of ::
    "(address, u64) hashmap \<Rightarrow> u64 \<Rightarrow> u64 \<Rightarrow> address \<times> (u64, pending_tx) btree \<Rightarrow> candidate option" where
  "candidate_of active gas limit st = better active gas limit None st"

abbreviation tip_of :: "candidate \<Rightarrow> u256" where
  "tip_of c \<equiv> snd (snd c)"

lemma better_candidate:
  "better active gas limit best st =
     (case candidate_of active gas limit st of
        None \<Rightarrow> best
      | Some c \<Rightarrow> (case best of None \<Rightarrow> Some c | Some b \<Rightarrow> if tip_of c > tip_of b then Some c else Some b))"
  by (auto simp: candidate_of_def better_def Let_def split: option.splits)

text \<open>\<open>r\<close> is a candidate of \<open>A\<close> with the highest tip, or there is none.\<close>

definition tops :: "candidate set \<Rightarrow> candidate option \<Rightarrow> bool" where
  "tops A r \<longleftrightarrow> (case r of None \<Rightarrow> A = {} | Some c \<Rightarrow> c \<in> A \<and> (\<forall>c' \<in> A. tip_of c' \<le> tip_of c))"

lemma better_tops:
  assumes "tops A best"
  shows "tops (A \<union> set_option (candidate_of active gas limit st)) (better active gas limit best st)"
proof (cases "candidate_of active gas limit st")
  case None
  with assms show ?thesis by (simp add: better_candidate)
next
  case (Some c)
  note c = this
  show ?thesis
  proof (cases best)
    case None
    with assms c show ?thesis by (simp add: tops_def better_candidate)
  next
    case (Some b)
    with assms have b: "b \<in> A" "\<And>c'. c' \<in> A \<Longrightarrow> tip_of c' \<le> tip_of b" by (auto simp: tops_def)
    show ?thesis
    proof (cases "tip_of c > tip_of b")
      case True
      with b(2) have "tip_of c' \<le> tip_of c" if "c' \<in> A" for c' using that by (meson less_imp_le order_trans)
      with True Some c show ?thesis by (simp add: tops_def better_candidate)
    next
      case False
      with Some c have "better active gas limit best st = Some b" by (simp add: better_candidate)
      with b False c show ?thesis by (auto simp: tops_def not_less)
    qed
  qed
qed

lemma foldl_better:
  "tops A best \<Longrightarrow> tops (A \<union> {c. \<exists>st \<in> set xs. candidate_of active gas limit st = Some c}) (foldl (better active gas limit) best xs)"
proof (induction xs arbitrary: A best)
  case (Cons st xs)
  have "A \<union> set_option (candidate_of active gas limit st) \<union> {c. \<exists>st \<in> set xs. candidate_of active gas limit st = Some c} =
      A \<union> {c. \<exists>st \<in> set (st # xs). candidate_of active gas limit st = Some c}" by (auto simp del: split_paired_Ex split_paired_All)
  with Cons.IH[OF better_tops[OF Cons.prems, of active gas limit st]] show ?case by simp
qed simp

lemma candidate_of_Some:
  "candidate_of active gas limit (s, t) = Some c \<longleftrightarrow>
   (\<exists>x. bt_first t = Some (unwrap_or 0 (hm_get active s), x) \<and> saturating_add gas (ptx_gas_limit x) \<le> limit \<and>
        c = (s, unwrap_or 0 (hm_get active s), ptx_max_priority_fee_per_gas x))"
  by (auto simp: candidate_of_def better_def Let_def split: option.splits if_splits)

lemma fits_iff: "limit < U64_MAX \<Longrightarrow> saturating_add gas g \<le> limit \<longleftrightarrow> gas + g \<le> limit"
  by (auto simp: saturating_add_def)

lemma candidate_executable:
  assumes "pool_ok pool" "map_of pool s = Some t" "limit < U64_MAX"
  shows "candidate_of active gas limit (s, t) = Some (s', n, tip) \<longleftrightarrow>
    (\<exists>x. executable limit (pool_view pool) (\<lambda>s. unwrap_or 0 (hm_get active s)) gas x \<and>
         ptx_sender x = s \<and> s' = s \<and> n = ptx_nonce x \<and> tip = ptx_max_priority_fee_per_gas x)"
proof -
  note t = pool_okD[OF assms(1,2)]
  have V: "pool_view pool s k = map_of t k" for k using assms(2) by (simp add: pool_view_def)
  have "bt_first t = Some (k, x) \<and> gas + ptx_gas_limit x \<le> limit \<and> k = unwrap_or 0 (hm_get active s) \<longleftrightarrow>
      executable limit (pool_view pool) (\<lambda>s. unwrap_or 0 (hm_get active s)) gas x \<and> ptx_sender x = s \<and> k = ptx_nonce x" for k x
    unfolding bt_first_Some[OF t(1)] executable_def using t(2)[of k x] by (cases "ptx_sender x = s") (auto simp: V)
  note this[of "unwrap_or 0 (hm_get active s)", simplified]
  then show ?thesis
    unfolding candidate_of_Some fits_iff[OF assms(3)] by (metis (no_types, lifting) Pair_inject executable_def)
qed

lemma best_candidate_spec:
  fixes active :: "(address, u64) hashmap" and gas :: u64
  assumes ok: "pool_ok pool" and po: "set (po pool) = set pool" and limit: "limit < U64_MAX"
  defines "exe \<equiv> executable limit (pool_view pool) (\<lambda>s. unwrap_or 0 (hm_get active s)) gas"
  shows "best_candidate po active gas limit pool = None \<Longrightarrow> \<not> exe x"
    "best_candidate po active gas limit pool = Some (s, n, tip) \<Longrightarrow>
     \<exists>x. exe x \<and> ptx_sender x = s \<and> ptx_nonce x = n \<and> (\<forall>y. exe y \<longrightarrow> ptx_max_priority_fee_per_gas y \<le> ptx_max_priority_fee_per_gas x)"
proof -
  let ?c = "candidate_of active gas limit"
  have mem: "(s, t) \<in> set (po pool) \<longleftrightarrow> map_of pool s = Some t" for s t
    using ok po by (simp add: pool_ok_def)
  have offers: "\<exists>st \<in> set (po pool). ?c st = Some (ptx_sender y, ptx_nonce y, ptx_max_priority_fee_per_gas y)"
    if "exe y" for y
  proof -
    from that obtain t where t: "map_of pool (ptx_sender y) = Some t"
      by (auto simp: exe_def executable_def pool_view_Some)
    then have "?c (ptx_sender y, t) = Some (ptx_sender y, ptx_nonce y, ptx_max_priority_fee_per_gas y)"
      using that by (auto simp: candidate_executable[OF ok t limit] exe_def)
    with t mem show ?thesis by blast
  qed
  have f: "tops {c. \<exists>st \<in> set (po pool). ?c st = Some c} (best_candidate po active gas limit pool)"
    using foldl_better[of "{}" None "po pool" active gas limit] by (simp add: tops_def best_candidate_def)
  show "\<not> exe x" if "best_candidate po active gas limit pool = None"
    using f[unfolded that] offers[of x] by (auto simp: tops_def)
  assume best: "best_candidate po active gas limit pool = Some (s, n, tip)"
  with f obtain s0 t where t: "(s0, t) \<in> set (po pool)" "?c (s0, t) = Some (s, n, tip)"
    by (auto simp: tops_def)
  then obtain x where x: "exe x" "ptx_sender x = s" "ptx_nonce x = n" "tip = ptx_max_priority_fee_per_gas x"
    using mem by (auto simp: candidate_executable[OF ok _ limit] exe_def)
  have "ptx_max_priority_fee_per_gas y \<le> ptx_max_priority_fee_per_gas x" if "exe y" for y
    using offers[OF that] f best x(4) by (fastforce simp: tops_def)
  with x show "\<exists>x. exe x \<and> ptx_sender x = s \<and> ptx_nonce x = n \<and> (\<forall>y. exe y \<longrightarrow> ptx_max_priority_fee_per_gas y \<le> ptx_max_priority_fee_per_gas x)"
    by blast
qed

lemma take_transaction_view:
  assumes "pool_ok pool" "map_of pool s = Some t" "map_of t n = Some x"
  shows "pool_view (take_transaction pool s t n) = without (pool_view pool) x" "pool_ok (take_transaction pool s t n)"
proof -
  note t = pool_okD[OF assms(1,2)]
  have x: "ptx_sender x = s" "ptx_nonce x = n" using t(2)[OF assms(3)] by simp_all
  have get: "map_of (take_transaction pool s t n) s' =
      (if s' = s then if bt_remove n t = [] then None else Some (bt_remove n t) else map_of pool s')" for s'
    by (simp add: take_transaction_def Let_def)
  have empty: "map_of t n' = None" if "bt_remove n t = []" "n' \<noteq> n" for n'
    using hm_get_remove[of n t n'] that by simp
  show "pool_view (take_transaction pool s t n) = without (pool_view pool) x"
    using assms(2) empty by (auto simp: fun_eq_iff pool_view_def get without_def x)
  have "hm_wf (take_transaction pool s t n)"
    using assms(1) by (simp add: take_transaction_def Let_def pool_ok_def)
  moreover have "bt_wf t' \<and> (\<forall>m y. map_of t' m = Some y \<longrightarrow> ptx_sender y = s' \<and> ptx_nonce y = m)"
    if "map_of (take_transaction pool s t n) s' = Some t'" for s' t'
    using that t assms(1) by (auto simp: get bt_remove_wf pool_ok_def split: if_splits)
  ultimately show "pool_ok (take_transaction pool s t n)" by (auto simp: pool_ok_def)
qed

lemma pop_loop_refines:
  assumes "\<And>pool. set (po pool) = set pool" "limit < U64_MAX" "pool_ok pool" "gas \<le> limit"
  shows "\<exists>xs pool'. pop_loop po limit pool active gas sel = Done (sel @ xs, pool') \<and> pool_ok pool' \<and>
    selection limit (pool_view pool) (\<lambda>s. unwrap_or 0 (hm_get active s)) gas xs (pool_view pool')"
  using assms
proof (induction po limit pool active gas sel rule: pop_loop.induct)
  case (1 po limit pool active gas sel)
  let ?exe = "executable limit (pool_view pool) (\<lambda>s. unwrap_or 0 (hm_get active s)) gas"
  note spec = best_candidate_spec[where pool = pool and po = po and limit = limit and active = active and gas = gas, OF 1(4) 1(2) 1(3)]
  show ?case
  proof (cases "best_candidate po active gas limit pool")
    case None
    then have "pop_loop po limit pool active gas sel = Done (sel @ [], pool)" by (simp add: pop_loop.simps)
    moreover have "selection limit (pool_view pool) (\<lambda>s. unwrap_or 0 (hm_get active s)) gas [] (pool_view pool)"
      using spec(1)[OF None] by (rule selection_done)
    ultimately show ?thesis using 1(4) by blast
  next
    case (Some c)
    obtain s n tip where c: "c = (s, n, tip)" by (cases c)
    obtain x where x: "?exe x" "ptx_sender x = s" "ptx_nonce x = n"
      "\<And>y. ?exe y \<Longrightarrow> ptx_max_priority_fee_per_gas y \<le> ptx_max_priority_fee_per_gas x"
      using spec(2)[OF Some[unfolded c]] by blast
    obtain t where t: "map_of pool s = Some t" "map_of t n = Some x"
      using x(1-3) by (auto simp: executable_def pool_view_Some)
    let ?pool = "take_transaction pool s t n"
    let ?active = "hm_insert s (saturating_add n 1) active"
    have g: "saturating_add gas (ptx_gas_limit x) = gas + ptx_gas_limit x" "gas + ptx_gas_limit x \<le> limit"
      using x(1) 1(3) by (simp_all add: executable_def saturating_add_def)
    have view: "pool_view ?pool = without (pool_view pool) x" "pool_ok ?pool"
      by (rule take_transaction_view[OF 1(4) t])+
    have act: "(\<lambda>s'. unwrap_or 0 (hm_get ?active s')) = (\<lambda>s. unwrap_or 0 (hm_get active s))(ptx_sender x := saturating_add (ptx_nonce x) 1)"
      by (auto simp: fun_eq_iff x(2,3))
    obtain xs pool' where IH: "pop_loop po limit ?pool ?active (gas + ptx_gas_limit x) (sel @ [x]) = Done ((sel @ [x]) @ xs, pool')"
      "pool_ok pool'" "selection limit (pool_view ?pool) (\<lambda>s'. unwrap_or 0 (hm_get ?active s')) (gas + ptx_gas_limit x) xs (pool_view pool')"
      using 1(1)[OF Some[unfolded c] refl refl t] 1(2,3) view(2) g by auto
    have "selection limit (pool_view pool) (\<lambda>s. unwrap_or 0 (hm_get active s)) gas (x # xs) (pool_view pool')"
      using x(1,4) IH(3) unfolding view(1) act by (rule selection_pick)
    moreover have "pop_loop po limit pool active gas sel = Done (sel @ (x # xs), pool')"
      using IH(1) by (subst pop_loop.simps) (simp add: Some c t g(1))
    ultimately show ?thesis using IH(2) by blast
  qed
qed

section \<open>What a selection contains\<close>

abbreviation ptx_key :: "pending_tx \<Rightarrow> address \<times> u64" where
  "ptx_key x \<equiv> (ptx_sender x, ptx_nonce x)"

lemma selection_gas:
  "selection limit V active gas xs V' \<Longrightarrow> gas \<le> limit \<Longrightarrow> gas + sum_list (map ptx_gas_limit xs) \<le> limit"
  by (induction rule: selection.induct) (auto simp: executable_def)

lemma selection_conserves:
  "selection limit V active gas xs V' \<Longrightarrow>
   (\<forall>x \<in> set xs. V (ptx_sender x) (ptx_nonce x) = Some x) \<and> distinct (map ptx_key xs) \<and>
   V' = (\<lambda>s n. if (s, n) \<in> ptx_key ` set xs then None else V s n)"
proof (induction rule: selection.induct)
  case (selection_pick V active gas x xs V')
  have fresh: "ptx_key x \<notin> ptx_key ` set xs"
  proof
    assume "ptx_key x \<in> ptx_key ` set xs"
    then obtain y where y: "y \<in> set xs" "ptx_sender y = ptx_sender x" "ptx_nonce y = ptx_nonce x" by auto
    then have "without V x (ptx_sender y) (ptx_nonce y) = Some y" using selection_pick.IH by blast
    then show False using y by (simp add: without_def)
  qed
  have "V (ptx_sender y) (ptx_nonce y) = Some y" if "y \<in> set xs" for y
    using selection_pick.IH that by (auto simp: without_def split: if_splits)
  moreover have "V (ptx_sender x) (ptx_nonce x) = Some x"
    using selection_pick.hyps(1) unfolding executable_def by blast
  moreover have "V' = (\<lambda>s n. if (s, n) \<in> ptx_key ` set (x # xs) then None else V s n)"
    using selection_pick.IH by (auto simp: fun_eq_iff without_def)
  ultimately show ?case using selection_pick.IH fresh by auto
qed auto

lemma selection_taken_once:
  assumes "selection limit (without V x) active gas xs V'" "y \<in> set xs" "ptx_sender y = ptx_sender x"
  shows "ptx_nonce y \<noteq> ptx_nonce x"
proof
  assume "ptx_nonce y = ptx_nonce x"
  moreover have "without V x (ptx_sender y) (ptx_nonce y) = Some y" using selection_conserves[OF assms(1)] assms(2) by auto
  ultimately show False using assms(3) by (simp add: without_def)
qed

lemma selection_nonces:
  assumes "selection limit V active gas xs V'" "\<And>n. V s n \<noteq> None \<Longrightarrow> n \<le> U64_MAX"
  shows "\<exists>k. map ptx_nonce (filter (\<lambda>x. ptx_sender x = s) xs) = [active s ..< active s + k]"
  using assms
proof (induction rule: selection.induct)
  case (selection_done V active gas)
  show ?case by (rule exI[of _ 0]) simp
next
  case (selection_pick V active gas x xs V')
  let ?rest = "map ptx_nonce (filter (\<lambda>x. ptx_sender x = s) xs)" and ?a = "active s"
  let ?next = "(active(ptx_sender x := saturating_add (ptx_nonce x) 1)) s"
  have "n \<le> U64_MAX" if "without V x s n \<noteq> None" for n
    using that selection_pick.prems by (auto simp: without_def split: if_splits)
  then obtain k where k: "?rest = [?next ..< ?next + k]" using selection_pick.IH by blast
  show ?case
  proof (cases "ptx_sender x = s")
    case False
    then show ?thesis using k by auto
  next
    case True
    have x: "ptx_nonce x = ?a" "V s ?a = Some x" using selection_pick.hyps(1) True by (auto simp: executable_def)
    have "?a \<notin> set ?rest" using selection_taken_once[OF selection_pick.hyps(3)] True x(1) by fastforce
    moreover have "?a \<le> U64_MAX" using selection_pick.prems x(2) by simp
    ultimately have "?rest = [?a + 1 ..< ?a + 1 + k] \<or> ?rest = []"
      using k True x(1) by (cases "?a = U64_MAX"; cases k) (auto simp: saturating_add_def upt_conv_Cons)
    then show ?thesis
    proof
      assume "?rest = [?a + 1 ..< ?a + 1 + k]"
      with True x(1) show ?thesis by (intro exI[of _ "Suc k"]) (simp add: upt_conv_Cons)
    next
      assume "?rest = []"
      with True x(1) show ?thesis by (intro exI[of _ 1]) simp
    qed
  qed
qed

text \<open>A transaction whose nonce has been used already blocks its sender.\<close>

lemma selection_blocked:
  "selection limit V active gas xs V' \<Longrightarrow> V s n \<noteq> None \<Longrightarrow> n < active s \<Longrightarrow> \<forall>x \<in> set xs. ptx_sender x \<noteq> s"
proof (induction rule: selection.induct)
  case (selection_pick V active gas x xs V')
  have "ptx_sender x \<noteq> s" using selection_pick.hyps(1) selection_pick.prems by (auto simp: executable_def)
  with selection_pick show ?case by (auto simp: without_def)
qed simp

section \<open>Insertion\<close>

lemma pool_ok_insert:
  assumes "pool_ok pool" "bt_wf t" "\<And>n x. map_of t n = Some x \<Longrightarrow> ptx_sender x = s \<and> ptx_nonce x = n"
  shows "pool_ok (hm_insert s t pool)"
  using assms unfolding pool_ok_def by (auto simp del: map_of_eq_Some_iff split: if_splits)

lemma pool_insert_view:
  assumes "pool_ok (by_sender p)" "pool_insert p sender tx raw = (r, p')"
  shows "pool_ok (by_sender p')"
    "pool_view (by_sender p') = (if r = Inr () then (pool_view (by_sender p))
       (sender := (pool_view (by_sender p) sender)(stx_nonce tx \<mapsto> pending_of sender tx raw))
     else pool_view (by_sender p))"
    "r = Inr () \<longleftrightarrow> min_tip p \<le> stx_max_priority_fee_per_gas tx \<and> pool_view (by_sender p) sender (stx_nonce tx) = None"
proof -
  define pool where "pool = (if hm_get (by_sender p) sender = None then hm_insert sender [] (by_sender p) else by_sender p)"
  define t where "t = unwrap_or [] (hm_get pool sender)"
  have pool: "pool_ok pool" "pool_view pool = pool_view (by_sender p)" "map_of pool sender = Some t"
    using assms(1) pool_ok_insert[OF assms(1), of "[]" sender] unfolding pool_def t_def
    by (auto simp: pool_view_def fun_eq_iff bt_wf_def split: option.splits)
  have wf: "bt_wf t" using pool(1,3) by (auto simp: pool_ok_def)
  have view: "pool_view (hm_insert sender t' pool) = (pool_view pool)(sender := map_of t')" for t'
    by (auto simp: pool_view_def fun_eq_iff)
  have here: "pool_view (by_sender p) sender = map_of t"
    unfolding pool(2)[symmetric] using pool(3) by (simp add: pool_view_def)
  have ins: "pool_ok (hm_insert sender (bt_insert (stx_nonce tx) (pending_of sender tx raw) t) pool)"
    using pool_okD[OF pool(1,3)]
    by (intro pool_ok_insert[OF pool(1)] bt_insert_wf) (auto simp: bt_get_insert[OF wf] pending_of_def split: if_splits)
  note eq = assms(2)[unfolded pool_insert_def Let_def pool_def[symmetric] t_def[symmetric]]
  show "pool_ok (by_sender p')" using eq ins pool(1) assms(1) by (auto split: if_splits)
  show "pool_view (by_sender p') = (if r = Inr () then (pool_view (by_sender p))
       (sender := (pool_view (by_sender p) sender)(stx_nonce tx \<mapsto> pending_of sender tx raw))
     else pool_view (by_sender p))"
    using eq pool(2) by (auto simp: view bt_get_insert[OF wf] here split: if_splits)
  show "r = Inr () \<longleftrightarrow> min_tip p \<le> stx_max_priority_fee_per_gas tx \<and> pool_view (by_sender p) sender (stx_nonce tx) = None"
    using eq by (auto simp: here not_less split: if_splits)
qed

lemma pop_executable_refines:
  assumes "\<And>pool. set (po pool) = set pool" "limit < U64_MAX" "pool_ok (by_sender p)"
  shows "\<exists>xs p'. pop_executable po p nonces limit = Done (xs, p') \<and> pool_ok (by_sender p') \<and> min_tip p' = min_tip p \<and>
    selection limit (pool_view (by_sender p)) (\<lambda>s. unwrap_or 0 (hm_get nonces s)) 0 xs (pool_view (by_sender p'))"
  using pop_loop_refines[OF assms(1,2,3), of 0 nonces "[]"] by (auto simp: pop_executable_def)

section \<open>Properties\<close>

text \<open>C25.  For a block gas limit below the largest \<open>u64\<close> (mining uses 30000000), \<open>pop_executable\<close> does not panic and implements the specification: it takes, one after the other, an executable
  transaction with the highest tip, whatever the iteration order of the hash map, and stops when none is executable.\<close>

theorem pop_executable_selects:
  assumes "\<And>pool. set (po pool) = set pool" "limit < U64_MAX" "pool_ok (by_sender p)"
  shows "\<exists>xs p'. pop_executable po p nonces limit = Done (xs, p') \<and> pool_ok (by_sender p') \<and>
    selection limit (pool_view (by_sender p)) (\<lambda>s. unwrap_or 0 (hm_get nonces s)) 0 xs (pool_view (by_sender p'))"
  using pop_executable_refines[OF assms, where nonces = nonces] by blast

text \<open>C26.  For a block gas limit below the largest \<open>u64\<close> (mining uses 30000000), a block stays within its gas limit, contains every taken transaction once, leaves the others in the pool, and has
  for each sender a run of consecutive nonces that starts at the account's nonce.\<close>

theorem block_contents:
  assumes "\<And>pool. set (po pool) = set pool" "limit < U64_MAX" "pool_ok (by_sender p)"
    "\<And>s n. pool_view (by_sender p) s n \<noteq> None \<Longrightarrow> n \<le> U64_MAX"
    "pop_executable po p nonces limit = Done (xs, p')"
  shows "sum_list (map ptx_gas_limit xs) \<le> limit \<and> distinct (map ptx_key xs) \<and>
    (\<forall>x \<in> set xs. pool_view (by_sender p) (ptx_sender x) (ptx_nonce x) = Some x) \<and>
    pool_view (by_sender p') = (\<lambda>s n. if (s, n) \<in> ptx_key ` set xs then None else pool_view (by_sender p) s n) \<and>
    (\<forall>s. \<exists>k. map ptx_nonce (filter (\<lambda>x. ptx_sender x = s) xs) =
       [unwrap_or 0 (hm_get nonces s) ..< unwrap_or 0 (hm_get nonces s) + k])"
proof -
  have sel: "selection limit (pool_view (by_sender p)) (\<lambda>s. unwrap_or 0 (hm_get nonces s)) 0 xs (pool_view (by_sender p'))"
    using pop_executable_refines[OF assms(1-3), where nonces = nonces] assms(5) by auto
  have "\<exists>k. map ptx_nonce (filter (\<lambda>x. ptx_sender x = s) xs) =
      [unwrap_or 0 (hm_get nonces s) ..< unwrap_or 0 (hm_get nonces s) + k]" for s
    using selection_nonces[OF sel, of s] assms(4) by blast
  with selection_gas[OF sel] selection_conserves[OF sel] show ?thesis by auto
qed

definition sample_pending :: "u64 \<Rightarrow> u256 \<Rightarrow> signed_transaction" where
  "sample_pending n tip = \<lparr>stx_hash = [], stx_tx_type = Legacy, stx_chain_id = None, stx_nonce = n, stx_gas_limit = 21000,
     stx_max_fee_per_gas = tip, stx_max_priority_fee_per_gas = tip, stx_to = None, stx_value = 0, stx_data = [],
     stx_sender = [1]\<rparr>"

definition sample_pool :: tx_pool where
  "sample_pool = \<lparr>by_sender = [([1], [(0, pending_of [1] (sample_pending 0 1) []), (1, pending_of [1] (sample_pending 1 100) [])]),
     ([2], [(0, pending_of [2] (sample_pending 0 10) [])])], min_tip = 0\<rparr>"

lemma sample_pool_ok: "pool_ok (by_sender sample_pool)"
  by (auto simp: pool_ok_def sample_pool_def bt_wf_def pending_of_def sample_pending_def split: if_splits)

lemma sample_pool_pops:
  "\<exists>p'. pop_executable (\<lambda>pool. pool) sample_pool [] 63000 = Done ([pending_of [2] (sample_pending 0 10) [],
     pending_of [1] (sample_pending 0 1) [], pending_of [1] (sample_pending 1 100) []], p')"
  by (simp add: pop_executable_def sample_pool_def pop_loop.simps best_candidate_def better_def bt_first_def pending_of_def
      sample_pending_def Let_def take_transaction_def saturating_add_def)

theorem pop_executable_selects_witness:
  "\<exists>xs p'. pop_executable rev sample_pool [] 63000 = Done (xs, p') \<and>
     selection 63000 (pool_view (by_sender sample_pool)) (\<lambda>s. 0) 0 xs (pool_view (by_sender p'))"
  using pop_executable_selects[of rev 63000 sample_pool "[]"] sample_pool_ok by auto

theorem block_contents_witness:
  "\<exists>xs p'. pop_executable (\<lambda>pool. pool) sample_pool [] 63000 = Done (xs, p') \<and> length xs = 3 \<and>
     sum_list (map ptx_gas_limit xs) \<le> 63000"
proof -
  obtain xs p' where p: "pop_executable (\<lambda>pool. pool) sample_pool [] 63000 = Done (xs, p')" "length xs = 3"
    using sample_pool_pops by fastforce
  have "n \<le> U64_MAX" if "pool_view (by_sender sample_pool) s n \<noteq> None" for s n
    using that by (auto simp: pool_view_def sample_pool_def split: if_splits)
  then have "sum_list (map ptx_gas_limit xs) \<le> 63000"
    using block_contents[OF _ _ sample_pool_ok _ p(1)] by simp
  with p show ?thesis by blast
qed

end
