(* ===== verification/EvmRpcTypes.thy ===== *)
theory EvmRpcTypes
  imports EvmSimulation EvmMempool
begin

text \<open>
  The data of the JSON-RPC layer (\<open>src/rpc/types.rs\<close>): the textual encodings of bytes, addresses and integers, call
  requests and their JSON form, log filters, subscriptions, the state of the server and the mining of a block.  The
  crate \<open>hex\<close> and the error texts of \<open>serde\<close> are the fields of \<open>text_crates\<close>; JSON values are those of
  \<open>serde_json\<close>, a number being its literal.  The asynchronous locks are not modelled: an operation is the sequence of
  its effects on the record \<open>rpc_state\<close>, and the broadcast channel is the list of the events sent.
\<close>

section \<open>Text\<close>

datatype json =
    JNull
  | JBool bool
  | JNumber string
  | JString string
  | JArray "json list"
  | JObject "(string \<times> json) list"

record text_crates =
  hex_encode :: "bytes \<Rightarrow> string"
  hex_decode :: "string \<Rightarrow> string + bytes"
  serde_type_error :: "json \<Rightarrow> string"
  serde_custom :: "string \<Rightarrow> string"

text \<open>What the documentation of \<open>hex\<close> promises: decoding undoes encoding, two digits for each byte.\<close>

definition text_ok :: "text_crates \<Rightarrow> bool" where
  "text_ok c \<longleftrightarrow> (\<forall>bs. hex_decode c (hex_encode c bs) = Inr bs \<and> length (hex_encode c bs) = 2 * length bs)"

text \<open>\<open>format!("{}", n)\<close> and \<open>format!("{:x}", n)\<close>.\<close>

definition digit_char :: "nat \<Rightarrow> char" where
  "digit_char d = ''0123456789abcdef'' ! d"

fun radix :: "nat \<Rightarrow> nat \<Rightarrow> string" where
  "radix b n = (if b < 2 \<or> n < b then [digit_char n] else radix b (n div b) @ [digit_char (n mod b)])"

declare radix.simps [simp del]

abbreviation decimal :: "nat \<Rightarrow> string" where "decimal n \<equiv> radix 10 n"
abbreviation hex_number :: "nat \<Rightarrow> string" where "hex_number n \<equiv> ''0x'' @ radix 16 n"

definition hex_string :: "text_crates \<Rightarrow> bytes \<Rightarrow> string" where
  "hex_string c bs = ''0x'' @ hex_encode c bs"

definition strip_0x :: "string \<Rightarrow> string" where
  "strip_0x s = (if take 2 s = ''0x'' then drop 2 s else s)"

definition decode_hex :: "text_crates \<Rightarrow> string \<Rightarrow> string + bytes" where
  "decode_hex c s =
     (let v = strip_0x s
      in if length v mod 2 = 1 then hex_decode c (''0'' @ v) else hex_decode c v)"

definition parse_address :: "text_crates \<Rightarrow> string \<Rightarrow> string + address" where
  "parse_address c s =
     rbind (decode_hex c s) (\<lambda>bs.
     if length bs = 20 then Inr bs else Inl (''address must be 20 bytes, got '' @ decimal (length bs)))"

definition parse_u256 :: "text_crates \<Rightarrow> string \<Rightarrow> string + u256" where
  "parse_u256 c s =
     rbind (decode_hex c s) (\<lambda>bs.
     if length bs > 32 then Inl ''integer exceeds 256 bits''
     else Inr (u256_from_be_bytes (replicate (32 - length bs) 0 @ bs)))"

definition format_u256 :: "text_crates \<Rightarrow> u256 \<Rightarrow> string" where
  "format_u256 c w =
     (let bs = u256_to_be_bytes w; first = unwrap_or 31 (position (\<lambda>b. b \<noteq> 0) bs)
      in hex_string c (drop first bs))"

definition decode_address :: "text_crates \<Rightarrow> string \<Rightarrow> string + address" where
  "decode_address c s = parse_address c s"

definition decode_u256 :: "text_crates \<Rightarrow> string \<Rightarrow> string + u256" where
  "decode_u256 c s = parse_u256 c s"

section \<open>Errors and call requests\<close>

record json_rpc_error =
  err_code :: int
  err_message :: string
  err_data :: "json option"

definition rpc_invalid_params :: "string \<Rightarrow> json_rpc_error" where
  "rpc_invalid_params message = \<lparr>err_code = -32602, err_message = message, err_data = None\<rparr>"

definition rpc_custom :: "int \<Rightarrow> string \<Rightarrow> json_rpc_error" where
  "rpc_custom c message = \<lparr>err_code = c, err_message = message, err_data = None\<rparr>"

record call_request =
  cr_from :: "address option"
  cr_to :: "address option"
  cr_gas :: "u256 option"
  cr_gas_price :: "u256 option"
  cr_value :: "u256 option"
  cr_data :: "bytes option"

definition optional_hex :: "json option \<Rightarrow> string option" where
  "optional_hex j = (case j of Some (JString s) \<Rightarrow> Some s | _ \<Rightarrow> None)"

text \<open>\<open>optional_hex(..).map(f).transpose().map_err(custom)?\<close>\<close>

definition parse_field :: "text_crates \<Rightarrow> (string \<Rightarrow> string + 'a) \<Rightarrow> json option \<Rightarrow> string + 'a option" where
  "parse_field c f j =
     (case optional_hex j of
        None \<Rightarrow> Inr None
      | Some s \<Rightarrow> (case f s of Inl err \<Rightarrow> Inl (serde_custom c err) | Inr x \<Rightarrow> Inr (Some x)))"

definition bytes_of_json :: "text_crates \<Rightarrow> json \<Rightarrow> string + bytes" where
  "bytes_of_json c j =
     (case j of
        JString s \<Rightarrow> (case decode_hex c s of Inl err \<Rightarrow> Inl (serde_custom c err) | Inr bs \<Rightarrow> Inr bs)
      | _ \<Rightarrow> Inl (serde_type_error c j))"

definition bytes_to_json :: "text_crates \<Rightarrow> bytes \<Rightarrow> json" where
  "bytes_to_json c bs = JString (hex_string c bs)"

definition call_request_of_json :: "text_crates \<Rightarrow> json \<Rightarrow> string + call_request" where
  "call_request_of_json c j =
     (case j of
        JObject entries \<Rightarrow>
          rbind (parse_field c (parse_address c) (map_of entries ''from'')) (\<lambda>from_addr.
          rbind (parse_field c (parse_address c) (map_of entries ''to'')) (\<lambda>to_addr.
          rbind (parse_field c (parse_u256 c) (map_of entries ''gas'')) (\<lambda>gas.
          rbind (parse_field c (parse_u256 c) (map_of entries ''gasPrice'')) (\<lambda>gas_price.
          rbind (parse_field c (parse_u256 c) (map_of entries ''value'')) (\<lambda>v.
          rbind (case map_of entries ''data'' of
                   None \<Rightarrow> Inr None
                 | Some d \<Rightarrow> (case bytes_of_json c d of Inl err \<Rightarrow> Inl (serde_custom c err) | Inr bs \<Rightarrow> Inr (Some bs))) (\<lambda>data_bytes.
          Inr \<lparr>cr_from = from_addr, cr_to = to_addr, cr_gas = gas, cr_gas_price = gas_price, cr_value = v,
               cr_data = data_bytes\<rparr>))))))
      | _ \<Rightarrow> Inl (serde_type_error c j))"

definition json_field :: "string \<Rightarrow> ('a \<Rightarrow> json) \<Rightarrow> 'a option \<Rightarrow> (string \<times> json) list" where
  "json_field name f x = (case x of None \<Rightarrow> [] | Some y \<Rightarrow> [(name, f y)])"

definition call_request_to_json :: "text_crates \<Rightarrow> call_request \<Rightarrow> json" where
  "call_request_to_json c r = JObject (
     json_field ''from'' (\<lambda>a. JString (hex_string c a)) (cr_from r) @
     json_field ''to'' (\<lambda>a. JString (hex_string c a)) (cr_to r) @
     json_field ''gas'' (\<lambda>w. JString (format_u256 c w)) (cr_gas r) @
     json_field ''gasPrice'' (\<lambda>w. JString (format_u256 c w)) (cr_gas_price r) @
     json_field ''value'' (\<lambda>w. JString (format_u256 c w)) (cr_value r) @
     json_field ''data'' (bytes_to_json c) (cr_data r))"

subsection \<open>Round trips\<close>

lemma decode_hex_string: "text_ok c \<Longrightarrow> decode_hex c (hex_string c bs) = Inr bs"
  by (simp add: decode_hex_def hex_string_def strip_0x_def text_ok_def)

lemma parse_address_hex: "text_ok c \<Longrightarrow> length a = 20 \<Longrightarrow> parse_address c (hex_string c a) = Inr a"
  by (simp add: parse_address_def decode_hex_string)

lemma format_parse_u256:
  assumes "text_ok c" shows "parse_u256 c (format_u256 c w) = Inr w"
proof -
  let ?bs = "u256_to_be_bytes w"
  define first where "first = unwrap_or 31 (position (\<lambda>b. b \<noteq> 0) ?bs)"
  have zeros: "take first ?bs = replicate first 0 \<and> first \<le> 32"
  proof (cases "position (\<lambda>b. b \<noteq> 0) ?bs")
    case None
    then have "\<forall>b \<in> set ?bs. b = 0" by (simp add: position_None)
    then have "\<forall>b \<in> set (take 31 ?bs). b = 0" by (meson in_set_takeD)
    then have "take 31 ?bs = replicate (length (take 31 ?bs)) 0" by (intro replicate_eqI) auto
    with None show ?thesis by (simp add: first_def)
  next
    case (Some i)
    then have "i < 32" "\<forall>j < i. ?bs ! j = 0" using position_Some[OF Some] by auto
    then have "take i ?bs = replicate i 0" by (intro nth_equalityI) auto
    with Some \<open>i < 32\<close> show ?thesis by (simp add: first_def)
  qed
  then have "replicate (32 - length (drop first ?bs)) 0 @ drop first ?bs = ?bs"
    using append_take_drop_id[of first ?bs] by simp
  then show ?thesis
    using decode_hex_string[OF assms, of "drop first ?bs"]
    by (simp add: parse_u256_def format_u256_def Let_def first_def[symmetric])
qed

definition request_ok :: "call_request \<Rightarrow> bool" where
  "request_ok r \<longleftrightarrow> (\<forall>a. cr_from r = Some a \<or> cr_to r = Some a \<longrightarrow> length a = 20)"

lemma parse_field_simps:
  "parse_field c f None = Inr None" "f s = Inr x \<Longrightarrow> parse_field c f (Some (JString s)) = Inr (Some x)"
  by (simp_all add: parse_field_def optional_hex_def)

lemma map_of_json_field: "map_of (json_field name f x) k = (if k = name then map_option f x else None)"
  by (cases x) (auto simp: json_field_def)

lemma call_request_json:
  assumes "text_ok c" "request_ok r"
  shows "call_request_of_json c (call_request_to_json c r) = Inr r"
proof -
  define ents where "ents = (case call_request_to_json c r of JObject fs \<Rightarrow> fs | _ \<Rightarrow> [])"
  have obj: "call_request_to_json c r = JObject ents" by (simp add: ents_def call_request_to_json_def)
  have get: "map_of ents ''from'' = map_option (\<lambda>a. JString (hex_string c a)) (cr_from r)"
    "map_of ents ''to'' = map_option (\<lambda>a. JString (hex_string c a)) (cr_to r)"
    "map_of ents ''gas'' = map_option (\<lambda>w. JString (format_u256 c w)) (cr_gas r)"
    "map_of ents ''gasPrice'' = map_option (\<lambda>w. JString (format_u256 c w)) (cr_gas_price r)"
    "map_of ents ''value'' = map_option (\<lambda>w. JString (format_u256 c w)) (cr_value r)"
    "map_of ents ''data'' = map_option (bytes_to_json c) (cr_data r)"
    by (simp_all add: ents_def call_request_to_json_def map_of_json_field map_add_def split: option.splits)
  have addr: "parse_field c (parse_address c) (map_option (\<lambda>a. JString (hex_string c a)) x) = Inr x"
    if "\<And>a. x = Some a \<Longrightarrow> length a = 20" for x
    using that assms(1) by (cases x) (simp_all add: parse_field_simps parse_address_hex)
  have num: "parse_field c (parse_u256 c) (map_option (\<lambda>w. JString (format_u256 c w)) x) = Inr x" for x
    using assms(1) by (cases x) (simp_all add: parse_field_simps format_parse_u256)
  have dat: "bytes_of_json c (bytes_to_json c bs) = Inr bs" for bs
    using assms(1) by (simp add: bytes_of_json_def bytes_to_json_def decode_hex_string)
  show ?thesis
    using assms(2) unfolding obj call_request_of_json_def json.case get
    by (cases "cr_data r") (simp_all add: addr num dat request_ok_def)
qed

section \<open>Notifications, filters and subscriptions\<close>

record block_header_notification =
  hd_number :: string
  hd_hash :: string
  hd_parent_hash :: string
  hd_miner :: string
  hd_timestamp :: string

record log_notification =
  ln_address :: string
  ln_topics :: "string list"
  ln_data :: string
  ln_block_hash :: "string option"
  ln_block_number :: "string option"
  ln_transaction_hash :: "string option"
  ln_log_index :: "string option"

datatype evm_event =
    NewHead block_header_notification
  | LogEvent log_notification
  | PendingTxEvent string

record log_filter =
  lf_address :: "string list option"
  lf_topics :: "string list option list option"

definition ascii_lower :: "char \<Rightarrow> char" where
  "ascii_lower ch = (if 65 \<le> (of_char ch :: nat) \<and> (of_char ch :: nat) \<le> 90 then char_of ((of_char ch :: nat) + 32) else ch)"

definition eq_ignore_ascii_case :: "string \<Rightarrow> string \<Rightarrow> bool" where
  "eq_ignore_ascii_case a b \<longleftrightarrow> map ascii_lower a = map ascii_lower b"

definition address_matches :: "string list option \<Rightarrow> string \<Rightarrow> bool" where
  "address_matches filt a =
     (case filt of None \<Rightarrow> True | Some addresses \<Rightarrow> list_ex (\<lambda>x. eq_ignore_ascii_case x a) addresses)"

text \<open>The loop over the topic filters, with the index at which it stands.\<close>

fun topics_match :: "string list \<Rightarrow> nat \<Rightarrow> string list option list \<Rightarrow> bool" where
  "topics_match topics index [] = True"
| "topics_match topics index (filt # rest) =
     ((case filt of
         None \<Rightarrow> True
       | Some allowed \<Rightarrow> index < length topics \<and> list_ex (\<lambda>v. eq_ignore_ascii_case v (topics ! index)) allowed)
      \<and> topics_match topics (index + 1) rest)"

definition filter_matches :: "log_filter \<Rightarrow> log_notification \<Rightarrow> bool" where
  "filter_matches f log \<longleftrightarrow>
     address_matches (lf_address f) (ln_address log) \<and>
     (case lf_topics f of None \<Rightarrow> True | Some filters \<Rightarrow> topics_match (ln_topics log) 0 filters)"

datatype subscription_kind = NewHeads | Logs log_filter | PendingTransactions

type_synonym active_subscriptions = "(string, subscription_kind) hashmap"

text \<open>\<open>SUB_COUNTER\<close> is a process-wide atomic; \<open>fetch_add\<close> wraps.\<close>

definition sub_add :: "u64 \<Rightarrow> active_subscriptions \<Rightarrow> subscription_kind \<Rightarrow> string \<times> u64 \<times> active_subscriptions" where
  "sub_add counter subs kind =
     (let sub_id = hex_number counter in (sub_id, (counter + 1) mod 2 ^ 64, hm_insert sub_id kind subs))"

definition sub_remove :: "active_subscriptions \<Rightarrow> string \<Rightarrow> bool \<times> active_subscriptions" where
  "sub_remove subs sub_id = (hm_get subs sub_id \<noteq> None, hm_remove sub_id subs)"

section \<open>The server state and mining\<close>

record rpc_state =
  rpc_fork :: state_fork
  rpc_receipts :: "(bytes, tx_execution_receipt) hashmap"
  rpc_tx_pool :: tx_pool
  rpc_block_number :: u64
  rpc_state_root :: bytes
  rpc_auto_mine :: bool
  rpc_events :: "evm_event list"

definition rpc_state_new :: "state_fork \<Rightarrow> rpc_state" where
  "rpc_state_new st = \<lparr>rpc_fork = st, rpc_receipts = [], rpc_tx_pool = pool_new, rpc_block_number = 0,
     rpc_state_root = replicate 32 0, rpc_auto_mine = True, rpc_events = []\<rparr>"

definition set_auto_mine :: "rpc_state \<Rightarrow> bool \<Rightarrow> rpc_state" where
  "set_auto_mine rs enabled = rs\<lparr>rpc_auto_mine := enabled\<rparr>"

text \<open>The iteration orders of the hash maps that mining walks.\<close>

record walk_orders =
  address_order :: "address list \<Rightarrow> address list"
  slot_order :: "(u256, u256) hashmap \<Rightarrow> (u256, u256) hashmap"
  sender_order :: "pool_map \<Rightarrow> pool_map"

text \<open>The derived \<open>Debug\<close> of \<open>ExecutionError\<close>; nothing constructs \<open>VmExecutionError\<close>.\<close>

definition debug_execution_error :: "execution_error \<Rightarrow> string" where
  "debug_execution_error err =
     (case err of
        NonceMismatch expected got \<Rightarrow> ''NonceMismatch { expected: '' @ decimal expected @ '', got: '' @ decimal got @ '' }''
      | InsufficientBalance \<Rightarrow> ''InsufficientBalance''
      | VmExecutionError m \<Rightarrow> ''VmExecutionError('' @ m @ '')'')"

definition log_event :: "text_crates \<Rightarrow> bytes \<Rightarrow> u64 \<Rightarrow> bytes \<Rightarrow> nat \<Rightarrow> log_record \<Rightarrow> evm_event" where
  "log_event c block_hash block_number tx_hash index log =
     LogEvent \<lparr>ln_address = hex_string c (log_address log),
       ln_topics = map (\<lambda>topic. hex_string c (u256_to_be_bytes topic)) (log_topics log),
       ln_data = hex_string c (log_data log), ln_block_hash = Some (hex_string c block_hash),
       ln_block_number = Some (hex_number block_number), ln_transaction_hash = Some (hex_string c tx_hash),
       ln_log_index = Some (hex_number index)\<rparr>"

text \<open>The loop over the popped transactions: the error that ends it, if any, and the server state.\<close>

fun mine_transactions ::
    "nat \<Rightarrow> host \<Rightarrow> text_crates \<Rightarrow> bytes \<Rightarrow> pending_tx list \<Rightarrow> rpc_state \<Rightarrow> (string option \<times> rpc_state) outcome" where
  "mine_transactions n h c block_hash [] rs = Done (None, rs)"
| "mine_transactions n h c block_hash (x # xs) rs =
     obind (apply_signed_transaction n h (rpc_fork rs) (ptx_tx x)) (\<lambda>res.
       case fst res of
         Inl err \<Rightarrow> Done (Some (''transaction execution failed: '' @ debug_execution_error err), rs\<lparr>rpc_fork := snd res\<rparr>)
       | Inr receipt \<Rightarrow>
           mine_transactions n h c block_hash xs
             (rs\<lparr>rpc_events := rpc_events rs @ map (\<lambda>(i, l). log_event c block_hash (rpc_block_number rs) (stx_hash (ptx_tx x)) i l)
                    (enumerate 0 (rcpt_logs receipt)),
                rpc_receipts := hm_insert (stx_hash (ptx_tx x)) receipt (rpc_receipts rs),
                rpc_fork := clear_transient_storage (snd res)\<rparr>))"

definition head_event :: "text_crates \<Rightarrow> bytes \<Rightarrow> u64 \<Rightarrow> evm_event" where
  "head_event c block_hash block_number =
     NewHead \<lparr>hd_number = hex_number block_number, hd_hash = hex_string c block_hash,
       hd_parent_hash = (let digits = radix 16 (saturating_sub block_number 1)
                         in ''0x'' @ replicate (64 - length digits) (CHR ''0'') @ digits),
       hd_miner = hex_string c (replicate 20 0), hd_timestamp = ''0x0''\<rparr>"

definition block_hash_of :: "u64 \<Rightarrow> bytes" where
  "block_hash_of block_number = nat_to_be_bytes 8 block_number @ replicate 24 0"

definition current_nonces :: "state_fork \<Rightarrow> address list \<Rightarrow> (address, u64) hashmap" where
  "current_nonces st ss = foldl (\<lambda>m s. hm_insert s (acc_nonce (get_account st s)) m) [] ss"

definition mine_block ::
    "nat \<Rightarrow> host \<Rightarrow> walk_orders \<Rightarrow> text_crates \<Rightarrow> rpc_state \<Rightarrow> ((string + bytes) \<times> rpc_state) outcome" where
  "mine_block n h wo c rs =
     (let ss = senders (sender_order wo) (rpc_tx_pool rs);
          block_number = saturating_add (rpc_block_number rs) 1;
          block_hash = block_hash_of block_number;
          nonces = current_nonces (rpc_fork rs) ss
      in obind (pop_executable (sender_order wo) (rpc_tx_pool rs) nonces 30000000) (\<lambda>popped.
         obind (mine_transactions n h c block_hash (fst popped)
                  (rs\<lparr>rpc_block_number := block_number, rpc_tx_pool := snd popped\<rparr>)) (\<lambda>mined.
         case fst mined of
           Some err \<Rightarrow> Done (Inl err, snd mined)
         | None \<Rightarrow>
             obind (fork_compute_state_root (keccak256 h) (address_order wo) (slot_order wo) (rpc_fork (snd mined))) (\<lambda>root.
             Done (Inr block_hash, (snd mined)\<lparr>rpc_state_root := root,
                     rpc_events := rpc_events (snd mined) @ [head_event c block_hash block_number]\<rparr>)))))"

subsection \<open>What mining does\<close>

lemma settled_mine_transactions [settled_intros]: "settled (\<lambda>n. mine_transactions n h c bh xs rs)"
proof (induction xs arbitrary: rs)
  case (Cons x xs)
  then show ?case unfolding mine_transactions.simps by (intro settled_intros) simp_all
qed (simp add: settled_const)

lemma settled_mine_block:
  assumes "\<And>pool. set (sender_order wo pool) = set pool" "pool_ok (by_sender (rpc_tx_pool rs))"
  shows "settled (\<lambda>n. mine_block n h wo c rs)"
proof -
  have "pop_executable (sender_order wo) (rpc_tx_pool rs) ns 30000000 \<noteq> NoFuel" for ns
    using pop_executable_refines[OF assms(1) _ assms(2), of 30000000 ns] by auto
  moreover have "fork_compute_state_root K ao so st \<noteq> NoFuel" for K ao so st
    using fork_root_Done[of K ao so st] by auto
  ultimately show ?thesis unfolding mine_block_def Let_def by (intro settled_intros) simp_all
qed

text \<open>The loop keeps everything but the state, the receipts and the events; it ends without an error exactly if every
  transaction was applied, and then every one has a receipt.\<close>

lemma mine_transactions_keeps:
  assumes "mine_transactions n h c bh xs rs = Done (err, rs')"
  shows "rpc_tx_pool rs' = rpc_tx_pool rs \<and> rpc_block_number rs' = rpc_block_number rs \<and>
    rpc_state_root rs' = rpc_state_root rs \<and> rpc_auto_mine rs' = rpc_auto_mine rs \<and>
    (\<forall>k. hm_get (rpc_receipts rs) k \<noteq> None \<longrightarrow> hm_get (rpc_receipts rs') k \<noteq> None) \<and>
    (err = None \<longrightarrow> (\<forall>x \<in> set xs. hm_get (rpc_receipts rs') (stx_hash (ptx_tx x)) \<noteq> None))"
  using assms
proof (induction xs arbitrary: rs)
  case (Cons x xs)
  from Cons.prems obtain r st where a: "apply_signed_transaction n h (rpc_fork rs) (ptx_tx x) = Done (r, st)"
    by (auto simp: obind_Done_iff)
  show ?case
  proof (cases r)
    case (Inl e)
    with Cons.prems a show ?thesis by auto
  next
    case (Inr receipt)
    let ?rs = "rs\<lparr>rpc_events := rpc_events rs @ map (\<lambda>(i, l). log_event c bh (rpc_block_number rs) (stx_hash (ptx_tx x)) i l)
                    (enumerate 0 (rcpt_logs receipt)),
                rpc_receipts := hm_insert (stx_hash (ptx_tx x)) receipt (rpc_receipts rs),
                rpc_fork := clear_transient_storage st\<rparr>"
    have "mine_transactions n h c bh xs ?rs = Done (err, rs')" using Cons.prems a Inr by simp
    from Cons.IH[OF this] show ?thesis by (auto split: if_splits)
  qed
qed simp

text \<open>The execution of a block's transactions, without the server: each is included in the world state its predecessor left, with
  the transient storage cleared in between, and has the receipt of its own execution.\<close>

inductive applies ::
    "nat \<Rightarrow> host \<Rightarrow> state_fork \<Rightarrow> signed_transaction list \<Rightarrow> tx_execution_receipt list \<Rightarrow> state_fork \<Rightarrow> bool" for n h where
  applies_none: "applies n h st [] [] st"
| applies_one: "apply_signed_transaction n h st tx = Done (Inr receipt, st1) \<Longrightarrow>
    applies n h (clear_transient_storage st1) txs receipts st' \<Longrightarrow> applies n h st (tx # txs) (receipt # receipts) st'"

inductive_simps applies_simps: "applies n h st [] receipts st'" "applies n h st (tx # txs) receipts st'"

text \<open>What the server keeps of it: the receipts under the transactions' hashes, and one event per log, numbered within
  its transaction.\<close>

definition store_receipts ::
    "(bytes, tx_execution_receipt) hashmap \<Rightarrow> signed_transaction list \<Rightarrow> tx_execution_receipt list
     \<Rightarrow> (bytes, tx_execution_receipt) hashmap" where
  "store_receipts m txs receipts = foldl (\<lambda>m (tx, receipt). hm_insert (stx_hash tx) receipt m) m (zip txs receipts)"

definition receipt_events ::
    "text_crates \<Rightarrow> bytes \<Rightarrow> u64 \<Rightarrow> signed_transaction list \<Rightarrow> tx_execution_receipt list \<Rightarrow> evm_event list" where
  "receipt_events c bh bn txs receipts = concat (map (\<lambda>(tx, receipt).
     map (\<lambda>(i, l). log_event c bh bn (stx_hash tx) i l) (enumerate 0 (rcpt_logs receipt))) (zip txs receipts))"

text \<open>The loop of mining, when it ends without an error, is that execution.\<close>

lemma mine_transactions_applies:
  assumes "mine_transactions n h c bh xs rs = Done (None, rs')"
  shows "\<exists>receipts. applies n h (rpc_fork rs) (map ptx_tx xs) receipts (rpc_fork rs') \<and>
    rpc_receipts rs' = store_receipts (rpc_receipts rs) (map ptx_tx xs) receipts \<and>
    rpc_events rs' = rpc_events rs @ receipt_events c bh (rpc_block_number rs) (map ptx_tx xs) receipts"
  using assms
proof (induction xs arbitrary: rs)
  case Nil
  then show ?case by (simp add: applies_simps store_receipts_def receipt_events_def)
next
  case (Cons x xs)
  from Cons.prems obtain r st where "apply_signed_transaction n h (rpc_fork rs) (ptx_tx x) = Done (r, st)"
    by (auto simp: obind_Done_iff)
  moreover from this Cons.prems obtain receipt where "r = Inr receipt" by (cases r) auto
  ultimately have a: "apply_signed_transaction n h (rpc_fork rs) (ptx_tx x) = Done (Inr receipt, st)" by simp
  let ?rs = "rs\<lparr>rpc_events := rpc_events rs @ map (\<lambda>(i, l). log_event c bh (rpc_block_number rs) (stx_hash (ptx_tx x)) i l)
                    (enumerate 0 (rcpt_logs receipt)),
                rpc_receipts := hm_insert (stx_hash (ptx_tx x)) receipt (rpc_receipts rs),
                rpc_fork := clear_transient_storage st\<rparr>"
  have "mine_transactions n h c bh xs ?rs = Done (None, rs')" using Cons.prems a by simp
  from Cons.IH[OF this] obtain receipts where
    "applies n h (clear_transient_storage st) (map ptx_tx xs) receipts (rpc_fork rs')"
    "rpc_receipts rs' = store_receipts (hm_insert (stx_hash (ptx_tx x)) receipt (rpc_receipts rs)) (map ptx_tx xs) receipts"
    "rpc_events rs' = rpc_events ?rs @ receipt_events c bh (rpc_block_number rs) (map ptx_tx xs) receipts"
    by auto
  with a show ?case
    by (intro exI[of _ "receipt # receipts"]) (auto intro: applies_one simp: store_receipts_def receipt_events_def)
qed

text \<open>The transaction at which the loop stops: those before it are applied, it is refused without effect, and those behind
  it are not looked at.\<close>

lemma mine_transactions_error:
  assumes "mine_transactions n h c bh xs rs = Done (Some err, rs')"
  shows "\<exists>ys x zs e. xs = ys @ x # zs \<and> mine_transactions n h c bh ys rs = Done (None, rs') \<and>
    apply_signed_transaction n h (rpc_fork rs') (ptx_tx x) = Done (Inl e, rpc_fork rs')"
  using assms
proof (induction xs arbitrary: rs)
  case (Cons x xs)
  from Cons.prems obtain r st where a: "apply_signed_transaction n h (rpc_fork rs) (ptx_tx x) = Done (r, st)"
    by (auto simp: obind_Done_iff)
  show ?case
  proof (cases r)
    case (Inl e)
    with a apply_rejects have "st = rpc_fork rs" by blast
    with Cons.prems a Inl have "rs' = rs" by simp
    with a Inl \<open>st = rpc_fork rs\<close> show ?thesis by (intro exI[of _ "[]"] exI[of _ x] exI[of _ xs] exI[of _ e]) simp
  next
    case (Inr receipt)
    define rs1 where "rs1 = rs\<lparr>rpc_events := rpc_events rs @ map (\<lambda>(i, l). log_event c bh (rpc_block_number rs) (stx_hash (ptx_tx x)) i l)
                    (enumerate 0 (rcpt_logs receipt)),
                rpc_receipts := hm_insert (stx_hash (ptx_tx x)) receipt (rpc_receipts rs),
                rpc_fork := clear_transient_storage st\<rparr>"
    have step: "mine_transactions n h c bh (x # ws) rs = mine_transactions n h c bh ws rs1" for ws
      using a Inr by (simp add: rs1_def)
    from Cons.IH[OF Cons.prems[unfolded step]] obtain ys y zs e where
      "xs = ys @ y # zs" "mine_transactions n h c bh ys rs1 = Done (None, rs')"
      "apply_signed_transaction n h (rpc_fork rs') (ptx_tx y) = Done (Inl e, rpc_fork rs')" by blast
    then show ?thesis by (intro exI[of _ "x # ys"] exI[of _ y] exI[of _ zs] exI[of _ e]) (simp add: step del: mine_transactions.simps)
  qed
qed simp

text \<open>The transactions that a block takes, and the server state in which they are applied.\<close>

definition block_start :: "walk_orders \<Rightarrow> rpc_state \<Rightarrow> pending_tx list \<Rightarrow> tx_pool \<Rightarrow> bool" where
  "block_start wo rs xs pool' \<longleftrightarrow> pop_executable (sender_order wo) (rpc_tx_pool rs)
      (current_nonces (rpc_fork rs) (senders (sender_order wo) (rpc_tx_pool rs))) 30000000 = Done (xs, pool')"

definition numbered :: "rpc_state \<Rightarrow> tx_pool \<Rightarrow> rpc_state" where
  "numbered rs pool' = rs\<lparr>rpc_block_number := saturating_add (rpc_block_number rs) 1, rpc_tx_pool := pool'\<rparr>"

lemma mine_block_unfold:
  "mine_block n h wo c rs =
     (let bn = saturating_add (rpc_block_number rs) 1 in
      obind (pop_executable (sender_order wo) (rpc_tx_pool rs)
        (current_nonces (rpc_fork rs) (senders (sender_order wo) (rpc_tx_pool rs))) 30000000) (\<lambda>popped.
      obind (mine_transactions n h c (block_hash_of bn) (fst popped) (numbered rs (snd popped))) (\<lambda>mined.
      case fst mined of
        Some err \<Rightarrow> Done (Inl err, snd mined)
      | None \<Rightarrow> obind (fork_compute_state_root (keccak256 h) (address_order wo) (slot_order wo) (rpc_fork (snd mined))) (\<lambda>root.
          Done (Inr (block_hash_of bn), (snd mined)\<lparr>rpc_state_root := root,
                  rpc_events := rpc_events (snd mined) @ [head_event c (block_hash_of bn) bn]\<rparr>)))))"
  unfolding mine_block_def Let_def numbered_def ..

lemma mine_block_cases:
  assumes "mine_block n h wo c rs = Done (r, rs')"
  defines "bn \<equiv> saturating_add (rpc_block_number rs) 1"
  obtains xs pool' err where "block_start wo rs xs pool'"
    "mine_transactions n h c (block_hash_of bn) xs (numbered rs pool') = Done (Some err, rs')" "r = Inl err"
  | xs pool' rs1 root where "block_start wo rs xs pool'"
    "mine_transactions n h c (block_hash_of bn) xs (numbered rs pool') = Done (None, rs1)"
    "fork_compute_state_root (keccak256 h) (address_order wo) (slot_order wo) (rpc_fork rs1) = Done root"
    "r = Inr (block_hash_of bn)"
    "rs' = rs1\<lparr>rpc_state_root := root, rpc_events := rpc_events rs1 @ [head_event c (block_hash_of bn) bn]\<rparr>"
proof -
  note run = assms(1)[unfolded mine_block_unfold Let_def bn_def[symmetric]]
  from run obtain popped where p: "pop_executable (sender_order wo) (rpc_tx_pool rs)
      (current_nonces (rpc_fork rs) (senders (sender_order wo) (rpc_tx_pool rs))) 30000000 = Done popped"
    unfolding obind_Done_iff by blast
  note run = run[unfolded p obind.simps]
  from run obtain mined where m: "mine_transactions n h c (block_hash_of bn) (fst popped) (numbered rs (snd popped)) = Done mined"
    unfolding obind_Done_iff by blast
  note run = run[unfolded m obind.simps]
  have b: "block_start wo rs (fst popped) (snd popped)" by (simp add: block_start_def p)
  show thesis
  proof (cases "fst mined")
    case (Some e)
    with run have "r = Inl e" "rs' = snd mined" by auto
    with m Some show thesis by (intro that(1)[OF b]) (simp_all add: prod_eq_iff)
  next
    case None
    with run obtain root where
      "fork_compute_state_root (keccak256 h) (address_order wo) (slot_order wo) (rpc_fork (snd mined)) = Done root"
      "r = Inr (block_hash_of bn)" "rs' = (snd mined)\<lparr>rpc_state_root := root,
         rpc_events := rpc_events (snd mined) @ [head_event c (block_hash_of bn) bn]\<rparr>"
      by (simp add: obind_Done_iff) blast
    moreover have "mine_transactions n h c (block_hash_of bn) (fst popped) (numbered rs (snd popped)) = Done (None, snd mined)"
      using m None by (simp add: prod_eq_iff)
    ultimately show thesis using that(2)[OF b] by blast
  qed
qed

lemma numbered_facts [simp]:
  "rpc_tx_pool (numbered rs pool') = pool'" "rpc_block_number (numbered rs pool') = saturating_add (rpc_block_number rs) 1"
  "rpc_state_root (numbered rs pool') = rpc_state_root rs" "rpc_fork (numbered rs pool') = rpc_fork rs"
  "rpc_events (numbered rs pool') = rpc_events rs" "rpc_receipts (numbered rs pool') = rpc_receipts rs"
  by (simp_all add: numbered_def)

section \<open>Properties\<close>

text \<open>C35.  Call requests survive their JSON form: what is serialized parses back to the same request, for addresses of 20
  bytes and all 256-bit integers.\<close>

theorem call_request_roundtrip:
  assumes "text_ok c" "request_ok r"
  shows "call_request_of_json c (call_request_to_json c r) = Inr r"
  by (rule call_request_json[OF assms])

text \<open>The codec of \<open>hex\<close>, written out for the examples.\<close>

definition hex_digits :: "byte \<Rightarrow> string" where
  "hex_digits b = [digit_char (unat b div 16), digit_char (unat b mod 16)]"

fun hex_value :: "string \<Rightarrow> bytes option" where
  "hex_value [] = Some []"
| "hex_value [_] = None"
| "hex_value (x # y # rest) =
     (case (position (\<lambda>d. d = x) ''0123456789abcdef'', position (\<lambda>d. d = y) ''0123456789abcdef'', hex_value rest) of
        (Some i, Some j, Some bs) \<Rightarrow> Some (of_nat (16 * i + j) # bs)
      | _ \<Rightarrow> None)"

definition plain_text :: text_crates where
  "plain_text = \<lparr>hex_encode = (\<lambda>bs. concat (map hex_digits bs)),
     hex_decode = (\<lambda>s. case hex_value s of None \<Rightarrow> Inl ''invalid hex'' | Some bs \<Rightarrow> Inr bs),
     serde_type_error = (\<lambda>_. ''invalid type''), serde_custom = (\<lambda>s. s)\<rparr>"

lemma position_digits: "list_all (\<lambda>i. position (\<lambda>d. d = digit_char i) ''0123456789abcdef'' = Some i) [0..<16]"
  by code_simp

lemma position_digit: "i < 16 \<Longrightarrow> position (\<lambda>d. d = digit_char i) ''0123456789abcdef'' = Some i"
  using position_digits by (simp only: list_all_iff set_upt) simp

lemma hex_value_byte: "hex_value (hex_digits b @ s) = map_option ((#) b) (hex_value s)"
proof -
  define i j where "i = unat b div 16" and "j = unat b mod 16"
  have ij: "i < 16" "j < 16" using unat_byte_less[of b] by (simp_all add: i_def j_def div_less_iff_less_mult del: unat_byte_less)
  have "16 * i + j = unat b" by (simp add: i_def j_def)
  then have b: "of_nat (16 * i + j) = b" by (simp only: of_nat_unat) simp
  show ?thesis
    unfolding hex_digits_def i_def[symmetric] j_def[symmetric] append_Cons append_Nil hex_value.simps
      position_digit[OF ij(1)] position_digit[OF ij(2)] prod.case option.case b
    by (cases "hex_value s") (simp_all only: option.case option.map)
qed

lemma hex_value_digits: "hex_value (concat (map hex_digits bs)) = Some bs"
  by (induction bs) (simp_all add: hex_value_byte)

lemma plain_text_ok: "text_ok plain_text"
proof -
  have "length (concat (map hex_digits bs)) = 2 * length bs" for bs
    by (induction bs) (simp_all add: hex_digits_def)
  then show ?thesis by (simp add: text_ok_def plain_text_def hex_value_digits)
qed

theorem call_request_roundtrip_witness:
  "call_request_of_json plain_text (call_request_to_json plain_text
     \<lparr>cr_from = None, cr_to = Some (replicate 20 1), cr_gas = Some 21000, cr_gas_price = None, cr_value = Some 0, cr_data = Some [1, 2]\<rparr>) =
   Inr \<lparr>cr_from = None, cr_to = Some (replicate 20 1), cr_gas = Some 21000, cr_gas_price = None, cr_value = Some 0, cr_data = Some [1, 2]\<rparr>"
  by (rule call_request_roundtrip[OF plain_text_ok]) (simp add: request_ok_def)


definition fixed_orders :: walk_orders where
  "fixed_orders = \<lparr>address_order = (\<lambda>xs. xs), slot_order = (\<lambda>xs. xs), sender_order = (\<lambda>xs. xs)\<rparr>"

text \<open>C28.  A block whose mining fails is not rolled back.  The transactions in front of the refused one are executed one
  after the other on the world state, which keeps their effects; their receipts are stored under their hashes and their logs are
  announced, and nothing else is.  The refused transaction changes nothing and, with all behind it, has left the pool; the block number
  has advanced and the state root is still the one of the block before.\<close>

theorem failed_mining_effects:
  assumes "mine_block n h wo c rs = Done (Inl err, rs')"
  shows "\<exists>ys x zs e pool' receipts. block_start wo rs (ys @ x # zs) pool' \<and> rpc_tx_pool rs' = pool' \<and>
    applies n h (rpc_fork rs) (map ptx_tx ys) receipts (rpc_fork rs') \<and>
    rpc_receipts rs' = store_receipts (rpc_receipts rs) (map ptx_tx ys) receipts \<and>
    rpc_events rs' = rpc_events rs @
      receipt_events c (block_hash_of (rpc_block_number rs')) (rpc_block_number rs') (map ptx_tx ys) receipts \<and>
    apply_signed_transaction n h (rpc_fork rs') (ptx_tx x) = Done (Inl e, rpc_fork rs') \<and>
    (\<forall>y \<in> set ys. hm_get (rpc_receipts rs') (stx_hash (ptx_tx y)) \<noteq> None) \<and>
    rpc_block_number rs' = saturating_add (rpc_block_number rs) 1 \<and> rpc_state_root rs' = rpc_state_root rs"
  using assms
proof (cases rule: mine_block_cases)
  case (1 xs pool' e')
  from mine_transactions_error[OF 1(2)] obtain ys x zs e where
    "xs = ys @ x # zs" and m: "mine_transactions n h c (block_hash_of (saturating_add (rpc_block_number rs) 1)) ys (numbered rs pool') = Done (None, rs')"
    and "apply_signed_transaction n h (rpc_fork rs') (ptx_tx x) = Done (Inl e, rpc_fork rs')" by blast
  moreover from mine_transactions_applies[OF m] obtain receipts where
    "applies n h (rpc_fork rs) (map ptx_tx ys) receipts (rpc_fork rs')"
    "rpc_receipts rs' = store_receipts (rpc_receipts rs) (map ptx_tx ys) receipts"
    "rpc_events rs' = rpc_events rs @ receipt_events c (block_hash_of (saturating_add (rpc_block_number rs) 1))
       (saturating_add (rpc_block_number rs) 1) (map ptx_tx ys) receipts" by auto
  ultimately show ?thesis using mine_transactions_keeps[OF m] 1(1)
    by (intro exI[of _ ys] exI[of _ x] exI[of _ zs] exI[of _ e] exI[of _ pool'] exI[of _ receipts]) simp
qed simp

text \<open>A server whose pool holds a transaction that can be included and, with a lower tip, one that its sender cannot pay.\<close>

definition unpaid_tx :: signed_transaction where
  "unpaid_tx = sample_tx\<lparr>stx_hash := [9], stx_max_priority_fee_per_gas := 1, stx_sender := [3]\<rparr>"

definition mixed_server :: rpc_state where
  "mixed_server = (rpc_state_new sample_state)\<lparr>rpc_tx_pool :=
     snd (pool_insert (snd (pool_insert pool_new [1] sample_tx [])) [3] unpaid_tx [])\<rparr>"

lemma mixed_server_start:
  "\<exists>pool'. block_start fixed_orders mixed_server [pending_of [1] sample_tx [], pending_of [3] unpaid_tx []] pool'"
proof -
  let ?pool = "[([1], [(0, pending_of [1] sample_tx [])]), ([3], [(0, pending_of [3] unpaid_tx [])])]"
  have p: "by_sender (rpc_tx_pool mixed_server) = ?pool"
    by (simp add: mixed_server_def pool_insert_def pool_new_def Let_def sample_tx_def unpaid_tx_def)
  have z: "acc_nonce (get_account sample_state [3]) = 0"
    by (simp add: sample_state_def set_code_def set_balance_def) (simp add: get_account_def default_fork_def default_account_def)
  have n: "current_nonces sample_state (senders (sender_order fixed_orders) (rpc_tx_pool mixed_server)) = [([1], 0), ([3], 0)]"
    by (simp add: current_nonces_def senders_def fixed_orders_def p z sample_state_facts)
  have f: "rpc_fork mixed_server = sample_state" by (simp add: mixed_server_def rpc_state_new_def)
  show ?thesis unfolding block_start_def f n
    by (simp add: pop_executable_def p fixed_orders_def pop_loop.simps best_candidate_def better_def bt_first_def
        take_transaction_def pending_of_def sample_tx_def unpaid_tx_def saturating_add_def)
qed

lemma unpaid_refused:
  assumes "apply_signed_transaction 1 flat_host sample_state sample_tx = Done (Inr rcpt, st)" "rcpt_status rcpt = 0"
  shows "acc_nonce (get_account st [1]) = 1"
    "apply_signed_transaction 1 flat_host (clear_transient_storage st) unpaid_tx =
       Done (Inl InsufficientBalance, clear_transient_storage st)"
proof -
  have "get_account st [3] = default_account" "acc_nonce (get_account st [1]) = 1"
    by (simp_all add: apply_failed(1)[OF assms] sample_tx_def sample_state_def set_balance_def set_nonce_def set_code_def)
      (simp add: get_account_def default_fork_def)
  then show "acc_nonce (get_account st [1]) = 1" "apply_signed_transaction 1 flat_host (clear_transient_storage st) unpaid_tx =
       Done (Inl InsufficientBalance, clear_transient_storage st)"
    by (simp_all add: apply_signed_transaction_def Let_def unpaid_tx_def sample_tx_def max_gas_cost_def get_balance_def default_account_def)
qed

lemma mixed_server_fails: "\<exists>err rs'. mine_block 1 flat_host fixed_orders plain_text mixed_server = Done (Inl err, rs')"
proof -
  obtain rcpt st where a: "apply_signed_transaction 1 flat_host sample_state sample_tx = Done (Inr rcpt, st)" "rcpt_status rcpt = 0"
    using sample_tx_fails by blast
  have f: "rpc_fork mixed_server = sample_state" by (simp add: mixed_server_def rpc_state_new_def)
  from mixed_server_start show ?thesis
    unfolding mine_block_unfold Let_def block_start_def f
    by (auto simp: pending_of_def f a(1)[unfolded One_nat_def] unpaid_refused(2)[OF a, unfolded One_nat_def])
qed

theorem failed_mining_effects_witness:
  "\<exists>rs'. (\<exists>err. mine_block 1 flat_host fixed_orders plain_text mixed_server = Done (Inl err, rs')) \<and> rpc_block_number rs' = 1 \<and>
     hm_get (rpc_receipts rs') (stx_hash sample_tx) \<noteq> None \<and> acc_nonce (get_account (rpc_fork rs') (stx_sender sample_tx)) = 1"
proof -
  from mixed_server_fails obtain err rs' where m: "mine_block 1 flat_host fixed_orders plain_text mixed_server = Done (Inl err, rs')"
    by blast
  obtain rcpt st where a: "apply_signed_transaction 1 flat_host sample_state sample_tx = Done (Inr rcpt, st)" "rcpt_status rcpt = 0"
    using sample_tx_fails by blast
  have f: "rpc_fork mixed_server = sample_state" "rpc_block_number mixed_server = 0"
    by (simp_all add: mixed_server_def rpc_state_new_def)
  from failed_mining_effects[OF m] obtain ys x zs e pool' receipts where
    e: "block_start fixed_orders mixed_server (ys @ x # zs) pool'"
    "applies 1 flat_host sample_state (map ptx_tx ys) receipts (rpc_fork rs')"
    "apply_signed_transaction 1 flat_host (rpc_fork rs') (ptx_tx x) = Done (Inl e, rpc_fork rs')"
    "\<forall>y \<in> set ys. hm_get (rpc_receipts rs') (stx_hash (ptx_tx y)) \<noteq> None" "rpc_block_number rs' = 1"
    by (auto simp: f saturating_add_def)
  from e(1) mixed_server_start have "ys @ x # zs = [pending_of [1] sample_tx [], pending_of [3] unpaid_tx []]"
    by (auto simp: block_start_def)
  then consider "ys = []" "ptx_tx x = sample_tx" | "ys = [pending_of [1] sample_tx []]"
    by (auto simp: Cons_eq_append_conv append_eq_Cons_conv pending_of_def)
  then show ?thesis
  proof cases
    case 1
    with e(2,3) a show ?thesis by (simp add: applies_simps)
  next
    case 2
    with e(2) a(1) have "rpc_fork rs' = clear_transient_storage st" by (auto simp: applies_simps pending_of_def)
    then have "acc_nonce (get_account (rpc_fork rs') [1]) = 1"
      using unpaid_refused(1)[OF a] by simp
    with m e(4,5) 2 show ?thesis by (auto simp: pending_of_def sample_tx_def)
  qed
qed

text \<open>C27.  A block that is mined executes every transaction taken from the pool, one after the other on the world state; it
  stores the receipt of each under its hash and announces its logs and then the head of the block.  It has one number more than the last,
  and the state root of the state it leaves.\<close>

theorem mined_block:
  assumes "mine_block n h wo c rs = Done (Inr bh, rs')"
  shows "\<exists>xs receipts. block_start wo rs xs (rpc_tx_pool rs') \<and>
    applies n h (rpc_fork rs) (map ptx_tx xs) receipts (rpc_fork rs') \<and>
    rpc_receipts rs' = store_receipts (rpc_receipts rs) (map ptx_tx xs) receipts \<and>
    rpc_events rs' = rpc_events rs @ receipt_events c bh (rpc_block_number rs') (map ptx_tx xs) receipts @
      [head_event c bh (rpc_block_number rs')] \<and>
    (\<forall>x \<in> set xs. hm_get (rpc_receipts rs') (stx_hash (ptx_tx x)) \<noteq> None) \<and>
    rpc_block_number rs' = saturating_add (rpc_block_number rs) 1 \<and> bh = block_hash_of (rpc_block_number rs') \<and>
    fork_compute_state_root (keccak256 h) (address_order wo) (slot_order wo) (rpc_fork rs') = Done (rpc_state_root rs')"
  using assms
proof (cases rule: mine_block_cases)
  case (2 xs pool' rs1 root)
  from mine_transactions_applies[OF 2(2)] obtain receipts where
    "applies n h (rpc_fork rs) (map ptx_tx xs) receipts (rpc_fork rs1)"
    "rpc_receipts rs1 = store_receipts (rpc_receipts rs) (map ptx_tx xs) receipts"
    "rpc_events rs1 = rpc_events rs @ receipt_events c (block_hash_of (saturating_add (rpc_block_number rs) 1))
       (saturating_add (rpc_block_number rs) 1) (map ptx_tx xs) receipts" by auto
  with 2 mine_transactions_keeps[OF 2(2)] show ?thesis by (intro exI[of _ xs] exI[of _ receipts]) simp
qed simp

lemma idle_server_mines: "\<exists>bh rs'. mine_block 0 flat_host fixed_orders plain_text (rpc_state_new default_fork) = Done (Inr bh, rs')"
proof -
  have p: "pop_executable (sender_order fixed_orders) pool_new ns 30000000 = Done ([], pool_new)" for ns
    by (simp add: pop_executable_def pop_loop.simps best_candidate_def pool_new_def fixed_orders_def)
  obtain root where "fork_compute_state_root (keccak256 flat_host) (address_order fixed_orders) (slot_order fixed_orders) default_fork = Done root"
    using fork_root_Done by blast
  then show ?thesis
    by (simp add: mine_block_def rpc_state_new_def p Let_def del: One_nat_def)
qed

theorem mined_block_witness:
  "\<exists>bh rs'. mine_block 0 flat_host fixed_orders plain_text (rpc_state_new default_fork) = Done (Inr bh, rs') \<and>
     bh = block_hash_of 1 \<and> rpc_block_number rs' = 1"
proof -
  from idle_server_mines obtain bh rs' where m: "mine_block 0 flat_host fixed_orders plain_text (rpc_state_new default_fork) = Done (Inr bh, rs')"
    by blast
  from mined_block[OF m] have "rpc_block_number rs' = 1" "bh = block_hash_of (rpc_block_number rs')"
    by (auto simp: rpc_state_new_def saturating_add_def)
  with m show ?thesis by auto
qed

end
