(* ===== verification/EvmArbitrage.thy ===== *)
theory EvmArbitrage
  imports EvmRpcTypes
begin

text \<open>
  Simulation of arbitrage routes (\<open>src/sim/types.rs\<close>, \<open>src/sim/erc20.rs\<close>, \<open>src/sim/engine.rs\<close>): a route
  is a sequence of calls on one forked state; \<open>i128\<close> amounts are integers clamped to their range.  The search for
  the best input amount is shown to return the best of the amounts it tries.
\<close>

section \<open>Data\<close>

record swap_hop =
  target_dex :: address
  token_in :: address
  token_out :: address
  amount_in :: "u256 option"
  min_amount_out :: u256
  hop_calldata :: bytes

record arb_route =
  borrow_capital :: "u256 option"
  starting_token :: address
  initial_amount :: u256
  hops :: "swap_hop list"

record arb_simulation_result =
  arb_success :: bool
  starting_balance :: u256
  ending_balance :: u256
  net_profit_or_loss :: int
  total_gas_used :: u64
  gas_cost_in_token :: u256
  failed_hop_index :: "usize option"
  revert_reason :: "string option"

abbreviation I128_MAX :: int where "I128_MAX \<equiv> 2 ^ 127 - 1"
abbreviation I128_MIN :: int where "I128_MIN \<equiv> - (2 ^ 127)"

section \<open>Token balances\<close>

definition last_word :: "bytes \<Rightarrow> u256" where
  "last_word bs = u256_from_be_bytes (drop (length bs - 32) bs)"

text \<open>The slot of \<open>mapping(address => uint)\<close> at slot zero: the hash of the padded owner and 32 zero bytes.\<close>

definition erc20_slot :: "host \<Rightarrow> address \<Rightarrow> u256" where
  "erc20_slot h owner = u256_from_be_bytes (keccak256 h (replicate 12 0 @ owner @ replicate 32 0))"

definition get_erc20_balance :: "nat \<Rightarrow> host \<Rightarrow> state_fork \<Rightarrow> address \<Rightarrow> address \<Rightarrow> u256 outcome" where
  "get_erc20_balance n h st token owner =
     obind (simulate_tx n h st owner token 0 ([0x70, 0xa0, 0x82, 0x31] @ replicate 12 0 @ owner) 100000) (\<lambda>result.
     Done (if sim_success result \<and> length (sim_return_data result) \<ge> 32
           then last_word (sim_return_data result)
           else get_storage st token (erc20_slot h owner)))"

definition set_erc20_balance_override :: "host \<Rightarrow> state_fork \<Rightarrow> address \<Rightarrow> address \<Rightarrow> u256 \<Rightarrow> state_fork" where
  "set_erc20_balance_override h st token owner amount = set_storage st token (erc20_slot h owner) amount"

section \<open>Routes\<close>

definition decode_amount :: "bytes \<Rightarrow> u256 option" where
  "decode_amount bs = (if length bs < 32 then None else Some (last_word bs))"

definition i128_of :: "u256 \<Rightarrow> int" where
  "i128_of w = (if uint w \<le> I128_MAX then uint w else I128_MAX)"

definition signed_difference :: "u256 \<Rightarrow> u256 \<Rightarrow> int" where
  "signed_difference l r = max I128_MIN (min I128_MAX (i128_of l - i128_of r))"

definition route_success :: "u256 \<Rightarrow> u256 \<Rightarrow> u64 \<Rightarrow> arb_simulation_result" where
  "route_success start final gas =
     \<lparr>arb_success = True, starting_balance = start, ending_balance = final,
      net_profit_or_loss = signed_difference final start, total_gas_used = gas, gas_cost_in_token = 0,
      failed_hop_index = None, revert_reason = None\<rparr>"

definition route_failure :: "u256 \<Rightarrow> u64 \<Rightarrow> usize \<Rightarrow> string \<Rightarrow> arb_simulation_result" where
  "route_failure start gas index reason =
     \<lparr>arb_success = False, starting_balance = start, ending_balance = start, net_profit_or_loss = 0,
      total_gas_used = gas, gas_cost_in_token = 0, failed_hop_index = Some index, revert_reason = Some reason\<rparr>"

definition merge_diff :: "state_fork \<Rightarrow> (address, account_state) hashmap \<Rightarrow> state_fork" where
  "merge_diff st diff = st\<lparr>dirty_state := foldl (\<lambda>m aa. hm_insert (fst aa) (snd aa) m) (dirty_state st) diff\<rparr>"

text \<open>The loop over the hops: an early \<open>return\<close> is \<open>Inl\<close>, the end of the loop \<open>Inr\<close>.\<close>

fun route_loop ::
    "nat \<Rightarrow> host \<Rightarrow> text_crates \<Rightarrow> address \<Rightarrow> u256 \<Rightarrow> swap_hop list \<Rightarrow> usize \<Rightarrow> state_fork \<Rightarrow> u256 \<Rightarrow> u64
     \<Rightarrow> (arb_simulation_result + state_fork \<times> u64) outcome" where
  "route_loop n h c sender start [] index st current_amount total_gas = Done (Inr (st, total_gas))"
| "route_loop n h c sender start (hop # rest) index st current_amount total_gas =
     (let amount = unwrap_or current_amount (amount_in hop)
      in obind (simulate_tx n h st sender (target_dex hop) 0 (hop_calldata hop) 30000000) (\<lambda>result.
         let gas = saturating_add total_gas (sim_gas_used result)
         in if \<not> sim_success result
            then Done (Inl (route_failure start gas index
                   (if sim_return_data result = [] then ''hop execution failed'' else hex_string c (sim_return_data result))))
            else let current = unwrap_or amount (decode_amount (sim_return_data result));
                     st1 = set_erc20_balance_override h (merge_diff st (sim_state_diff result)) (token_out hop) sender current
                 in if current < min_amount_out hop
                    then Done (Inl (route_failure start gas index ''minimum output amount not met''))
                    else route_loop n h c sender start rest (index + 1) st1 current gas))"

definition simulate_route ::
    "nat \<Rightarrow> host \<Rightarrow> text_crates \<Rightarrow> state_fork \<Rightarrow> address \<Rightarrow> arb_route \<Rightarrow> arb_simulation_result outcome" where
  "simulate_route n h c base sender route =
     obind (get_erc20_balance n h base (starting_token route) sender) (\<lambda>start.
     obind (route_loop n h c sender start (hops route) 0 base (initial_amount route) 0) (\<lambda>r.
     case r of
       Inl failure \<Rightarrow> Done failure
     | Inr (st, gas) \<Rightarrow>
         obind (get_erc20_balance n h st (starting_token route) sender) (\<lambda>final.
         Done (route_success start final gas))))"

definition simulate_with_flashloan ::
    "nat \<Rightarrow> host \<Rightarrow> text_crates \<Rightarrow> state_fork \<Rightarrow> address \<Rightarrow> address \<Rightarrow> arb_route \<Rightarrow> arb_simulation_result outcome" where
  "simulate_with_flashloan n h c base sender lender route = simulate_route n h c base sender route"

section \<open>The search for an input amount\<close>

definition sample_amount :: "u256 \<Rightarrow> u256 \<Rightarrow> nat \<Rightarrow> nat \<Rightarrow> u256" where
  "sample_amount min_in max_in cnt s = min_in + (max_in - min_in) * of_nat s div of_nat cnt"

text \<open>One turn of the loop: the best amount with its profit, and the route, which the loop updates in place.\<close>

definition try_amount ::
    "nat \<Rightarrow> host \<Rightarrow> text_crates \<Rightarrow> state_fork \<Rightarrow> address \<Rightarrow> (u256 \<times> int) \<times> arb_route \<Rightarrow> u256 \<Rightarrow> ((u256 \<times> int) \<times> arb_route) outcome" where
  "try_amount n h c base sender s amount =
     (let best = fst s; route = (snd s)\<lparr>initial_amount := amount\<rparr>
      in obind (simulate_route n h c base sender route) (\<lambda>result.
         Done (if arb_success result \<and> net_profit_or_loss result > snd best
               then (amount, net_profit_or_loss result) else best, route)))"

definition find_optimal_input_amount ::
    "nat \<Rightarrow> host \<Rightarrow> text_crates \<Rightarrow> state_fork \<Rightarrow> address \<Rightarrow> arb_route \<Rightarrow> u256 \<Rightarrow> u256 \<Rightarrow> usize
     \<Rightarrow> ((u256 \<times> int) \<times> arb_route) outcome" where
  "find_optimal_input_amount n h c base sender route min_in max_in steps =
     (let cnt = max steps 1
      in ofold (try_amount n h c base sender) ((min_in, I128_MIN), route)
           (map (sample_amount min_in max_in cnt) [0..<cnt + 1]))"

section \<open>What routes and the search return\<close>

lemma settled_erc20 [settled_intros]: "settled (\<lambda>n. get_erc20_balance n h st token owner)"
  unfolding get_erc20_balance_def by (intro settled_intros) simp_all

lemma settled_route_loop [settled_intros]: "settled (\<lambda>n. route_loop n h c sender start hs index st amount gas)"
proof (induction hs arbitrary: index st amount gas)
  case (Cons hop rest)
  then show ?case unfolding route_loop.simps Let_def by (intro settled_intros) simp_all
qed (simp add: settled_const)

lemma settled_route [settled_intros]: "settled (\<lambda>n. simulate_route n h c st sender route)"
  unfolding simulate_route_def by (intro settled_intros) simp_all

lemma settled_search [settled_intros]: "settled (\<lambda>n. find_optimal_input_amount n h c st sender route lo hi steps)"
  unfolding find_optimal_input_amount_def Let_def try_amount_def by (intro settled_intros) simp_all

lemma route_loop_failure:
  "route_loop n h c sender start hs index st amount gas = Done (Inl res) \<Longrightarrow>
   \<not> arb_success res \<and> ending_balance res = start \<and> starting_balance res = start \<and> net_profit_or_loss res = 0 \<and>
   (\<exists>i < length hs. failed_hop_index res = Some (index + i)) \<and> revert_reason res \<noteq> None"
proof (induction hs arbitrary: index st amount gas)
  case (Cons hop rest)
  from Cons.prems consider (here) "\<exists>g m. res = route_failure start g index m"
    | (later) st' a' g' where "route_loop n h c sender start rest (index + 1) st' a' g' = Done (Inl res)"
    by (auto simp: Let_def obind_Done_iff split: if_splits)
  then show ?case
  proof cases
    case here
    then show ?thesis by (auto simp: route_failure_def)
  next
    case later
    from Cons.IH[OF this] obtain i where "i < length rest" "failed_hop_index res = Some (index + 1 + i)" by blast
    then have "Suc i < length (hop # rest) \<and> failed_hop_index res = Some (index + Suc i)" by simp
    with Cons.IH[OF later] show ?thesis by blast
  qed
qed simp

lemma search_best:
  assumes "ofold (try_amount n h c st sender) (best, route) amounts = Done ((a, p), route')"
  shows "snd best \<le> p \<and>
    (\<forall>x \<in> set amounts. \<forall>res. simulate_route n h c st sender (route\<lparr>initial_amount := x\<rparr>) = Done res \<longrightarrow>
       arb_success res \<longrightarrow> net_profit_or_loss res \<le> p) \<and>
    ((a, p) = best \<or> (\<exists>x \<in> set amounts. \<exists>res. a = x \<and> simulate_route n h c st sender (route\<lparr>initial_amount := x\<rparr>) = Done res \<and>
       arb_success res \<and> net_profit_or_loss res = p)) \<and>
    route' = route\<lparr>initial_amount := last (initial_amount route # amounts)\<rparr>"
  using assms
proof (induction amounts arbitrary: best route)
  case (Cons x xs)
  let ?run = "\<lambda>x. simulate_route n h c st sender (route\<lparr>initial_amount := x\<rparr>)"
  from Cons.prems obtain res where res: "?run x = Done res"
    by (auto simp: try_amount_def Let_def obind_Done_iff)
  define b where "b = (if arb_success res \<and> net_profit_or_loss res > snd best then (x, net_profit_or_loss res) else best)"
  have "try_amount n h c st sender (best, route) x = Done (b, route\<lparr>initial_amount := x\<rparr>)"
    by (simp add: try_amount_def res b_def)
  with Cons.prems have "ofold (try_amount n h c st sender) (b, route\<lparr>initial_amount := x\<rparr>) xs = Done ((a, p), route')" by simp
  note IH = Cons.IH[OF this, simplified]
  have b: "snd best \<le> snd b" "arb_success res \<Longrightarrow> net_profit_or_loss res \<le> snd b"
    "b = best \<or> b = (x, net_profit_or_loss res) \<and> arb_success res"
    by (auto simp: b_def)
  from IH b(1,2) have le: "snd best \<le> p" "arb_success res \<Longrightarrow> net_profit_or_loss res \<le> p" by fastforce+
  have "(a, p) = best \<or> (\<exists>y \<in> set (x # xs). \<exists>r. a = y \<and> ?run y = Done r \<and> arb_success r \<and> net_profit_or_loss r = p)"
    using IH b(3) res by fastforce
  with IH le res show ?case by auto
qed simp

section \<open>Properties\<close>

text \<open>C32.  The search for an input amount returns the best of the amounts it tries: none of them that succeeds makes a higher
  profit than the one reported, and the reported amount makes it (or, when none succeeds, the lower bound is returned
  with the smallest \<open>i128\<close>).  The route is left with the last amount tried, not with the best.\<close>

theorem optimal_input_is_best:
  fixes steps :: nat and lo hi :: u256
  defines "amounts \<equiv> map (sample_amount lo hi (max steps 1)) [0..<max steps 1 + 1]"
  assumes "find_optimal_input_amount n h c st sender route lo hi steps = Done ((a, p), route')"
  shows "(\<forall>x \<in> set amounts. \<forall>res. simulate_route n h c st sender (route\<lparr>initial_amount := x\<rparr>) = Done res \<longrightarrow>
       arb_success res \<longrightarrow> net_profit_or_loss res \<le> p) \<and>
    (a = lo \<and> p = I128_MIN \<or> a \<in> set amounts \<and> (\<exists>res. simulate_route n h c st sender (route\<lparr>initial_amount := a\<rparr>) = Done res \<and>
       arb_success res \<and> net_profit_or_loss res = p)) \<and>
    route' = route\<lparr>initial_amount := sample_amount lo hi (max steps 1) (max steps 1)\<rparr>"
  using search_best[of n h c st sender "(lo, I128_MIN)" route amounts a p route'] assms(2)
  unfolding find_optimal_input_amount_def Let_def amounts_def by (auto simp: last_map)

definition empty_route :: arb_route where
  "empty_route = \<lparr>borrow_capital = None, starting_token = [7], initial_amount = 0, hops = []\<rparr>"

lemma empty_route_simulates:
  "\<exists>res. simulate_route 1 flat_host c default_fork [1] (empty_route\<lparr>initial_amount := x\<rparr>) = Done res \<and>
     arb_success res \<and> net_profit_or_loss res = 0"
proof -
  obtain w where "get_erc20_balance 1 flat_host default_fork [7] [1] = Done w"
    using empty_code_simulates[of flat_host "[1]" "[7]" "[0x70, 0xa0, 0x82, 0x31] @ replicate 12 0 @ [1]" 100000]
    by (auto simp: get_erc20_balance_def)
  then show ?thesis by (simp add: simulate_route_def empty_route_def route_success_def signed_difference_def)
qed

lemma empty_route_search:
  "\<exists>a p route'. find_optimal_input_amount 1 flat_host plain_text default_fork [1] empty_route 3 9 2 = Done ((a, p), route')"
proof -
  obtain f where f: "simulate_route 1 flat_host plain_text default_fork [1] (empty_route\<lparr>initial_amount := x\<rparr>) = Done (f x)" for x
    using empty_route_simulates by metis
  have "\<exists>b. ofold (try_amount 1 flat_host plain_text default_fork [1]) (best, empty_route\<lparr>initial_amount := x\<rparr>) xs = Done b" for best x xs
    by (induction xs arbitrary: best x) (simp_all add: try_amount_def f[unfolded One_nat_def])
  from this[of _ 0] have "\<exists>b. ofold (try_amount 1 flat_host plain_text default_fork [1]) (best, empty_route) xs = Done b" for best xs
    by (simp add: empty_route_def)
  then show ?thesis by (metis find_optimal_input_amount_def surj_pair)
qed

theorem optimal_input_is_best_witness:
  "\<exists>a p route'. find_optimal_input_amount 1 flat_host plain_text default_fork [1] empty_route 3 9 2 = Done ((a, p), route') \<and> 0 \<le> p"
proof -
  obtain a p route' where r: "find_optimal_input_amount 1 flat_host plain_text default_fork [1] empty_route 3 9 2 = Done ((a, p), route')"
    using empty_route_search by blast
  obtain res where "simulate_route 1 flat_host plain_text default_fork [1] (empty_route\<lparr>initial_amount := sample_amount 3 9 2 0\<rparr>) = Done res"
    "arb_success res" "net_profit_or_loss res = 0"
    using empty_route_simulates by blast
  moreover have "sample_amount 3 9 2 0 \<in> set (map (sample_amount 3 9 (max 2 1)) [0..<max 2 1 + 1])"
    by (simp add: numeral_2_eq_2)
  ultimately have "0 \<le> p" using optimal_input_is_best[OF r] by fastforce
  with r show ?thesis by blast
qed

end
