(* ===== verification/EvmTrace.thy ===== *)
theory EvmTrace
  imports EvmInvariant
begin

text \<open>
  What a step tracer is shown (\<open>src/tracer.rs\<close> and the tracing part of \<open>step\<close>): along a whole run the frames are appended in
  order, and each names an instruction of the code with its mnemonic and a cost that the gas covers.  Nested frames have no tracer
  of their own.
\<close>

definition frame_ok :: "bytes \<Rightarrow> step_frame \<Rightarrow> bool" where
  "frame_ok c f \<longleftrightarrow> sf_pc f < length c \<and> sf_op f = c ! sf_pc f \<and> sf_mnemonic f = opcode_mnemonic (sf_op f) \<and>
     sf_gas_cost f = gas_table (sf_op f) \<and> sf_gas_cost f \<le> sf_gas_left f"

definition frames_added :: "bytes \<Rightarrow> step_frame list option \<Rightarrow> step_frame list option \<Rightarrow> bool" where
  "frames_added c t t' \<longleftrightarrow>
     (case t of None \<Rightarrow> t' = None | Some xs \<Rightarrow> \<exists>ys. t' = Some (xs @ ys) \<and> list_all (frame_ok c) ys)"

definition traces :: "evm \<Rightarrow> evm \<Rightarrow> bool" where
  "traces e e' \<longleftrightarrow> code e' = code e \<and> is_static e' = is_static e \<and> frames_added (code e) (tracer e) (tracer e')"

lemma frames_added_refl: "frames_added c t t"
  by (simp add: frames_added_def split: option.split)

lemma frames_added_trans: "frames_added c t t1 \<Longrightarrow> frames_added c t1 t2 \<Longrightarrow> frames_added c t t2"
  by (auto simp: frames_added_def split: option.splits)

lemma traces_same: "code e' = code e \<Longrightarrow> is_static e' = is_static e \<Longrightarrow> tracer e' = tracer e \<Longrightarrow> traces e e'"
  by (simp add: traces_def frames_added_refl)

lemma traces_step:
  assumes "pc e < length (code e)" "gas_table (code e ! pc e) \<le> gas_left e"
  shows "traces e (trace_step (code e ! pc e) (gas_table (code e ! pc e)) e)"
  using assms by (simp add: traces_def frames_added_def trace_step_def frame_ok_def split: option.split)

text \<open>The nested operations do not touch the tracer of their frame; the child's tracer is dropped with the child.\<close>

lemma traces_precompile:
  "nested_precompile h target input g e = Done (r, e') \<Longrightarrow> traces e e'"
  by (auto simp: nested_precompile_def Let_def intro!: traces_same split: sum.splits vm_error.splits)

lemma call_finish_frame:
  "code (call_finish sid res ch e) = code e" "is_static (call_finish sid res ch e) = is_static e" "tracer (call_finish sid res ch e) = tracer e"
  by (simp_all add: call_finish_def Let_def)

lemma traces_call:
  assumes "nested_call rc fs dl target v input g e = Done (r, e')" shows "traces e e'"
proof -
  from assms obtain sid res ch where "e' = call_finish sid res ch (e\<lparr>gas_left := gas_left e - g, state := snd (snapshot (state e))\<rparr>)"
    unfolding nested_call_def Let_def by (auto simp: obind_Done_iff)
  then show ?thesis by (simp add: traces_same call_finish_frame)
qed

lemma deploy_finish_frame:
  "code (snd (deploy_finish (deploy_undo sn sb a tb sid) a res ch e)) = code e"
  "is_static (snd (deploy_finish (deploy_undo sn sb a tb sid) a res ch e)) = is_static e"
  "tracer (snd (deploy_finish (deploy_undo sn sb a tb sid) a res ch e)) = tracer e"
  by (simp_all add: deploy_finish_def Let_def deploy_undo_def deploy_commit_def split: execution_result.split option.split)

lemma execute_deploy_frame:
  assumes "execute_deploy rc a v c g e = Done re"
  shows "code (snd re) = code e \<and> is_static (snd re) = is_static e \<and> tracer (snd re) = tracer e"
proof -
  obtain sb tb sid e1 where tr: "deploy_transfer e (self_address e) a v = (sb, tb, sid, e1)" by (metis prod_cases4)
  then have "code e1 = code e \<and> is_static e1 = is_static e \<and> tracer e1 = tracer e" by (auto simp: deploy_transfer_def Let_def)
  with assms show ?thesis unfolding execute_deploy_def Let_def tr
    by (auto simp: obind_Done_iff deploy_finish_frame split: if_splits)
qed

lemma traces_deploy:
  assumes "nested_deploy rc a v input e = Done (r, e')" shows "traces e e'"
proof -
  from assms obtain g re where "execute_deploy rc a v input g (e\<lparr>gas_left := gas_left e - g\<rparr>) = Done re" "e' = snd re"
    unfolding nested_deploy_def Let_def by (auto simp: obind_Done_iff)
  with execute_deploy_frame[OF this(1)] show ?thesis by (simp add: traces_same)
qed

lemma traces_selfdestruct: "traces e (selfdestruct_account a e)"
  by (rule traces_same) (simp_all add: selfdestruct_account_def Let_def)

lemma traces_laws: "vm_full_laws traces h rc"
proof unfold_locales
  show "traces e e2" if "traces e e1" "traces e1 e2" for e e1 e2
    using that frames_added_trans by (auto simp: traces_def)
  show "is_static e' = is_static e" if "traces e e'" for e e' using that by (simp add: traces_def)
qed (auto intro: traces_same traces_step traces_precompile traces_call traces_deploy traces_selfdestruct
      simp: next_nonce_def Let_def)

lemma traces_between_syncs:
  assumes "traces (sync_legacy_state_into_fork e) e1"
  shows "traces e (sync_fork_into_legacy_state h e1)"
proof -
  have "code (sync_fork_into_legacy_state h e1) = code e1 \<and> is_static (sync_fork_into_legacy_state h e1) = is_static e1 \<and>
      tracer (sync_fork_into_legacy_state h e1) = tracer e1"
    unfolding sync_fork_into_legacy_state_def
    by (rule foldl_invariant[where P = "\<lambda>s. code s = code e1 \<and> is_static s = is_static e1 \<and> tracer s = tracer e1"])
      (auto simp: sync_account_def Let_def)
  with assms show ?thesis by (simp add: traces_def sync_legacy_state_into_fork_def Let_def)
qed

interpretation tracing: vm_run_laws traces h for h
  by (rule vm_run_laws.intro) (auto intro: traces_laws traces_between_syncs traces_same)

lemma traces_run:
  assumes "run n h e = Done (r, e')" shows "frames_added (code e) (tracer e) (tracer e')"
  using tracing.run_keeps[OF assms] by (simp add: traces_def)

section \<open>Properties\<close>

text \<open>C39.  During a run the tracer is shown a sequence of frames, each of which stands on a byte of the code and carries this byte,
  its mnemonic and its base cost, which does not exceed the gas left; a run without a tracer has none afterwards.\<close>

theorem trace_faithful:
  assumes "run n h e = Done (r, e')"
  shows "frames_added (code e) (tracer e) (tracer e')"
  by (rule traces_run[OF assms])

definition traced_machine :: evm where
  "traced_machine = (new_with_gas [OP_INVALID] 9)\<lparr>tracer := Some []\<rparr>"

lemma traced_run: "\<exists>e'. run 1 flat_host traced_machine = Done (InvalidOpcode OP_INVALID, e') \<and> (\<exists>f. tracer e' = Some [f])"
proof -
  have "sync_legacy_state_into_fork traced_machine = traced_machine"
    by (simp add: sync_legacy_state_into_fork_def Let_def traced_machine_def new_with_gas_def)
  moreover have "gas_table OP_INVALID = 0" by (simp add: gas_table_def gas_table_2_def gas_table_1_def fill_range_def)
  moreover have "dispatch_table h rc OP_INVALID = op_invalid_opcode" for h rc
    by (simp add: dispatch_table_def dispatch_context_def)
  ultimately show ?thesis
    by (simp add: run_def run_without_sync_Suc step_def Let_def trace_step_def op_invalid_opcode_def handler_result_def
        traced_machine_def new_with_gas_def sync_fork_into_legacy_state_def dirty_order_def default_fork_def)
qed

theorem trace_faithful_witness:
  "\<exists>e' f. run 1 flat_host traced_machine = Done (InvalidOpcode OP_INVALID, e') \<and> tracer e' = Some [f] \<and> sf_op f = OP_INVALID"
proof -
  obtain e' f where r: "run 1 flat_host traced_machine = Done (InvalidOpcode OP_INVALID, e')" "tracer e' = Some [f]"
    using traced_run by blast
  from trace_faithful[OF r(1)] r(2) have "frame_ok [OP_INVALID] f"
    by (simp add: frames_added_def traced_machine_def new_with_gas_def)
  then have "sf_op f = OP_INVALID" by (auto simp: frame_ok_def)
  with r show ?thesis by blast
qed

end
