(* ===== verification/EvmFuzzer.thy ===== *)
theory EvmFuzzer
  imports EvmRpcTypes
begin

text \<open>
  The calldata fuzzer (\<open>src/fuzzer.rs\<close>) and its endpoint (\<open>fuzz_endpoint\<close> of \<open>src/rpc/server.rs\<close>).  The
  parallel search \<open>find_map_any\<close> of \<open>rayon\<close> is a parameter: a function of the closure and the jobs that stands for
  one schedule, of which only the documented contract \<open>search_ok\<close> is used (any match, or none if there is none).  A
  panic of a job propagates, and the endpoint turns it into an internal server error.
\<close>

section \<open>Requests and reports\<close>

record fuzz_request =
  fz_bytecode_hex :: string
  fz_iterations :: u64
  fz_gas_limit :: u64

definition default_gas_limit :: u64 where
  "default_gas_limit = 3000000"

text \<open>A request as it is deserialized: the gas limit may be left out.\<close>

definition fuzz_request_of :: "string \<Rightarrow> u64 \<Rightarrow> u64 option \<Rightarrow> fuzz_request" where
  "fuzz_request_of bytecode_hex iterations gas_limit =
     \<lparr>fz_bytecode_hex = bytecode_hex, fz_iterations = iterations, fz_gas_limit = unwrap_or default_gas_limit gas_limit\<rparr>"

record fuzz_report =
  fz_status :: string
  iterations_executed :: u64
  violation_found :: bool
  payload_hex :: "string option"
  error_log :: "string option"

definition fuzz_report_error :: "string \<Rightarrow> fuzz_report" where
  "fuzz_report_error err =
     \<lparr>fz_status = ''ERROR'', iterations_executed = 0, violation_found = False, payload_hex = None, error_log = Some err\<rparr>"

abbreviation MAX_ITERATIONS :: u64 where "MAX_ITERATIONS \<equiv> 10000000"
abbreviation MAX_BYTECODE :: usize where "MAX_BYTECODE \<equiv> 1048576"

section \<open>One iteration\<close>

definition mutate :: "host \<Rightarrow> u64 \<Rightarrow> bytes" where
  "mutate h iteration =
     (let hash = keccak256 h (rev (nat_to_be_bytes 8 iteration))
      in take 4 hash @ take 28 (drop 4 hash) @ take 28 hash)"

definition debug_vm_error :: "vm_error \<Rightarrow> string" where
  "debug_vm_error err =
     (case err of Overflow \<Rightarrow> ''Overflow'' | OutOfBoundsReturnData \<Rightarrow> ''OutOfBoundsReturnData''
      | StaticCallViolation \<Rightarrow> ''StaticCallViolation'' | VmOutOfGas \<Rightarrow> ''OutOfGas'' | InvalidPrecompile \<Rightarrow> ''InvalidPrecompile'')"

definition join_with :: "string \<Rightarrow> string list \<Rightarrow> string" where
  "join_with sep xs = (case xs of [] \<Rightarrow> [] | y # ys \<Rightarrow> y @ concat (map (\<lambda>z. sep @ z) ys))"

text \<open>The derived \<open>Debug\<close> of a byte vector and of \<open>ExecutionResult\<close>; no message of the interpreter has a character to escape.\<close>

definition debug_bytes :: "bytes \<Rightarrow> string" where
  "debug_bytes bs = ''['' @ join_with '', '' (map (\<lambda>b. decimal (unat b)) bs) @ '']''"

definition debug_execution_result :: "execution_result \<Rightarrow> string" where
  "debug_execution_result r =
     (case r of
        Halt \<Rightarrow> ''Halt''
      | Return bs \<Rightarrow> ''Return('' @ debug_bytes bs @ '')''
      | Revert bs \<Rightarrow> ''Revert('' @ debug_bytes bs @ '')''
      | Error s \<Rightarrow> ''Error('' @ [CHR 0x22] @ s @ [CHR 0x22] @ '')''
      | VmErr err \<Rightarrow> ''VmError('' @ debug_vm_error err @ '')''
      | OutOfGas \<Rightarrow> ''OutOfGas''
      | StackUnderflow \<Rightarrow> ''StackUnderflow''
      | StackOverflow \<Rightarrow> ''StackOverflow''
      | InvalidOpcode b \<Rightarrow> ''InvalidOpcode('' @ decimal (unat b) @ '')'')"

text \<open>The results that count as a failure, with the text that is logged.\<close>

definition failure_text :: "execution_result \<Rightarrow> string option" where
  "failure_text r =
     (case r of
        Error _ \<Rightarrow> Some (''execution failure: '' @ debug_execution_result r)
      | VmErr _ \<Rightarrow> Some (''execution failure: '' @ debug_execution_result r)
      | _ \<Rightarrow> None)"

definition fuzz_machine :: "state_fork \<Rightarrow> bytes \<Rightarrow> u64 \<Rightarrow> bytes \<Rightarrow> evm" where
  "fuzz_machine base bytecode gas_limit payload =
     (new_with_gas bytecode gas_limit)
       \<lparr>state := base, txc := default_tx_context\<lparr>cx_address := replicate 20 0x42, calldata := payload\<rparr>\<rparr>"

type_synonym fuzz_hit = "u64 \<times> bytes \<times> string"

definition fuzz_iteration :: "nat \<Rightarrow> host \<Rightarrow> state_fork \<Rightarrow> bytes \<Rightarrow> u64 \<Rightarrow> u64 \<Rightarrow> fuzz_hit option outcome" where
  "fuzz_iteration n h base bytecode gas_limit iteration =
     (let payload = mutate h iteration
      in obind (run n h (fuzz_machine base bytecode gas_limit payload)) (\<lambda>rvm.
         Done (map_option (\<lambda>text. (iteration, payload, text)) (failure_text (fst rvm)))))"

section \<open>The search\<close>

type_synonym search = "(u64 \<Rightarrow> fuzz_hit option outcome) \<Rightarrow> u64 list \<Rightarrow> fuzz_hit option outcome"

definition search_ok :: "search \<Rightarrow> bool" where
  "search_ok fa \<longleftrightarrow>
     (\<forall>f xs y. fa f xs = Done (Some y) \<longrightarrow> (\<exists>x \<in> set xs. f x = Done (Some y))) \<and>
     (\<forall>f xs. fa f xs = Done None \<longrightarrow> (\<forall>x \<in> set xs. f x = Done None)) \<and>
     (\<forall>f xs. fa f xs = Panic \<longrightarrow> (\<exists>x \<in> set xs. f x = Panic)) \<and>
     (\<forall>f xs. fa f xs = NoFuel \<longrightarrow> (\<exists>x \<in> set xs. f x = NoFuel)) \<and>
     (\<forall>f g xs. (\<forall>x \<in> set xs. f x = g x) \<longrightarrow> fa f xs = fa g xs)"

definition breach_report :: "text_crates \<Rightarrow> u64 \<Rightarrow> fuzz_hit \<Rightarrow> fuzz_report" where
  "breach_report c executed hit =
     \<lparr>fz_status = ''INVARIANT_BREACH'', iterations_executed = executed, violation_found = True,
      payload_hex = Some (hex_encode c (fst (snd hit))), error_log = Some (snd (snd hit))\<rparr>"

definition clean_report :: "u64 \<Rightarrow> fuzz_report" where
  "clean_report iterations =
     \<lparr>fz_status = ''CLEAN'', iterations_executed = iterations, violation_found = False, payload_hex = None, error_log = None\<rparr>"

definition fuzz_run :: "nat \<Rightarrow> host \<Rightarrow> text_crates \<Rightarrow> search \<Rightarrow> fuzz_request \<Rightarrow> state_fork \<Rightarrow> (string + fuzz_report) outcome" where
  "fuzz_run n h c fa req base =
     (if fz_iterations req > MAX_ITERATIONS \<or> fz_gas_limit req = 0 then Done (Inl ''invalid fuzz limits'')
      else case hex_decode c (strip_0x (fz_bytecode_hex req)) of
        Inl e \<Rightarrow> Done (Inl e)
      | Inr bytecode \<Rightarrow>
          if length bytecode > MAX_BYTECODE then Done (Inl ''bytecode exceeds 1 MiB'')
          else obind (fa (fuzz_iteration n h base bytecode (fz_gas_limit req)) [0..<fz_iterations req]) (\<lambda>found.
               case found of
                 Some hit \<Rightarrow> obind (add_u64 (fst hit) 1) (\<lambda>executed. Done (Inr (breach_report c executed hit)))
               | None \<Rightarrow> Done (Inr (clean_report (fz_iterations req)))))"

text \<open>The endpoint: the status code and the report.  \<open>join\<close> is the text of the error of the blocking task.\<close>

definition fuzz_endpoint ::
    "nat \<Rightarrow> host \<Rightarrow> text_crates \<Rightarrow> search \<Rightarrow> string \<Rightarrow> rpc_state \<Rightarrow> fuzz_request \<Rightarrow> (nat \<times> fuzz_report) outcome" where
  "fuzz_endpoint n h c fa join rs req =
     (case fuzz_run n h c fa req (rpc_fork rs) of
        Done (Inr report) \<Rightarrow> Done (200, report)
      | Done (Inl err) \<Rightarrow> Done (400, fuzz_report_error err)
      | Panic \<Rightarrow> Done (500, fuzz_report_error join)
      | NoFuel \<Rightarrow> NoFuel)"

lemma settled_iteration [settled_intros]: "settled (\<lambda>n. fuzz_iteration n h base bytecode g i)"
  unfolding fuzz_iteration_def Let_def by (intro settled_intros) simp_all

text \<open>Finitely many settled jobs settle together.\<close>

lemma settled_all:
  fixes xs :: "'b list"
  assumes "\<And>x. settled (\<lambda>n. f n x)"
  shows "\<exists>n g. \<forall>x \<in> set xs. g x \<noteq> NoFuel \<and> (\<forall>m \<ge> n. f m x = g x)"
proof -
  from assms obtain k g where k: "g x \<noteq> NoFuel \<and> (\<forall>m \<ge> k x. f m x = g x)" for x
    unfolding settled_def by metis
  have "k x \<le> Max (insert 0 (k ` set xs))" if "x \<in> set xs" for x
    using that by (intro Max_ge) auto
  with k have "\<forall>x \<in> set xs. g x \<noteq> NoFuel \<and> (\<forall>m \<ge> Max (insert 0 (k ` set xs)). f m x = g x)"
    by (meson order_trans)
  then show ?thesis by blast
qed

lemma settled_find_any:
  assumes "search_ok fa" "\<And>x. settled (\<lambda>n. f n x)"
  shows "settled (\<lambda>n. fa (f n) xs)"
proof -
  from settled_all[of f xs, OF assms(2)] obtain n g where
    g: "\<forall>x \<in> set xs. g x \<noteq> NoFuel \<and> (\<forall>m \<ge> n. f m x = g x)" by blast
  have "fa (f m) xs = fa g xs" if "n \<le> m" for m
    using assms(1) g that unfolding search_ok_def by metis
  moreover have "fa g xs \<noteq> NoFuel" using assms(1) g unfolding search_ok_def by metis
  ultimately show ?thesis unfolding settled_def by blast
qed

lemma settled_fuzz_run:
  assumes "search_ok fa" shows "settled (\<lambda>n. fuzz_run n h c fa req base)"
proof -
  have "add_u64 a b \<noteq> NoFuel" for a b by (simp add: add_u64_def)
  then show ?thesis unfolding fuzz_run_def
    by (intro settled_intros settled_find_any[OF assms]) simp_all
qed

lemma fuzz_iteration_Some:
  "fuzz_iteration n h base bytecode g i = Done (Some hit) \<longleftrightarrow>
     (\<exists>r e' text. run n h (fuzz_machine base bytecode g (mutate h i)) = Done (r, e') \<and> failure_text r = Some text \<and>
        hit = (i, mutate h i, text))"
  by (auto simp: fuzz_iteration_def Let_def obind_Done_iff)

lemma fuzz_iteration_None:
  "fuzz_iteration n h base bytecode g i = Done None \<longleftrightarrow>
     (\<exists>r e'. run n h (fuzz_machine base bytecode g (mutate h i)) = Done (r, e') \<and> failure_text r = None)"
  by (auto simp: fuzz_iteration_def Let_def obind_Done_iff)

text \<open>The two kinds of result, written out: a breach is an \<open>Error\<close> or a \<open>VmError\<close>; everything else passes.\<close>

lemma failure_text_Some:
  "failure_text r = Some msg \<longleftrightarrow>
     r \<in> range Error \<union> range VmErr \<and> msg = ''execution failure: '' @ debug_execution_result r"
  by (cases r) (auto simp: failure_text_def)

lemma failure_text_None:
  "failure_text r = None \<longleftrightarrow>
     r \<in> {Halt, OutOfGas, StackUnderflow, StackOverflow} \<union> range Return \<union> range Revert \<union> range InvalidOpcode"
  by (cases r) (auto simp: failure_text_def)

lemma length_mutate: "length (keccak256 h (rev (nat_to_be_bytes 8 i))) = 32 \<Longrightarrow> length (mutate h i) = 60"
  by (simp add: mutate_def Let_def)

section \<open>Properties\<close>

text \<open>C33.  A fuzz report tells the truth whatever schedule the parallel search follows.  A breach names the payload of one of
  the iterations, on which the run of the bytecode ends in an \<open>Error\<close> or a \<open>VmError\<close>, and logs that result.  A clean
  report means that every iteration was run and that none ended so: each halted, returned, reverted, ran out of gas, or ended in
  \<open>StackUnderflow\<close>, \<open>StackOverflow\<close> or \<open>InvalidOpcode\<close>, which the fuzzer does not count as failures.\<close>

theorem fuzz_report_correct:
  assumes "search_ok fa" "fuzz_run n h c fa req base = Done (Inr report)"
    "hex_decode c (strip_0x (fz_bytecode_hex req)) = Inr bytecode"
  shows "if violation_found report
    then fz_status report = ''INVARIANT_BREACH'' \<and>
      (\<exists>i r e'. i < fz_iterations req \<and> iterations_executed report = i + 1 \<and>
        payload_hex report = Some (hex_encode c (mutate h i)) \<and>
        run n h (fuzz_machine base bytecode (fz_gas_limit req) (mutate h i)) = Done (r, e') \<and>
        r \<in> range Error \<union> range VmErr \<and>
        error_log report = Some (''execution failure: '' @ debug_execution_result r))
    else fz_status report = ''CLEAN'' \<and> payload_hex report = None \<and> error_log report = None \<and>
      iterations_executed report = fz_iterations req \<and>
      (\<forall>i < fz_iterations req. \<exists>r e'. run n h (fuzz_machine base bytecode (fz_gas_limit req) (mutate h i)) = Done (r, e') \<and>
         r \<in> {Halt, OutOfGas, StackUnderflow, StackOverflow} \<union> range Return \<union> range Revert \<union> range InvalidOpcode)"
proof -
  let ?f = "fuzz_iteration n h base bytecode (fz_gas_limit req)"
  from assms(2,3) obtain found where found: "fa ?f [0..<fz_iterations req] = Done found"
    and rep: "(case found of Some hit \<Rightarrow> obind (add_u64 (fst hit) 1) (\<lambda>executed. Done (Inr (breach_report c executed hit)))
       | None \<Rightarrow> Done (Inr (clean_report (fz_iterations req)))) = Done (Inr report :: string + fuzz_report)"
    unfolding fuzz_run_def by (auto simp: obind_Done_iff simp del: One_nat_def split: if_splits)
  show ?thesis
  proof (cases found)
    case None
    with found assms(1) have "\<forall>i \<in> set [0..<fz_iterations req]. ?f i = Done None" unfolding search_ok_def by blast
    with rep None show ?thesis unfolding failure_text_None[symmetric] by (auto simp: clean_report_def fuzz_iteration_None)
  next
    case (Some hit)
    with found assms(1) obtain i where i: "i \<in> set [0..<fz_iterations req]" "?f i = Done (Some hit)" unfolding search_ok_def by blast
    from i(2) obtain r e' msg where r: "run n h (fuzz_machine base bytecode (fz_gas_limit req) (mutate h i)) = Done (r, e')"
      "failure_text r = Some msg" "hit = (i, mutate h i, msg)" unfolding fuzz_iteration_Some by blast
    from rep Some r(3) have "report = breach_report c (i + 1) hit" by (auto simp: obind_Done_iff add_u64_def split: if_splits)
    with r i(1) failure_text_Some[THEN iffD1, OF r(2)] show ?thesis by (auto simp: breach_report_def)
  qed
qed

text \<open>The sequential search is one of the schedules.\<close>

fun first_hit :: search where
  "first_hit f [] = Done None"
| "first_hit f (x # xs) = obind (f x) (\<lambda>r. case r of Some y \<Rightarrow> Done (Some y) | None \<Rightarrow> first_hit f xs)"

lemma first_hit_Cons:
  "first_hit f (x # xs) = (case f x of Done None \<Rightarrow> first_hit f xs | Done (Some y) \<Rightarrow> Done (Some y) | Panic \<Rightarrow> Panic | NoFuel \<Rightarrow> NoFuel)"
  by (cases "f x") (simp_all split: option.split)

lemma first_hit_cases:
  "(case first_hit f xs of
      Done None \<Rightarrow> \<forall>x \<in> set xs. f x = Done None
    | r \<Rightarrow> \<exists>x \<in> set xs. f x = r)"
proof (induction xs)
  case (Cons x xs)
  then show ?case unfolding first_hit_Cons
    by (cases "f x") (auto split: outcome.splits option.splits simp del: first_hit.simps)
qed simp

lemma first_hit_cong: "\<forall>x \<in> set xs. f x = g x \<Longrightarrow> first_hit f xs = first_hit g xs"
  by (induction xs) simp_all

lemma first_hit_ok: "search_ok first_hit"
proof -
  have "\<exists>x \<in> set xs. f x = Done (Some y)" if "first_hit f xs = Done (Some y)" for f xs y
    using first_hit_cases[of xs f] unfolding that by simp
  moreover have "\<forall>x \<in> set xs. f x = Done None" if "first_hit f xs = Done None" for f xs
    using first_hit_cases[of xs f] unfolding that by simp
  moreover have "\<exists>x \<in> set xs. f x = Panic" if "first_hit f xs = Panic" for f xs
    using first_hit_cases[of xs f] unfolding that by simp
  moreover have "\<exists>x \<in> set xs. f x = NoFuel" if "first_hit f xs = NoFuel" for f xs
    using first_hit_cases[of xs f] unfolding that by simp
  ultimately show ?thesis unfolding search_ok_def by (intro conjI allI impI first_hit_cong)
qed

text \<open>ADD on the empty stack, as an example of a breach.\<close>

lemma add_underflows:
  assumes "code e = [OP_ADD]" "pc e = 0" "tracer e = None" "sp (stack e) = 0" "3 \<le> gas_left e"
    "storage e = []" "balances e = []" "nonces e = []" "contracts e = []"
  shows "\<exists>e'. run 1 h e = Done (Error ''Stack Underflow on ADD'', e')"
proof -
  have "sync_legacy_state_into_fork e = e" using assms(6-9) by (simp add: sync_legacy_state_into_fork_def Let_def)
  moreover have "gas_table OP_ADD = 3" by (simp add: gas_table_def gas_table_2_def gas_table_1_def fill_range_def)
  moreover have "dispatch_table h rc OP_ADD = op_add" for rc
    by (simp add: dispatch_table_def dispatch_context_def dispatch_core_def dispatch_push_def dispatch_arith_def
        fill_range_def)
  ultimately show ?thesis
    using assms(1-5) by (simp add: run_def run_without_sync_Suc step_def Let_def trace_step_def op_add_def binop_def
        pop2_or_def pop_or_def pop_with_def tbind_def stack_pop_def handler_result_def)
qed

text \<open>A clean report for a program of which every run ends in \<open>InvalidOpcode\<close>, and a breach.\<close>

theorem fuzz_report_correct_witness:
  "(\<exists>report. fuzz_run 1 flat_host plain_text first_hit (fuzz_request_of ''0xfe'' 2 None) default_fork = Done (Inr report) \<and>
      \<not> violation_found report \<and> fz_status report = ''CLEAN'' \<and> iterations_executed report = 2) \<and>
   (\<exists>report. fuzz_run 1 flat_host plain_text first_hit (fuzz_request_of ''0x01'' 2 None) default_fork = Done (Inr report) \<and>
      violation_found report \<and> fz_status report = ''INVARIANT_BREACH'')"
proof (rule conjI)
  let ?req = "fuzz_request_of ''0xfe'' 2 None"
  have dec: "hex_decode plain_text (strip_0x (fz_bytecode_hex ?req)) = Inr [OP_INVALID]"
    by (simp add: plain_text_def strip_0x_def fuzz_request_of_def position_digit)
  have it: "fuzz_iteration 1 flat_host default_fork [OP_INVALID] g i = Done None" for g i
  proof -
    have "\<exists>e'. run 1 flat_host (fuzz_machine default_fork [OP_INVALID] g (mutate flat_host i)) = Done (InvalidOpcode OP_INVALID, e')"
      by (rule invalid_run) (simp_all add: fuzz_machine_def new_with_gas_def)
    then show ?thesis unfolding fuzz_iteration_None by (auto simp: failure_text_def)
  qed
  have run: "fuzz_run 1 flat_host plain_text first_hit ?req default_fork = Done (Inr (clean_report 2))"
    unfolding fuzz_run_def dec sum.case
    by (simp add: fuzz_request_of_def default_gas_limit_def upt_rec it[unfolded One_nat_def])
  from fuzz_report_correct[OF first_hit_ok run dec] have "iterations_executed (clean_report 2) = 2"
    by (simp add: clean_report_def fuzz_request_of_def)
  with run show "\<exists>report. fuzz_run 1 flat_host plain_text first_hit ?req default_fork = Done (Inr report) \<and>
      \<not> violation_found report \<and> fz_status report = ''CLEAN'' \<and> iterations_executed report = 2"
    by (simp add: clean_report_def)
next
  let ?req = "fuzz_request_of ''0x01'' 2 None"
  have dec: "hex_decode plain_text (strip_0x (fz_bytecode_hex ?req)) = Inr [OP_ADD]"
    by (simp add: plain_text_def strip_0x_def fuzz_request_of_def position_digit)
  have "\<exists>e'. run 1 flat_host (fuzz_machine default_fork [OP_ADD] 3000000 p) = Done (Error ''Stack Underflow on ADD'', e')" for p
    by (rule add_underflows) (simp_all add: fuzz_machine_def new_with_gas_def stack_new_def)
  then obtain e' where "run 1 flat_host (fuzz_machine default_fork [OP_ADD] 3000000 (mutate flat_host 0)) =
      Done (Error ''Stack Underflow on ADD'', e')" by blast
  then obtain p msg where it: "fuzz_iteration 1 flat_host default_fork [OP_ADD] 3000000 0 = Done (Some (0, p, msg))"
    by (simp add: fuzz_iteration_def Let_def failure_text_def)
  have "first_hit (fuzz_iteration 1 flat_host default_fork [OP_ADD] 3000000) [0..<2] = Done (Some (0, p, msg))"
    by (simp add: upt_rec it[unfolded One_nat_def])
  then obtain report where run: "fuzz_run 1 flat_host plain_text first_hit ?req default_fork = Done (Inr report)"
    and v: "violation_found report"
    unfolding fuzz_run_def dec sum.case by (simp add: fuzz_request_of_def default_gas_limit_def add_u64_def breach_report_def)
  from fuzz_report_correct[OF first_hit_ok run dec] v have "fz_status report = ''INVARIANT_BREACH''" by simp
  with run v show "\<exists>report. fuzz_run 1 flat_host plain_text first_hit ?req default_fork = Done (Inr report) \<and>
      violation_found report \<and> fz_status report = ''INVARIANT_BREACH''" by blast
qed

end
