(* ===== verification/EvmCli.thy ===== *)
theory EvmCli
  imports EvmTrace EvmFuzzer
begin

text \<open>
  The command line tool (\<open>src/bin/mini-evm-cli.rs\<close>): the listing of the disassembler, the lines of a trace and the result of a
  run.  What is printed is a list of lines; colours and the padding of coloured text are the crate \<open>colored\<close>, the fields of
  \<open>paint_crates\<close>.  Arguments come parsed.
\<close>

section \<open>Text\<close>

record paint_crates =
  paint_cyan :: "string \<Rightarrow> string"
  paint_dimmed :: "string \<Rightarrow> string"
  paint_yellow_14 :: "string \<Rightarrow> string"

text \<open>\<open>paint_yellow_14\<close> is \<open>{:<14}\<close> of a yellow string.\<close>

text \<open>\<open>{:04x}\<close>\<close>

definition hex_4 :: "nat \<Rightarrow> string" where
  "hex_4 n = (let ds = radix 16 n in replicate (4 - length ds) (CHR ''0'') @ ds)"

definition cli_format_u256 :: "text_crates \<Rightarrow> u256 \<Rightarrow> string" where
  "cli_format_u256 c w =
     (let bs = u256_to_be_bytes w; first = unwrap_or 31 (position (\<lambda>b. b \<noteq> 0) bs)
      in ''0x'' @ hex_encode c (drop first bs))"

definition format_instruction :: "text_crates \<Rightarrow> instruction \<Rightarrow> string" where
  "format_instruction c ins =
     hex_4 (ins_pc ins) @ '' | '' @ ins_mnemonic ins @
     (case push_bytes ins of None \<Rightarrow> [] | Some bs \<Rightarrow> '' 0x'' @ hex_encode c bs)"

definition print_stack :: "text_crates \<Rightarrow> u256 list \<Rightarrow> string" where
  "print_stack c ws = join_with '', '' (map (cli_format_u256 c) ws)"

text \<open>The mnemonic of a traced instruction with its immediate, a slice of the code.\<close>

definition trace_mnemonic :: "text_crates \<Rightarrow> step_frame \<Rightarrow> bytes \<Rightarrow> string outcome" where
  "trace_mnemonic c frame code_bytes =
     (if 0x60 \<le> sf_op frame \<and> sf_op frame \<le> 0x7f
      then let sz = unat (sf_op frame) - 0x5f;
               available = min (saturating_sub (length code_bytes) (sf_pc frame + 1)) sz
           in obind (slice code_bytes (sf_pc frame + 1) (sf_pc frame + 1 + available)) (\<lambda>imm.
              Done (sf_mnemonic frame @ '' 0x'' @ hex_encode c imm))
      else Done (sf_mnemonic frame))"

definition print_trace :: "text_crates \<Rightarrow> paint_crates \<Rightarrow> step_frame \<Rightarrow> bytes \<Rightarrow> string outcome" where
  "print_trace c pt frame code_bytes =
     obind (trace_mnemonic c frame code_bytes) (\<lambda>mnemonic.
     Done (paint_cyan pt (''[PC: '' @ hex_4 (sf_pc frame) @ '']'') @ '' | '' @ paint_dimmed pt ''OP:'' @ '' '' @
           paint_yellow_14 pt mnemonic @ '' | '' @ paint_dimmed pt ''GAS:'' @ '' '' @ decimal (sf_gas_left frame) @ '' (-'' @
           decimal (sf_gas_cost frame) @ '') | '' @ paint_dimmed pt ''STACK:'' @ '' ['' @ print_stack c (sf_stack frame) @ '']''))"

section \<open>The program\<close>

record cli_args =
  arg_bytecode :: string
  arg_disasm :: bool
  arg_trace :: bool
  arg_gas :: u64

record cli_output =
  cli_stdout :: "string list"
  cli_stderr :: "string list"
  cli_exit :: nat

fun print_frames :: "text_crates \<Rightarrow> paint_crates \<Rightarrow> bytes \<Rightarrow> step_frame list \<Rightarrow> string list outcome" where
  "print_frames c pt code_bytes [] = Done []"
| "print_frames c pt code_bytes (f # fs) =
     obind (print_trace c pt f code_bytes) (\<lambda>l. obind (print_frames c pt code_bytes fs) (\<lambda>ls. Done (l # ls)))"

definition cli_main :: "nat \<Rightarrow> host \<Rightarrow> text_crates \<Rightarrow> paint_crates \<Rightarrow> cli_args \<Rightarrow> cli_output outcome" where
  "cli_main n h c pt args =
     (case hex_decode c (strip_0x (arg_bytecode args)) of
        Inl err \<Rightarrow> Done \<lparr>cli_stdout = [], cli_stderr = [''invalid bytecode: '' @ err], cli_exit = 2\<rparr>
      | Inr code_bytes \<Rightarrow>
          if arg_disasm args
          then Done \<lparr>cli_stdout = map (format_instruction c) (disassemble code_bytes), cli_stderr = [], cli_exit = 0\<rparr>
          else let vm = (new_with_gas code_bytes (arg_gas args))\<lparr>tracer := if arg_trace args then Some [] else None\<rparr>
               in obind (run n h vm) (\<lambda>rvm.
                  obind (print_frames c pt code_bytes (unwrap_or [] (tracer (snd rvm)))) (\<lambda>trace_lines.
                  Done \<lparr>cli_stdout = trace_lines @ [''RESULT: '' @ debug_execution_result (fst rvm),
                          ''FINAL STACK: ['' @ print_stack c (stack_values (stack (snd rvm))) @ '']''],
                        cli_stderr = [], cli_exit = 0\<rparr>)))"

section \<open>Printing does not fail\<close>

lemma print_trace_Done:
  assumes "frame_ok code_bytes f" shows "\<exists>l. print_trace c pt f code_bytes = Done l"
proof -
  have "sf_pc f + 1 \<le> length code_bytes" using assms by (simp add: frame_ok_def)
  then have "sf_pc f + 1 + min (length code_bytes - (sf_pc f + 1)) k \<le> length code_bytes" for k by linarith
  then have "\<exists>m. trace_mnemonic c f code_bytes = Done m"
    by (simp add: trace_mnemonic_def Let_def slice_def saturating_sub_def)
  then show ?thesis by (auto simp: print_trace_def)
qed

lemma print_frames_Done:
  "list_all (frame_ok code_bytes) fs \<Longrightarrow> \<exists>ls. print_frames c pt code_bytes fs = Done ls \<and> length ls = length fs"
proof (induction fs)
  case (Cons f fs)
  moreover from Cons.prems obtain l where "print_trace c pt f code_bytes = Done l" using print_trace_Done[of code_bytes f c pt] by auto
  ultimately show ?case by auto
qed simp

lemma settled_cli: "settled (\<lambda>n. cli_main n h c pt args)"
proof -
  have "print_frames c pt cb fs \<noteq> NoFuel" for cb fs
    by (induction fs) (auto simp: obind_NoFuel_iff print_trace_def trace_mnemonic_def Let_def slice_NoFuel)
  then show ?thesis unfolding cli_main_def Let_def by (intro settled_intros) simp_all
qed

section \<open>Properties\<close>

text \<open>C40.  The command line tool comes to an end, and when the run returns it prints one line for each traced instruction, all of
  them instructions of the code, then the result and the final stack; printing a trace never goes wrong, also for a PUSH whose
  immediate is cut off by the end of the code.\<close>

theorem cli_prints_run:
  assumes "hex_decode c (strip_0x (arg_bytecode args)) = Inr code_bytes" "\<not> arg_disasm args"
    "run n h ((new_with_gas code_bytes (arg_gas args))\<lparr>tracer := if arg_trace args then Some [] else None\<rparr>) = Done (r, e')"
  shows "settled (\<lambda>n. cli_main n h c pt args) \<and>
    (\<exists>frames lines. tracer e' = (if arg_trace args then Some frames else None) \<and> list_all (frame_ok code_bytes) frames \<and>
       length lines = (if arg_trace args then length frames else 0) \<and>
       cli_main n h c pt args = Done \<lparr>cli_stdout = lines @ [''RESULT: '' @ debug_execution_result r,
         ''FINAL STACK: ['' @ print_stack c (stack_values (stack e')) @ '']''], cli_stderr = [], cli_exit = 0\<rparr>)"
proof -
  have "code (new_with_gas code_bytes g) = code_bytes" for g by (simp add: new_with_gas_def)
  with traces_run[OF assms(3)] obtain frames where
    fr: "tracer e' = (if arg_trace args then Some frames else None)" "list_all (frame_ok code_bytes) frames"
    by (cases "arg_trace args") (auto simp: frames_added_def intro: that[of "[]"])
  obtain ls where "print_frames c pt code_bytes frames = Done ls" "length ls = length frames"
    using print_frames_Done[OF fr(2)] by blast
  then obtain lines where "print_frames c pt code_bytes (unwrap_or [] (tracer e')) = Done lines"
    "length lines = (if arg_trace args then length frames else 0)"
    using fr(1) by (cases "arg_trace args") simp_all
  moreover from this assms have "cli_main n h c pt args = Done \<lparr>cli_stdout = lines @ [''RESULT: '' @ debug_execution_result r,
         ''FINAL STACK: ['' @ print_stack c (stack_values (stack e')) @ '']''], cli_stderr = [], cli_exit = 0\<rparr>"
    unfolding cli_main_def assms(1) sum.case Let_def by (simp del: append_Cons append_Nil)
  ultimately show ?thesis using fr settled_cli by blast
qed

definition plain_paint :: paint_crates where
  "plain_paint = \<lparr>paint_cyan = (\<lambda>s. s), paint_dimmed = (\<lambda>s. s), paint_yellow_14 = (\<lambda>s. s @ replicate (14 - length s) (CHR '' ''))\<rparr>"

definition sample_args :: cli_args where
  "sample_args = \<lparr>arg_bytecode = ''0xfe'', arg_disasm = False, arg_trace = True, arg_gas = 9\<rparr>"

theorem cli_prints_run_witness:
  "\<exists>l res st. cli_main 1 flat_host plain_text plain_paint sample_args = Done \<lparr>cli_stdout = [l, res, st], cli_stderr = [], cli_exit = 0\<rparr>"
proof -
  have dec: "hex_decode plain_text (strip_0x (arg_bytecode sample_args)) = Inr [OP_INVALID]"
    by (simp add: plain_text_def strip_0x_def sample_args_def position_digit)
  obtain e' f where r: "run 1 flat_host ((new_with_gas [OP_INVALID] (arg_gas sample_args))\<lparr>tracer := if arg_trace sample_args then Some [] else None\<rparr>) =
      Done (InvalidOpcode OP_INVALID, e')" and t: "tracer e' = Some [f]"
    using traced_run by (auto simp: traced_machine_def sample_args_def)
  from cli_prints_run[OF dec _ r, of plain_paint] t obtain lines where
    "length lines = 1" "cli_main 1 flat_host plain_text plain_paint sample_args = Done \<lparr>cli_stdout = lines @ [''RESULT: '' @
       debug_execution_result (InvalidOpcode OP_INVALID), ''FINAL STACK: ['' @ print_stack plain_text (stack_values (stack e')) @ '']''],
       cli_stderr = [], cli_exit = 0\<rparr>"
    by (auto simp: sample_args_def)
  then show ?thesis by (cases lines) auto
qed

end
