(* ===== verification/EvmEstimator.thy ===== *)
theory EvmEstimator
  imports EvmRpcTypes
begin

text \<open>
  Gas estimation (\<open>src/rpc/estimator.rs\<close>): a bisection for a gas limit with which the simulated call succeeds.  No
  monotonicity of success in the gas is assumed: the estimate succeeds, and the next smaller limit either fails or
  is below the intrinsic gas.
\<close>

definition estimation_error :: "string \<Rightarrow> json_rpc_error" where
  "estimation_error message = \<lparr>err_code = -32000, err_message = message, err_data = None\<rparr>"

text \<open>The bisection; \<open>high \<le> U64_MAX\<close> is the type of \<open>high\<close>, which makes the loop end.\<close>

function estimate_loop :: "(u64 \<Rightarrow> bool outcome) \<Rightarrow> u64 \<Rightarrow> u64 \<Rightarrow> u64 outcome" where
  "estimate_loop succeeds low high =
     (if low < high \<and> high \<le> U64_MAX
      then let mid = low + (high - low) div 2
           in obind (succeeds mid) (\<lambda>ok.
              if ok then estimate_loop succeeds low mid
              else estimate_loop succeeds (saturating_add mid 1) high)
      else Done high)"
  by pat_completeness auto
termination
  by (relation "measure (\<lambda>(succeeds, low, high). high - low)") (auto simp: saturating_add_def min_def)

declare estimate_loop.simps [simp del]

definition request_input :: "call_request \<Rightarrow> bytes" where
  "request_input req = unwrap_or [] (cr_data req)"

definition estimate_succeeds :: "nat \<Rightarrow> host \<Rightarrow> state_fork \<Rightarrow> call_request \<Rightarrow> address \<Rightarrow> u64 \<Rightarrow> u64 \<Rightarrow> bool outcome" where
  "estimate_succeeds n h st req target intrinsic total_gas =
     obind (sub_u64 total_gas intrinsic) (\<lambda>execution_gas.
     obind (simulate_tx n h st (unwrap_or zero_address (cr_from req)) target (unwrap_or 0 (cr_value req))
              (request_input req) execution_gas) (\<lambda>result.
     Done (sim_success result)))"

definition estimate_transaction_gas ::
    "nat \<Rightarrow> host \<Rightarrow> state_fork \<Rightarrow> call_request \<Rightarrow> u64 \<Rightarrow> (json_rpc_error + u64) outcome" where
  "estimate_transaction_gas n h st req block_gas_limit =
     (let intrinsic = calculate_intrinsic_gas (request_input req) (cr_to req = None)
      in case (case cr_gas req of Some g \<Rightarrow> try_u64 g | None \<Rightarrow> Some block_gas_limit) of
           None \<Rightarrow> Done (Inl (estimation_error ''gas exceeds u64''))
         | Some high \<Rightarrow>
             if high < intrinsic then Done (Inl (estimation_error ''intrinsic gas exceeds gas limit''))
             else case cr_to req of
                 None \<Rightarrow> Done (Inl (estimation_error ''eth_estimateGas requires a to address''))
               | Some target \<Rightarrow>
                   obind (estimate_succeeds n h st req target intrinsic high) (\<lambda>ok.
                   if \<not> ok then Done (Inl (estimation_error ''execution reverted during gas estimation''))
                   else obind (estimate_loop (estimate_succeeds n h st req target intrinsic) intrinsic high)
                          (\<lambda>r. Done (Inr r))))"

section \<open>The bisection\<close>

lemma estimate_loop_minimal:
  assumes "estimate_loop f low high = Done r" "low \<le> high" "high \<le> U64_MAX" "f high = Done True"
    "low = low0 \<or> (0 < low \<and> f (low - 1) = Done False)"
  shows "low \<le> r \<and> r \<le> high \<and> f r = Done True \<and> (r = low0 \<or> (0 < r \<and> f (r - 1) = Done False))"
  using assms
proof (induction f low high rule: estimate_loop.induct)
  case (1 f low high)
  show ?case
  proof (cases "low < high")
    case False
    with 1(3-7) show ?thesis by (subst (asm) estimate_loop.simps) auto
  next
    case True
    let ?mid = "low + (high - low) div 2"
    have mid: "low \<le> ?mid" "?mid < high" using True by auto
    from 1(3) True 1(5) obtain b where b: "f ?mid = Done b"
      and k: "(if b then estimate_loop f low ?mid else estimate_loop f (saturating_add ?mid 1) high) = Done r"
      by (subst (asm) estimate_loop.simps) (auto simp: Let_def obind_Done_iff)
    show ?thesis
    proof (cases b)
      case True
      have "low \<le> r \<and> r \<le> ?mid \<and> f r = Done True \<and> (r = low0 \<or> (0 < r \<and> f (r - 1) = Done False))"
        by (rule 1(1)) (use True b k mid 1(5,7) \<open>low < high\<close> in auto)
      with mid(2) show ?thesis by auto
    next
      case False
      have sat: "saturating_add ?mid 1 = ?mid + 1" using mid(2) 1(5) by (simp add: saturating_add_def)
      have "saturating_add ?mid 1 \<le> r \<and> r \<le> high \<and> f r = Done True \<and> (r = low0 \<or> (0 < r \<and> f (r - 1) = Done False))"
        by (rule 1(2)) (use False b k mid 1(5,6) \<open>low < high\<close> sat in auto)
      with sat mid(1) show ?thesis by auto
    qed
  qed
qed

lemma settled_estimate_loop:
  assumes "\<And>g. settled (\<lambda>n. f n g)"
  shows "settled (\<lambda>n. estimate_loop (f n) low high)"
proof (induction "high - low" arbitrary: low high rule: less_induct)
  case less
  show ?case
  proof (cases "low < high \<and> high \<le> U64_MAX")
    case False
    then have "(\<lambda>n. estimate_loop (f n) low high) = (\<lambda>n. Done high)"
      by (subst estimate_loop.simps) auto
    then show ?thesis by (simp add: settled_const)
  next
    case True
    let ?mid = "low + (high - low) div 2"
    have e: "(\<lambda>n. estimate_loop (f n) low high) = (\<lambda>n. obind (f n ?mid) (\<lambda>ok. if ok then estimate_loop (f n) low ?mid
        else estimate_loop (f n) (saturating_add ?mid 1) high))"
      using True by (subst estimate_loop.simps) (simp add: Let_def)
    have "?mid < high" using True by auto
    then have "settled (\<lambda>n. estimate_loop (f n) low ?mid)" "settled (\<lambda>n. estimate_loop (f n) (saturating_add ?mid 1) high)"
      using True by (intro less; simp add: saturating_add_def; linarith)+
    then show ?thesis unfolding e by (intro settled_obind assms settled_if)
  qed
qed

lemma settled_estimate [settled_intros]: "settled (\<lambda>n. estimate_transaction_gas n h st req limit)"
proof -
  have "settled (\<lambda>n. estimate_succeeds n h st req target i g)" for target i g
    unfolding estimate_succeeds_def by (intro settled_intros) (simp_all add: sub_u64_def)
  then show ?thesis unfolding estimate_transaction_gas_def Let_def
    by (intro settled_intros settled_estimate_loop) simp_all
qed

section \<open>Properties\<close>

text \<open>C31.  Estimation comes to an end (from some fuel on its outcome is fixed), and an estimate lies between the intrinsic gas and the limit of
  the request (or of the block, if the request has none), makes the call
  succeed, and cannot be lowered by one: it is the intrinsic gas, or the call fails with one unit less.\<close>

theorem estimate_minimal:
  assumes "estimate_transaction_gas n h st req limit = Done (Inr r)"
    "(case cr_gas req of Some g \<Rightarrow> try_u64 g | None \<Rightarrow> Some limit) = Some high" "high \<le> U64_MAX"
  defines "intrinsic \<equiv> calculate_intrinsic_gas (request_input req) (cr_to req = None)"
  shows "settled (\<lambda>n. estimate_transaction_gas n h st req limit) \<and> intrinsic \<le> r \<and> r \<le> high \<and>
    (\<exists>target. cr_to req = Some target \<and>
       estimate_succeeds n h st req target intrinsic r = Done True \<and>
       (r = intrinsic \<or> estimate_succeeds n h st req target intrinsic (r - 1) = Done False))"
proof -
  from assms(1,2) obtain target where t: "cr_to req = Some target" "intrinsic \<le> high"
    "estimate_succeeds n h st req target intrinsic high = Done True"
    "estimate_loop (estimate_succeeds n h st req target intrinsic) intrinsic high = Done r"
    by (auto simp: estimate_transaction_gas_def Let_def intrinsic_def obind_Done_iff not_less split: option.splits if_splits)
  from estimate_loop_minimal[OF t(4,2) assms(3) t(3), of intrinsic] t(1) settled_estimate show ?thesis by auto
qed

definition sample_request :: call_request where
  "sample_request = \<lparr>cr_from = None, cr_to = Some [9], cr_gas = None, cr_gas_price = None, cr_value = None, cr_data = None\<rparr>"

theorem estimate_minimal_witness:
  "\<exists>r. estimate_transaction_gas 1 flat_host default_fork sample_request 21001 = Done (Inr r) \<and> 21000 \<le> r \<and> r \<le> 21001"
proof -
  have i: "calculate_intrinsic_gas (request_input sample_request) (cr_to sample_request = None) = 21000"
    by (simp add: sample_request_def request_input_def calculate_intrinsic_gas_def)
  have s: "estimate_succeeds 1 flat_host default_fork sample_request [9] 21000 g = Done True" if "21000 \<le> g" for g
    using that empty_code_simulates[of flat_host zero_address "[9]" "[]" "g - 21000"]
    by (auto simp: estimate_succeeds_def sub_u64_def sample_request_def request_input_def)
  have l: "estimate_loop (estimate_succeeds 1 flat_host default_fork sample_request [9] 21000) 21000 21001 = Done 21000"
    by (simp add: estimate_loop.simps s[unfolded One_nat_def])
  have r: "estimate_transaction_gas 1 flat_host default_fork sample_request 21001 = Done (Inr 21000)"
    using i s[of 21001] l by (simp add: estimate_transaction_gas_def Let_def sample_request_def)
  from estimate_minimal[OF r, of 21001] r show ?thesis by (simp add: i sample_request_def)
qed

end
