(* ===== verification/EvmRpc.thy ===== *)
theory EvmRpc
  imports EvmEstimator
begin

text \<open>
  The JSON-RPC methods (\<open>src/rpc/handler.rs\<close>) and their dispatch (\<open>rpc_endpoint\<close> of \<open>src/rpc/server.rs\<close>).  A
  handler takes the server state and answers a result or an error; the ones that change the state return it.  The
  transport (HTTP, the WebSocket loop and the broadcast channel) is not modelled.
\<close>

section \<open>Helpers\<close>

definition map_err :: "('e \<Rightarrow> 'f) \<Rightarrow> 'e + 'a \<Rightarrow> 'f + 'a" where
  "map_err f r = map_sum f (\<lambda>x. x) r"

definition as_array :: "json \<Rightarrow> json list option" where
  "as_array j = (case j of JArray xs \<Rightarrow> Some xs | _ \<Rightarrow> None)"

definition as_str :: "json \<Rightarrow> string option" where
  "as_str j = (case j of JString s \<Rightarrow> Some s | _ \<Rightarrow> None)"

definition first_of :: "'a list \<Rightarrow> 'a option" where
  "first_of xs = (case xs of [] \<Rightarrow> None | x # _ \<Rightarrow> Some x)"

text \<open>\<open>values.first().and_then(Value::as_str)\<close>\<close>

definition first_str :: "json list \<Rightarrow> string option" where
  "first_str xs = Option.bind (first_of xs) as_str"

definition parse_call_request :: "text_crates \<Rightarrow> json \<Rightarrow> json_rpc_error + call_request" where
  "parse_call_request c params =
     rbind (case params of
              JArray xs \<Rightarrow> ok_or (rpc_invalid_params ''call requires a call object'') (first_of xs)
            | JObject kvs \<Rightarrow> Inr (JObject kvs)
            | _ \<Rightarrow> Inl (rpc_invalid_params ''call params must be an array'')) (\<lambda>call_value.
     map_err rpc_invalid_params (call_request_of_json c call_value))"

definition debug_tx_decode_error :: "tx_decode_error \<Rightarrow> string" where
  "debug_tx_decode_error err =
     (case err of InvalidRlp \<Rightarrow> ''InvalidRlp'' | UnsupportedType \<Rightarrow> ''UnsupportedType''
      | InvalidSignature \<Rightarrow> ''InvalidSignature'' | RecoveryFailed \<Rightarrow> ''RecoveryFailed'')"

section \<open>Queries\<close>

definition handle_eth_call ::
    "nat \<Rightarrow> host \<Rightarrow> text_crates \<Rightarrow> rpc_state \<Rightarrow> json \<Rightarrow> (json_rpc_error + string) outcome" where
  "handle_eth_call n h c rs params =
     (case rbind (parse_call_request c params) (\<lambda>call.
           rbind (ok_or (rpc_invalid_params ''eth_call requires a to address'') (cr_to call)) (\<lambda>target.
           rbind (ok_or (rpc_invalid_params ''gas exceeds u64'') (try_u64 (unwrap_or 30000000 (cr_gas call)))) (\<lambda>gas_limit.
           Inr (call, target, gas_limit)))) of
        Inl err \<Rightarrow> Done (Inl err)
      | Inr (call, target, gas_limit) \<Rightarrow>
          obind (simulate_tx n h (rpc_fork rs) (unwrap_or zero_address (cr_from call)) target (unwrap_or 0 (cr_value call))
                   (unwrap_or [] (cr_data call)) gas_limit) (\<lambda>result.
          Done (if \<not> sim_success result
                then Inl (rpc_custom (-32000)
                       (if sim_return_data result = [] then ''execution reverted''
                        else ''execution reverted: '' @ hex_string c (sim_return_data result)))
                else Inr (hex_string c (sim_return_data result)))))"

definition handle_eth_estimate_gas ::
    "nat \<Rightarrow> host \<Rightarrow> text_crates \<Rightarrow> rpc_state \<Rightarrow> json \<Rightarrow> (json_rpc_error + string) outcome" where
  "handle_eth_estimate_gas n h c rs params =
     (case parse_call_request c params of
        Inl err \<Rightarrow> Done (Inl err)
      | Inr call \<Rightarrow>
          obind (estimate_transaction_gas n h (rpc_fork rs) call 30000000) (\<lambda>r.
          Done (map_sum (\<lambda>e. e) hex_number r)))"

definition handle_eth_get_storage_at :: "text_crates \<Rightarrow> rpc_state \<Rightarrow> json \<Rightarrow> json_rpc_error + string" where
  "handle_eth_get_storage_at c rs params =
     rbind (ok_or (rpc_invalid_params ''eth_getStorageAt params must be an array'') (as_array params)) (\<lambda>xs.
     if length xs < 2 then Inl (rpc_invalid_params ''eth_getStorageAt requires address and position'')
     else rbind (ok_or (rpc_invalid_params ''invalid address'') (as_str (xs ! 0))) (\<lambda>a_str.
     rbind (map_err rpc_invalid_params (decode_address c a_str)) (\<lambda>addr.
     rbind (ok_or (rpc_invalid_params ''invalid storage position'') (as_str (xs ! 1))) (\<lambda>s_str.
     rbind (map_err rpc_invalid_params (decode_u256 c s_str)) (\<lambda>slot.
     Inr (hex_string c (u256_to_be_bytes (get_storage (rpc_fork rs) addr slot))))))))"

definition handle_eth_get_code :: "text_crates \<Rightarrow> rpc_state \<Rightarrow> json \<Rightarrow> json_rpc_error + string" where
  "handle_eth_get_code c rs params =
     rbind (ok_or (rpc_invalid_params ''eth_getCode params must be an array'') (as_array params)) (\<lambda>xs.
     rbind (ok_or (rpc_invalid_params ''eth_getCode requires an address'') (first_str xs)) (\<lambda>a_str.
     rbind (map_err rpc_invalid_params (decode_address c a_str)) (\<lambda>addr.
     Inr (hex_string c (get_code (rpc_fork rs) addr)))))"

definition handle_txpool_status :: "rpc_state \<Rightarrow> json" where
  "handle_txpool_status rs =
     JObject [(''pending'', JString (hex_number (pool_len (rpc_tx_pool rs)))), (''queued'', JString ''0x0'')]"

definition handle_pending_transactions :: "walk_orders \<Rightarrow> text_crates \<Rightarrow> rpc_state \<Rightarrow> json" where
  "handle_pending_transactions wo c rs =
     JArray (map (\<lambda>x. JString (hex_string c (stx_hash (ptx_tx x)))) (pool_pending (sender_order wo) (rpc_tx_pool rs)))"

definition handle_eth_block_number :: "rpc_state \<Rightarrow> string" where
  "handle_eth_block_number rs = hex_number (rpc_block_number rs)"

definition zero_hash_text :: string where
  "zero_hash_text = ''0x'' @ replicate 64 (CHR ''0'')"

definition one_hash_text :: string where
  "one_hash_text = ''0x'' @ replicate 63 (CHR ''0'') @ ''1''"

definition empty_bloom_text :: string where
  "empty_bloom_text = ''0x'' @ concat (replicate 256 ''00'')"

definition handle_eth_get_block_by_number :: "text_crates \<Rightarrow> rpc_state \<Rightarrow> json \<Rightarrow> json_rpc_error + json" where
  "handle_eth_get_block_by_number c rs params =
     rbind (ok_or (rpc_invalid_params ''eth_getBlockByNumber params must be an array'') (as_array params)) (\<lambda>xs.
     if first_str xs = None then Inl (rpc_invalid_params ''eth_getBlockByNumber requires a block tag'')
     else Inr (JObject [
       (''number'', JString (hex_number (rpc_block_number rs))),
       (''hash'', JString one_hash_text),
       (''parentHash'', JString zero_hash_text),
       (''nonce'', JString ''0x0000000000000000''),
       (''sha3Uncles'', JString zero_hash_text),
       (''logsBloom'', JString empty_bloom_text),
       (''transactionsRoot'', JString zero_hash_text),
       (''stateRoot'', JString (hex_string c (rpc_state_root rs))),
       (''receiptsRoot'', JString zero_hash_text),
       (''miner'', JString (''0x'' @ replicate 40 (CHR ''0''))),
       (''difficulty'', JString ''0x0''),
       (''totalDifficulty'', JString ''0x0''),
       (''extraData'', JString ''0x''),
       (''size'', JString ''0x0''),
       (''gasLimit'', JString ''0x1c9c380''),
       (''gasUsed'', JString ''0x0''),
       (''timestamp'', JString ''0x60000000''),
       (''transactions'', JArray []),
       (''uncles'', JArray [])]))"

definition receipt_json :: "text_crates \<Rightarrow> bytes \<Rightarrow> tx_execution_receipt \<Rightarrow> json" where
  "receipt_json c hash receipt = JObject [
     (''transactionHash'', JString (hex_string c hash)),
     (''transactionIndex'', JString ''0x0''),
     (''blockHash'', JString one_hash_text),
     (''blockNumber'', JString ''0x1''),
     (''from'', JString (''0x'' @ replicate 40 (CHR ''0''))),
     (''to'', JNull),
     (''cumulativeGasUsed'', JString (hex_number (rcpt_gas_used receipt))),
     (''gasUsed'', JString (hex_number (rcpt_gas_used receipt))),
     (''contractAddress'', JNull),
     (''logs'', JArray []),
     (''logsBloom'', JString empty_bloom_text),
     (''status'', JString (hex_number (rcpt_status receipt))),
     (''effectiveGasPrice'', JString ''0x1''),
     (''type'', JString ''0x0'')]"

definition handle_eth_get_transaction_receipt ::
    "text_crates \<Rightarrow> rpc_state \<Rightarrow> json \<Rightarrow> json_rpc_error + json option" where
  "handle_eth_get_transaction_receipt c rs params =
     rbind (ok_or (rpc_invalid_params ''eth_getTransactionReceipt params must be an array'') (as_array params)) (\<lambda>xs.
     rbind (ok_or (rpc_invalid_params ''eth_getTransactionReceipt requires a transaction hash'') (first_str xs)) (\<lambda>hash_str.
     rbind (map_err (\<lambda>_. rpc_invalid_params ''invalid transaction hash'') (hex_decode c (strip_0x hash_str))) (\<lambda>bs.
     if length bs \<noteq> 32 then Inl (rpc_invalid_params ''transaction hash must be 32 bytes'')
     else Inr (map_option (receipt_json c bs) (hm_get (rpc_receipts rs) bs)))))"

section \<open>Methods that change the state\<close>

definition handle_evm_mine ::
    "nat \<Rightarrow> host \<Rightarrow> walk_orders \<Rightarrow> text_crates \<Rightarrow> rpc_state \<Rightarrow> ((json_rpc_error + string) \<times> rpc_state) outcome" where
  "handle_evm_mine n h wo c rs =
     obind (mine_block n h wo c rs) (\<lambda>res.
     Done (map_sum (rpc_custom (-32000)) (hex_string c) (fst res), snd res))"

text \<open>What \<open>eth_sendRawTransaction\<close> does with a decoded transaction.\<close>

definition submit_transaction ::
    "nat \<Rightarrow> host \<Rightarrow> walk_orders \<Rightarrow> text_crates \<Rightarrow> rpc_state \<Rightarrow> bytes \<Rightarrow> signed_transaction
     \<Rightarrow> ((json_rpc_error + string) \<times> rpc_state) outcome" where
  "submit_transaction n h wo c rs bs tx =
     (let sender = stx_sender tx; current_nonce = acc_nonce (get_account (rpc_fork rs) sender)
      in if stx_nonce tx < current_nonce
         then Done (Inl (rpc_custom (-32000) ''nonce is lower than account nonce''), rs)
         else let inserted = pool_insert (rpc_tx_pool rs) sender tx bs
         in case fst inserted of
              Inl e \<Rightarrow> Done (Inl (rpc_custom (-32000) e), rs\<lparr>rpc_tx_pool := snd inserted\<rparr>)
            | Inr _ \<Rightarrow>
                let rs1 = rs\<lparr>rpc_tx_pool := snd inserted,
                             rpc_events := rpc_events rs @ [PendingTxEvent (hex_string c (stx_hash tx))]\<rparr>;
                    answer = Inr (hex_string c (stx_hash tx))
                in if rpc_auto_mine rs1
                   then obind (mine_block n h wo c rs1) (\<lambda>res.
                        Done (case fst res of Inl e \<Rightarrow> Inl (rpc_custom (-32000) e) | Inr _ \<Rightarrow> answer, snd res))
                   else Done (answer, rs1))"

definition handle_eth_send_raw_transaction ::
    "nat \<Rightarrow> host \<Rightarrow> walk_orders \<Rightarrow> text_crates \<Rightarrow> tx_crates \<Rightarrow> rpc_state \<Rightarrow> json
     \<Rightarrow> ((json_rpc_error + string) \<times> rpc_state) outcome" where
  "handle_eth_send_raw_transaction n h wo c tc rs params =
     (case rbind (ok_or (rpc_invalid_params ''eth_sendRawTransaction requires a raw transaction'')
                    (Option.bind (as_array params) first_str)) (\<lambda>raw.
           map_err (\<lambda>_. rpc_invalid_params ''Invalid raw transaction hex'') (hex_decode c (strip_0x raw))) of
        Inl err \<Rightarrow> Done (Inl err, rs)
      | Inr bs \<Rightarrow>
          obind (decode_raw_tx tc bs) (\<lambda>decoded.
          case decoded of
            Inl e \<Rightarrow> Done (Inl (rpc_custom (-32000)
                       (''Invalid signature or transaction encoding: '' @ debug_tx_decode_error e)), rs)
          | Inr tx \<Rightarrow> submit_transaction n h wo c rs bs tx))"

section \<open>Dispatch\<close>

record json_rpc_response =
  resp_result :: "json option"
  resp_error :: "json_rpc_error option"
  resp_id :: json

definition rpc_success :: "json \<Rightarrow> json \<Rightarrow> json_rpc_response" where
  "rpc_success result req_id = \<lparr>resp_result = Some result, resp_error = None, resp_id = req_id\<rparr>"

definition error_response :: "json_rpc_error \<Rightarrow> json \<Rightarrow> json_rpc_response" where
  "error_response err req_id = \<lparr>resp_result = None, resp_error = Some err, resp_id = req_id\<rparr>"

definition respond :: "json \<Rightarrow> json_rpc_error + json \<Rightarrow> json_rpc_response" where
  "respond req_id r = (case r of Inl err \<Rightarrow> error_response err req_id | Inr x \<Rightarrow> rpc_success x req_id)"

text \<open>An answer of a method that leaves the state alone, and of one that returns it.\<close>

definition answer_with :: "rpc_state \<Rightarrow> json \<Rightarrow> (json_rpc_error + json) outcome \<Rightarrow> (json_rpc_response \<times> rpc_state) outcome" where
  "answer_with rs req_id m = obind m (\<lambda>r. Done (respond req_id r, rs))"

definition answer_state ::
    "json \<Rightarrow> ((json_rpc_error + string) \<times> rpc_state) outcome \<Rightarrow> (json_rpc_response \<times> rpc_state) outcome" where
  "answer_state req_id m = obind m (\<lambda>r. Done (respond req_id (map_sum (\<lambda>e. e) JString (fst r)), snd r))"

definition text_result :: "json_rpc_error + string \<Rightarrow> json_rpc_error + json" where
  "text_result r = map_sum (\<lambda>e. e) JString r"

definition rpc_endpoint ::
    "nat \<Rightarrow> host \<Rightarrow> walk_orders \<Rightarrow> text_crates \<Rightarrow> tx_crates \<Rightarrow> rpc_state \<Rightarrow> string \<Rightarrow> json \<Rightarrow> json
     \<Rightarrow> (json_rpc_response \<times> rpc_state) outcome" where
  "rpc_endpoint n h wo c tc rs req_method params req_id =
     (if req_method = ''eth_call''
      then answer_with rs req_id (obind (handle_eth_call n h c rs params) (\<lambda>r. Done (text_result r)))
      else if req_method = ''eth_estimateGas''
      then answer_with rs req_id (obind (handle_eth_estimate_gas n h c rs params) (\<lambda>r. Done (text_result r)))
      else if req_method = ''eth_getStorageAt''
      then answer_with rs req_id (Done (text_result (handle_eth_get_storage_at c rs params)))
      else if req_method = ''eth_getCode''
      then answer_with rs req_id (Done (text_result (handle_eth_get_code c rs params)))
      else if req_method = ''eth_sendRawTransaction''
      then answer_state req_id (handle_eth_send_raw_transaction n h wo c tc rs params)
      else if req_method = ''eth_blockNumber''
      then answer_with rs req_id (Done (Inr (JString (handle_eth_block_number rs))))
      else if req_method = ''evm_mine'' \<or> req_method = ''miner_mine''
      then answer_state req_id (handle_evm_mine n h wo c rs)
      else if req_method = ''txpool_status''
      then answer_with rs req_id (Done (Inr (handle_txpool_status rs)))
      else if req_method = ''eth_pendingTransactions''
      then answer_with rs req_id (Done (Inr (handle_pending_transactions wo c rs)))
      else if req_method = ''eth_getBlockByNumber''
      then answer_with rs req_id (Done (handle_eth_get_block_by_number c rs params))
      else if req_method = ''eth_getTransactionReceipt''
      then answer_with rs req_id (Done (map_sum (\<lambda>e. e) (unwrap_or JNull) (handle_eth_get_transaction_receipt c rs params)))
      else if req_method = ''net_version'' then answer_with rs req_id (Done (Inr (JString ''1'')))
      else if req_method = ''eth_chainId'' then answer_with rs req_id (Done (Inr (JString ''0x1'')))
      else Done (error_response (rpc_custom (-32601) ''Method not found'') req_id, rs))"

section \<open>The invariant of the server\<close>

text \<open>
  A well-formed world state and pool, and pending transactions whose nonce and gas limit are \<open>u64\<close>.  Every request keeps
  it; the server states reachable by requests therefore satisfy it.
\<close>

definition pending_bounded :: "pool_map \<Rightarrow> bool" where
  "pending_bounded pool \<longleftrightarrow>
     (\<forall>s n x. pool_view pool s n = Some x \<longrightarrow> n \<le> U64_MAX \<and> stx_gas_limit (ptx_tx x) \<le> U64_MAX)"

definition rpc_ok :: "rpc_state \<Rightarrow> bool" where
  "rpc_ok rs \<longleftrightarrow> fork_ok (rpc_fork rs) \<and> pool_ok (by_sender (rpc_tx_pool rs)) \<and> pending_bounded (by_sender (rpc_tx_pool rs))"

definition orders_ok :: "walk_orders \<Rightarrow> bool" where
  "orders_ok wo \<longleftrightarrow> (\<forall>pool. set (sender_order wo pool) = set pool)"

lemma call_machine_ok:
  assumes "fork_ok st" "g \<le> U64_MAX" shows "evm_ok (call_machine st caller target c v input g)"
  using assms new_with_gas_ok[OF assms(2), of c] by (simp add: call_machine_def evm_ok_def)

lemma apply_keeps_fork_ok:
  assumes "apply_signed_transaction n h st tx = Done (r, st')" "fork_ok st" "stx_gas_limit tx \<le> U64_MAX"
  shows "fork_ok st'"
proof -
  have run: "fork_ok (state e')"
    if "run n h (call_machine st1 s t c v d (stx_gas_limit tx)) = Done (res, e')" "fork_ok st1" for st1 s t c v d res e'
    using run_evolves[OF that(1)] call_machine_ok[OF that(2) assms(3)] by (simp add: evolves_def evm_ok_def)
  show ?thesis using assms(1,2) unfolding apply_signed_transaction_def Let_def
    by (auto simp: obind_Done_iff writers_ok run split: if_splits)
qed

lemma mine_transactions_fork_ok:
  assumes "mine_transactions n h c bh xs rs = Done (err, rs')" "fork_ok (rpc_fork rs)"
    "\<And>x. x \<in> set xs \<Longrightarrow> stx_gas_limit (ptx_tx x) \<le> U64_MAX"
  shows "fork_ok (rpc_fork rs')"
  using assms
proof (induction xs arbitrary: rs)
  case (Cons x xs)
  from Cons.prems(1) obtain r st where a: "apply_signed_transaction n h (rpc_fork rs) (ptx_tx x) = Done (r, st)"
    by (auto simp: obind_Done_iff)
  have st: "fork_ok st" "fork_ok (clear_transient_storage st)"
    using apply_keeps_fork_ok[OF a] Cons.prems(2,3) by (simp_all add: writers_ok)
  show ?case
  proof (cases r)
    case (Inl e)
    with Cons.prems(1) a st show ?thesis by auto
  next
    case (Inr receipt)
    from Cons.prems(1) a Inr obtain rs1 where "mine_transactions n h c bh xs rs1 = Done (err, rs')" "rpc_fork rs1 = clear_transient_storage st"
      by (auto simp: obind_Done_iff)
    with Cons.IH[of rs1] st Cons.prems(3) show ?thesis by simp
  qed
qed simp

lemma block_start_bounded:
  assumes "orders_ok wo" "rpc_ok rs" "block_start wo rs xs p'"
  shows "pool_ok (by_sender p') \<and> pending_bounded (by_sender p') \<and> (\<forall>x \<in> set xs. stx_gas_limit (ptx_tx x) \<le> U64_MAX)"
proof -
  let ?p = "rpc_tx_pool rs" and ?ns = "current_nonces (rpc_fork rs) (senders (sender_order wo) (rpc_tx_pool rs))"
  obtain ys q where q: "pop_executable (sender_order wo) ?p ?ns 30000000 = Done (ys, q)" "pool_ok (by_sender q)"
    "selection 30000000 (pool_view (by_sender ?p)) (\<lambda>s. unwrap_or 0 (hm_get ?ns s)) 0 ys (pool_view (by_sender q))"
    using pop_executable_refines[of "sender_order wo" 30000000 ?p ?ns] assms(1,2) by (auto simp: orders_ok_def rpc_ok_def)
  then have "xs = ys" "p' = q" using assms(3) by (simp_all add: block_start_def)
  with q selection_conserves[OF q(3)] assms(2) show ?thesis
    by (auto simp: pending_bounded_def rpc_ok_def split: if_splits)
qed

lemma mined_ok:
  assumes "mine_transactions n h c bh xs (numbered rs pool') = Done (err, rs')" "orders_ok wo" "rpc_ok rs" "block_start wo rs xs pool'"
  shows "rpc_ok rs'"
  using mine_transactions_fork_ok[OF assms(1)] mine_transactions_keeps[OF assms(1)] block_start_bounded[OF assms(2-4)] assms(3)
  by (simp add: rpc_ok_def)

lemma mine_block_ok:
  assumes "mine_block n h wo c rs = Done (r, rs')" "orders_ok wo" "rpc_ok rs"
  shows "rpc_ok rs'"
  using assms(1)
proof (cases rule: mine_block_cases)
  case (1 xs pool' err)
  then show ?thesis using mined_ok[OF 1(2) assms(2,3)] by blast
next
  case (2 xs pool' rs1 root)
  then have "rpc_ok rs1" using mined_ok[OF 2(2) assms(2,3)] by blast
  then show ?thesis using 2(5) by (simp add: rpc_ok_def)
qed

lemma decoded_bounded:
  assumes "tx_crates_ok tc" "decode_raw_tx tc raw = Done (Inr tx)"
  shows "stx_nonce tx \<le> U64_MAX \<and> stx_gas_limit tx \<le> U64_MAX"
proof (cases raw)
  case (Cons b rest)
  have u: "rlp_u64_at tc bs i = Some v \<Longrightarrow> v \<le> U64_MAX" for bs i v using assms(1) unfolding tx_crates_ok_def by blast
  have "stx_nonce tx \<le> U64_MAX \<and> stx_gas_limit tx \<le> U64_MAX" if "decode_eip1559 tc p hash = Done (Inr tx)" for p hash
    using that unfolding decode_eip1559_def decode_unfold by (auto simp: decode_unfold dest: u split: if_splits)
  moreover have "stx_nonce tx \<le> U64_MAX \<and> stx_gas_limit tx \<le> U64_MAX" if "decode_legacy tc p hash = Done (Inr tx)" for p hash
    using that unfolding decode_legacy_def decode_unfold by (auto simp: decode_unfold dest: u split: if_splits)
  ultimately show ?thesis using assms(2) Cons by (auto simp: decode_raw_tx_def Let_def split: if_splits)
qed (use assms(2) in \<open>simp add: decode_raw_tx_def\<close>)

lemma pool_insert_bounded:
  assumes "pool_ok (by_sender p)" "pending_bounded (by_sender p)" "pool_insert p sender tx raw = (r, p')"
    "stx_nonce tx \<le> U64_MAX" "stx_gas_limit tx \<le> U64_MAX"
  shows "pool_ok (by_sender p') \<and> pending_bounded (by_sender p')"
  using pool_insert_view(1,2)[OF assms(1,3)] assms(2,4,5)
  by (auto simp: pending_bounded_def pending_of_def split: if_splits)

lemma submitted_ok:
  assumes "pool_insert (rpc_tx_pool rs) sender tx raw = (r, pool)" "rpc_ok rs" "stx_nonce tx \<le> U64_MAX" "stx_gas_limit tx \<le> U64_MAX"
  shows "rpc_ok (rs\<lparr>rpc_tx_pool := pool\<rparr>)" "rpc_ok (rs\<lparr>rpc_tx_pool := pool, rpc_events := ev\<rparr>)"
  using pool_insert_bounded[OF _ _ assms(1,3,4)] assms(2) by (simp_all add: rpc_ok_def)

lemma submit_ok:
  assumes "submit_transaction n h wo c rs bs tx = Done (r, rs')" "orders_ok wo" "rpc_ok rs"
    "stx_nonce tx \<le> U64_MAX" "stx_gas_limit tx \<le> U64_MAX"
  shows "rpc_ok rs'"
proof -
  obtain res pool where ins: "pool_insert (rpc_tx_pool rs) (stx_sender tx) tx bs = (res, pool)" by (cases "pool_insert (rpc_tx_pool rs) (stx_sender tx) tx bs")
  note ok = submitted_ok[OF ins assms(3-5)]
  from assms(1) consider "rs' = rs" | "rs' = rs\<lparr>rpc_tx_pool := pool\<rparr>" | ev where "rs' = rs\<lparr>rpc_tx_pool := pool, rpc_events := ev\<rparr>"
    | ev x where "mine_block n h wo c (rs\<lparr>rpc_tx_pool := pool, rpc_events := ev\<rparr>) = Done (x, rs')"
    unfolding submit_transaction_def Let_def ins fst_conv snd_conv
    by (cases res) (auto simp: obind_Done_iff split: if_splits)
  then show ?thesis using ok mine_block_ok[OF _ assms(2)] assms(3) by cases auto
qed

text \<open>The argument of \<open>eth_sendRawTransaction\<close>: a string of hexadecimal digits, first in an array.\<close>

lemma send_raw_cases:
  obtains err where "\<And>n. handle_eth_send_raw_transaction n h wo c tc rs params = Done (Inl err, rs)"
  | bs where "\<And>n. handle_eth_send_raw_transaction n h wo c tc rs params = obind (decode_raw_tx tc bs) (\<lambda>decoded.
        case decoded of Inl e \<Rightarrow> Done (Inl (rpc_custom (-32000)
            (''Invalid signature or transaction encoding: '' @ debug_tx_decode_error e)), rs)
        | Inr tx \<Rightarrow> submit_transaction n h wo c rs bs tx)"
proof (cases "rbind (ok_or (rpc_invalid_params ''eth_sendRawTransaction requires a raw transaction'')
                    (Option.bind (as_array params) first_str)) (\<lambda>raw.
           map_err (\<lambda>_. rpc_invalid_params ''Invalid raw transaction hex'') (hex_decode c (strip_0x raw)))")
  case (Inl e)
  show thesis by (rule that(1)[of e]) (unfold handle_eth_send_raw_transaction_def Inl sum.case, rule refl)
next
  case (Inr bs)
  show thesis by (rule that(2)[of bs]) (unfold handle_eth_send_raw_transaction_def Inr sum.case, rule refl)
qed

lemma send_raw_ok:
  assumes "handle_eth_send_raw_transaction n h wo c tc rs params = Done (r, rs')" "orders_ok wo" "tx_crates_ok tc" "rpc_ok rs"
  shows "rpc_ok rs'"
proof (cases rule: send_raw_cases[of h wo c tc rs params])
  case (1 err)
  with assms(1,4) show ?thesis by simp
next
  case (2 bs)
  from assms(1)[unfolded 2] obtain d where d: "decode_raw_tx tc bs = Done d"
    unfolding obind_Done_iff by blast
  show ?thesis
  proof (cases d)
    case (Inl e)
    with assms(1)[unfolded 2] d assms(4) show ?thesis by simp
  next
    case (Inr tx)
    with assms(1)[unfolded 2] d have "submit_transaction n h wo c rs bs tx = Done (r, rs')" by simp
    with submit_ok[OF _ assms(2,4)] decoded_bounded[OF assms(3)] d Inr show ?thesis by blast
  qed
qed

lemma answer_with_state: "answer_with rs req_id m = Done (resp, rs') \<Longrightarrow> rs' = rs"
  by (auto simp: answer_with_def obind_Done_iff)

lemma answer_state_state: "answer_state req_id m = Done (resp, rs') \<Longrightarrow> \<exists>r. m = Done (r, rs')"
  by (auto simp: answer_state_def obind_Done_iff)

lemma evm_mine_state: "handle_evm_mine n h wo c rs = Done (r, rs') \<Longrightarrow> \<exists>r. mine_block n h wo c rs = Done (r, rs')"
  by (auto simp: handle_evm_mine_def obind_Done_iff)

lemma endpoint_state:
  assumes "rpc_endpoint n h wo c tc rs m params req_id = Done (resp, rs')"
  shows "rs' = rs \<or> m = ''eth_sendRawTransaction'' \<and> (\<exists>r. handle_eth_send_raw_transaction n h wo c tc rs params = Done (r, rs'))
    \<or> (m = ''evm_mine'' \<or> m = ''miner_mine'') \<and> (\<exists>r. mine_block n h wo c rs = Done (r, rs'))" (is ?concl)
proof -
  have split: "(if b then x else y) = z \<Longrightarrow> (b \<Longrightarrow> x = z \<Longrightarrow> P) \<Longrightarrow> (y = z \<Longrightarrow> P) \<Longrightarrow> P"
    for b P and x y z :: "(json_rpc_response \<times> rpc_state) outcome"
    by (cases b) auto
  have query: ?concl if "answer_with rs req_id r = Done (resp, rs')" for r
    using answer_with_state[OF that] by (rule disjI1)
  have send: ?concl if "m = ''eth_sendRawTransaction''"
      "answer_state req_id (handle_eth_send_raw_transaction n h wo c tc rs params) = Done (resp, rs')"
    using that(1) answer_state_state[OF that(2)] by (intro disjI2 disjI1 conjI)
  have mine: ?concl if "m = ''evm_mine'' \<or> m = ''miner_mine''"
      "answer_state req_id (handle_evm_mine n h wo c rs) = Done (resp, rs')"
    using that(1) answer_state_state[OF that(2)] evm_mine_state by blast
  have unknown: ?concl if "Done (x, rs) = Done (resp, rs')" for x
    using that by simp
  show ?thesis using assms unfolding rpc_endpoint_def
    by (elim split) (rule query send mine unknown, assumption+)+
qed

inductive serves :: "host \<Rightarrow> text_crates \<Rightarrow> tx_crates \<Rightarrow> rpc_state \<Rightarrow> rpc_state \<Rightarrow> bool" for h c tc where
  serves_start: "serves h c tc rs rs"
| serves_request: "serves h c tc rs rs1 \<Longrightarrow> orders_ok wo \<Longrightarrow>
    rpc_endpoint n h wo c tc rs1 m params req_id = Done (resp, rs2) \<Longrightarrow> serves h c tc rs rs2"

lemma serves_ok:
  "serves h c tc rs rs' \<Longrightarrow> tx_crates_ok tc \<Longrightarrow> rpc_ok rs \<Longrightarrow> rpc_ok rs'"
proof (induction rule: serves.induct)
  case (serves_request rs rs1 wo n m params req_id resp rs2)
  then have "rpc_ok rs1" by blast
  with endpoint_state[OF serves_request.hyps(3)] show ?case
    using send_raw_ok[OF _ serves_request.hyps(2) serves_request.prems(1)] mine_block_ok[OF _ serves_request.hyps(2)] by blast
qed

lemma rpc_state_new_ok: "fork_ok st \<Longrightarrow> rpc_ok (rpc_state_new st)"
  by (simp add: rpc_ok_def rpc_state_new_def pool_new_def pool_ok_def pending_bounded_def pool_view_def)

lemma settled_submit:
  assumes "orders_ok wo" "rpc_ok rs" "stx_nonce tx \<le> U64_MAX" "stx_gas_limit tx \<le> U64_MAX"
  shows "settled (\<lambda>n. submit_transaction n h wo c rs bs tx)"
proof -
  obtain res pool where ins: "pool_insert (rpc_tx_pool rs) (stx_sender tx) tx bs = (res, pool)" by (cases "pool_insert (rpc_tx_pool rs) (stx_sender tx) tx bs")
  have "settled (\<lambda>n. mine_block n h wo c (rs\<lparr>rpc_tx_pool := pool, rpc_events := ev\<rparr>))" for ev
    using submitted_ok(2)[OF ins assms(2-4)] assms(1) by (intro settled_mine_block) (simp_all add: orders_ok_def rpc_ok_def)
  then show ?thesis unfolding submit_transaction_def Let_def ins fst_conv snd_conv by (intro settled_intros) simp_all
qed

lemma settled_send_raw:
  assumes "orders_ok wo" "rpc_ok rs" "tx_crates_ok tc"
  shows "settled (\<lambda>n. handle_eth_send_raw_transaction n h wo c tc rs params)"
proof (cases rule: send_raw_cases[of h wo c tc rs params])
  case (1 err)
  then show ?thesis by (simp add: settled_const)
next
  case (2 bs)
  show ?thesis
  proof (cases "decode_raw_tx tc bs")
    case (Done d)
    then show ?thesis
      using settled_submit[OF assms(1,2)] decoded_bounded[OF assms(3), of bs] unfolding 2
      by (cases d) (auto intro: settled_const)
  next
    case Panic
    then show ?thesis unfolding 2 by (simp add: settled_const)
  next
    case NoFuel
    then show ?thesis using decode_raw_tx_fuel[of tc bs] by simp
  qed
qed

lemma settled_endpoint:
  assumes "orders_ok wo" "rpc_ok rs" "tx_crates_ok tc"
  shows "settled (\<lambda>n. rpc_endpoint n h wo c tc rs m params req_id)"
proof -
  have "settled (\<lambda>n. handle_eth_call n h c rs params)"
    unfolding handle_eth_call_def by (intro settled_intros) simp_all
  moreover have "settled (\<lambda>n. handle_eth_estimate_gas n h c rs params)"
    unfolding handle_eth_estimate_gas_def by (intro settled_intros) simp_all
  moreover have "settled (\<lambda>n. mine_block n h wo c rs)"
    using assms(1,2) by (intro settled_mine_block) (simp_all add: orders_ok_def rpc_ok_def)
  then have "settled (\<lambda>n. handle_evm_mine n h wo c rs)"
    unfolding handle_evm_mine_def by (intro settled_intros) simp_all
  ultimately show ?thesis
    unfolding rpc_endpoint_def answer_with_def answer_state_def
    by (intro settled_if settled_obind settled_send_raw[OF assms] settled_const; simp)
qed

section \<open>Queries\<close>

lemma idle_facts: "fork_ok default_fork" "rpc_ok (rpc_state_new default_fork)" "tx_crates_ok (sample_crates [])" "orders_ok fixed_orders"
proof -
  show "fork_ok default_fork" by (simp add: fork_ok_def default_fork_def accounts_ok_def snapshots_ok_def)
  then show "rpc_ok (rpc_state_new default_fork)" by (rule rpc_state_new_ok)
qed (simp_all add: tx_crates_ok_def sample_crates_def orders_ok_def fixed_orders_def)

text \<open>Only \<open>eth_sendRawTransaction\<close>, \<open>evm_mine\<close> and \<open>miner_mine\<close> change the server: every other request, simulated
  calls and gas estimates included, leaves state, pool, receipts, block number and events as they are.\<close>

lemma queries_keep_state:
  assumes "rpc_endpoint n h wo c tc rs m params req_id = Done (resp, rs')"
    "m \<notin> {''eth_sendRawTransaction'', ''evm_mine'', ''miner_mine''}"
  shows "rs' = rs"
  using endpoint_state[OF assms(1)] assms(2) by blast

definition sample_call :: call_request where
  "sample_call = \<lparr>cr_from = None, cr_to = Some (replicate 20 1), cr_gas = None, cr_gas_price = None, cr_value = None, cr_data = None\<rparr>"

lemma idle_call:
  "\<exists>resp rs'. rpc_endpoint 1 flat_host fixed_orders plain_text (sample_crates []) (rpc_state_new default_fork) ''eth_call''
     (JArray [call_request_to_json plain_text sample_call]) JNull = Done (resp, rs') \<and> resp_error resp = None"
proof -
  have p: "parse_call_request plain_text (JArray [call_request_to_json plain_text sample_call]) = Inr sample_call"
    using call_request_json[OF plain_text_ok, of sample_call]
    by (simp add: parse_call_request_def first_of_def ok_or_def map_err_def request_ok_def sample_call_def)
  have f: "rpc_fork (rpc_state_new default_fork) = default_fork" by (simp add: rpc_state_new_def)
  obtain res where "simulate_tx 1 flat_host default_fork zero_address (replicate 20 1) 0 [] 30000000 = Done res" "sim_success res"
    using empty_code_simulates by blast
  then have "handle_eth_call 1 flat_host plain_text (rpc_state_new default_fork) (JArray [call_request_to_json plain_text sample_call]) =
      Done (Inr (hex_string plain_text (sim_return_data res)))"
    unfolding handle_eth_call_def p f by (simp add: sample_call_def try_u64_def ok_or_def)
  then show ?thesis unfolding rpc_endpoint_def
    by (simp add: answer_with_def respond_def text_result_def rpc_success_def)
qed

lemma queries_keep_state_example:
  "\<exists>resp. rpc_endpoint 1 flat_host fixed_orders plain_text (sample_crates []) (rpc_state_new default_fork) ''eth_call''
     (JArray [call_request_to_json plain_text sample_call]) JNull = Done (resp, rpc_state_new default_fork) \<and> resp_error resp = None"
proof -
  from idle_call obtain resp rs' where c: "rpc_endpoint 1 flat_host fixed_orders plain_text (sample_crates [])
      (rpc_state_new default_fork) ''eth_call'' (JArray [call_request_to_json plain_text sample_call]) JNull = Done (resp, rs')"
    "resp_error resp = None" by blast
  moreover from queries_keep_state[OF c(1)] have "rs' = rpc_state_new default_fork" by simp
  ultimately show ?thesis by blast
qed

end
