(* ===== verification/EvmSubmission.thy ===== *)
theory EvmSubmission
  imports EvmRpc
begin

text \<open>
  From a raw transaction to its receipt: what a client sees who sends a transaction to a server that mines at once and then
  asks for the receipt.  The steps are those of \<open>src/rpc/handler.rs\<close>, \<open>src/tx/decoder.rs\<close>, \<open>src/mempool/mod.rs\<close>,
  \<open>src/rpc/types.rs\<close> and \<open>src/vm/runner.rs\<close>; nothing is defined here that models code.
\<close>

section \<open>A pool with one transaction\<close>

lemma selection_single:
  assumes "selection limit V active 0 xs V'" "\<And>s n. V s n = (if s = ptx_sender x \<and> n = ptx_nonce x then Some x else None)"
    "ptx_nonce x = active (ptx_sender x)" "ptx_gas_limit x \<le> limit"
  shows "xs = [x]"
proof -
  have all: "\<forall>y \<in> set xs. y = x" and d: "distinct (map ptx_key xs)"
    using selection_conserves[OF assms(1)] assms(2) by (auto split: if_splits)
  then have "xs = [] \<or> xs = [x]"
    by (cases xs; cases "tl xs") auto
  moreover have "xs \<noteq> []"
  proof
    assume "xs = []"
    with assms(1) have "\<not> executable limit V active 0 x" by (auto elim: selection.cases)
    with assms(2-4) show False by (simp add: executable_def split: if_splits)
  qed
  ultimately show ?thesis by blast
qed

lemma hm_get_current_nonces:
  "hm_get (current_nonces st ss) s = (if s \<in> set ss then Some (acc_nonce (get_account st s)) else None)"
proof -
  have "hm_get (foldl (\<lambda>m s. hm_insert s (acc_nonce (get_account st s)) m) m ss) s =
      (if s \<in> set ss then Some (acc_nonce (get_account st s)) else hm_get m s)" for m
    by (induction ss arbitrary: m) auto
  then show ?thesis by (simp add: current_nonces_def)
qed

lemma pops_the_only_one:
  assumes "orders_ok wo" "pool_ok (by_sender p)"
    "\<And>s n. pool_view (by_sender p) s n = (if s = ptx_sender x \<and> n = ptx_nonce x then Some x else None)"
    "ptx_nonce x = acc_nonce (get_account st (ptx_sender x))" "ptx_gas_limit x \<le> 30000000"
  shows "\<exists>q. pop_executable (sender_order wo) p (current_nonces st (senders (sender_order wo) p)) 30000000 = Done ([x], q)"
proof -
  let ?ss = "senders (sender_order wo) p"
  let ?ns = "current_nonces st ?ss"
  obtain ys q where q: "pop_executable (sender_order wo) p ?ns 30000000 = Done (ys, q)"
    "selection 30000000 (pool_view (by_sender p)) (\<lambda>s. unwrap_or 0 (hm_get ?ns s)) 0 ys (pool_view (by_sender q))"
    using pop_executable_refines[of "sender_order wo" 30000000 p ?ns] assms(1,2) by (auto simp: orders_ok_def)
  have "pool_view (by_sender p) (ptx_sender x) (ptx_nonce x) = Some x" using assms(3) by simp
  then obtain t where "hm_get (by_sender p) (ptx_sender x) = Some t" by (auto simp: pool_view_Some)
  then have "(ptx_sender x, t) \<in> set (sender_order wo (by_sender p))"
    using assms(1) map_of_SomeD by (fastforce simp: orders_ok_def)
  then have "ptx_sender x \<in> set ?ss" by (force simp: senders_def)
  then have "ptx_nonce x = unwrap_or 0 (hm_get ?ns (ptx_sender x))" using assms(4) by (simp add: hm_get_current_nonces)
  with selection_single[OF q(2) assms(3)] assms(5) have "ys = [x]" by blast
  with q(1) show ?thesis by blast
qed

section \<open>Submission\<close>

lemma apply_nonce:
  assumes "apply_signed_transaction n h st tx = Done (Inr receipt, st')"
  shows "acc_nonce (get_account st (stx_sender tx)) = stx_nonce tx"
  using assms by (auto simp: apply_signed_transaction_def Let_def split: if_splits)

lemma mines_the_only_one:
  assumes "orders_ok wo" "pool_ok (by_sender (rpc_tx_pool rs))"
    "\<And>s k. pool_view (by_sender (rpc_tx_pool rs)) s k = (if s = ptx_sender x \<and> k = ptx_nonce x then Some x else None)"
    "ptx_nonce x = acc_nonce (get_account (rpc_fork rs) (ptx_sender x))" "ptx_gas_limit x \<le> 30000000"
    "apply_signed_transaction n h (rpc_fork rs) (ptx_tx x) = Done (Inr receipt, st)"
  shows "\<exists>bh rs'. mine_block n h wo c rs = Done (Inr bh, rs') \<and> rpc_fork rs' = clear_transient_storage st \<and>
    hm_get (rpc_receipts rs') (stx_hash (ptx_tx x)) = Some receipt \<and>
    rpc_block_number rs' = saturating_add (rpc_block_number rs) 1"
proof -
  obtain q where q: "pop_executable (sender_order wo) (rpc_tx_pool rs)
      (current_nonces (rpc_fork rs) (senders (sender_order wo) (rpc_tx_pool rs))) 30000000 = Done ([x], q)"
    using pops_the_only_one[OF assms(1-5)] by blast
  obtain root where "fork_compute_state_root (keccak256 h) (address_order wo) (slot_order wo) (clear_transient_storage st) = Done root"
    using fork_root_Done by blast
  with q assms(6) show ?thesis by (simp add: mine_block_def Let_def del: One_nat_def)
qed

lemma submission_mines:
  assumes "orders_ok wo" "pool_ok (by_sender (rpc_tx_pool rs))" "\<And>s k. pool_view (by_sender (rpc_tx_pool rs)) s k = None"
    "rpc_auto_mine rs" "min_tip (rpc_tx_pool rs) \<le> stx_max_priority_fee_per_gas tx" "stx_gas_limit tx \<le> 30000000"
    "apply_signed_transaction n h (rpc_fork rs) tx = Done (Inr receipt, st)"
  shows "\<exists>rs'. submit_transaction n h wo c rs bs tx = Done (Inr (hex_string c (stx_hash tx)), rs') \<and>
    rpc_fork rs' = clear_transient_storage st \<and> hm_get (rpc_receipts rs') (stx_hash tx) = Some receipt \<and>
    rpc_block_number rs' = saturating_add (rpc_block_number rs) 1"
proof -
  let ?x = "pending_of (stx_sender tx) tx bs"
  obtain r pool where p: "pool_insert (rpc_tx_pool rs) (stx_sender tx) tx bs = (r, pool)" by fastforce
  note pool = pool_insert_view[OF assms(2) p]
  have r: "r = Inr ()" using pool(3) assms(3,5) by simp
  let ?rs = "rs\<lparr>rpc_tx_pool := pool, rpc_events := rpc_events rs @ [PendingTxEvent (hex_string c (stx_hash tx))]\<rparr>"
  have "\<exists>bh rs'. mine_block n h wo c ?rs = Done (Inr bh, rs') \<and> rpc_fork rs' = clear_transient_storage st \<and>
      hm_get (rpc_receipts rs') (stx_hash (ptx_tx ?x)) = Some receipt \<and>
      rpc_block_number rs' = saturating_add (rpc_block_number ?rs) 1"
  proof (rule mines_the_only_one[OF assms(1)])
    show "pool_view (by_sender (rpc_tx_pool ?rs)) s k = (if s = ptx_sender ?x \<and> k = ptx_nonce ?x then Some ?x else None)" for s k
      using pool(2) r assms(3) by (simp add: pending_of_def)
  qed (use pool(1) apply_nonce[OF assms(7)] assms(6,7) in \<open>simp_all add: pending_of_def\<close>)
  with p r assms(4) apply_nonce[OF assms(7)] show ?thesis
    by (auto simp: submit_transaction_def Let_def pending_of_def simp del: One_nat_def)
qed

lemma receipt_found:
  assumes "text_ok c" "length hash = 32" "hm_get (rpc_receipts rs) hash = Some receipt"
  shows "handle_eth_get_transaction_receipt c rs (JArray [JString (hex_string c hash)]) = Inr (Some (receipt_json c hash receipt))"
  using assms by (simp add: handle_eth_get_transaction_receipt_def as_array_def first_str_def first_of_def as_str_def
      hex_string_def strip_0x_def text_ok_def map_err_def)

lemma send_raw_submits:
  assumes "text_ok c" "decode_raw_tx tc bs = Done (Inr tx)"
  shows "handle_eth_send_raw_transaction n h wo c tc rs (JArray [JString (hex_string c bs)]) = submit_transaction n h wo c rs bs tx"
  using assms by (simp add: handle_eth_send_raw_transaction_def as_array_def first_str_def first_of_def as_str_def
      hex_string_def strip_0x_def text_ok_def map_err_def)

lemma decoded_hash_length:
  assumes "tx_crates_ok tc" "decode_raw_tx tc bs = Done (Inr tx)"
  shows "length (stx_hash tx) = 32"
proof (cases bs)
  case (Cons b rest)
  with assms show ?thesis
    by (auto simp: decode_raw_tx_def Let_def tx_crates_ok_def dest!: decode_eip1559_ok decode_legacy_ok split: if_splits)
qed (use assms in \<open>simp add: decode_raw_tx_def\<close>)

section \<open>Properties\<close>

text \<open>C24.  A raw transaction that decodes, pays the minimal tip, fits into a block and is applied by the state, sent to a server
  that mines at once and has no other transaction waiting, is in the next block: the call answers its hash, the server is left in
  the state that applying it gives, and asking for the receipt of that hash finds what applying it reported.\<close>

theorem sent_transaction_has_receipt:
  assumes "orders_ok wo" "text_ok c" "tx_crates_ok tc" "pool_ok (by_sender (rpc_tx_pool rs))"
    "\<And>s k. pool_view (by_sender (rpc_tx_pool rs)) s k = None" "rpc_auto_mine rs"
    "decode_raw_tx tc bs = Done (Inr tx)" "min_tip (rpc_tx_pool rs) \<le> stx_max_priority_fee_per_gas tx"
    "stx_gas_limit tx \<le> 30000000" "apply_signed_transaction n h (rpc_fork rs) tx = Done (Inr receipt, st)"
  shows "\<exists>answer rs'. handle_eth_send_raw_transaction n h wo c tc rs (JArray [JString (hex_string c bs)]) = Done (Inr answer, rs') \<and>
    answer = hex_string c (stx_hash tx) \<and> rpc_fork rs' = clear_transient_storage st \<and>
    rpc_block_number rs' = saturating_add (rpc_block_number rs) 1 \<and>
    handle_eth_get_transaction_receipt c rs' (JArray [JString answer]) = Inr (Some (receipt_json c (stx_hash tx) receipt))"
  using submission_mines[OF assms(1,4,5,6,8-10), of c bs] receipt_found[OF assms(2) decoded_hash_length[OF assms(3,7)]]
  unfolding send_raw_submits[OF assms(2,7)] by blast

definition funded_server :: rpc_state where
  "funded_server = rpc_state_new (set_nonce (set_balance default_fork (replicate 20 7) 100) (replicate 20 7) 5)"

lemma funded_transaction:
  "\<exists>tx receipt st. decode_raw_tx (sample_crates []) [0xc1] = Done (Inr tx) \<and> stx_gas_limit tx = 5 \<and>
     apply_signed_transaction 1 flat_host (rpc_fork funded_server) tx = Done (Inr receipt, st)"
proof -
  obtain tx where tx: "decode_raw_tx (sample_crates []) [0xc1] = Done (Inr tx)" "stx_gas_limit tx = 5" "stx_nonce tx = 5"
    "stx_to tx = None" "stx_value tx = 1" "stx_max_fee_per_gas tx = 1" "stx_sender tx = replicate 20 7"
    by (simp add: decode_raw_tx_def Let_def decode_legacy_def sample_crates_def try_some_def decode_to_def try_result_def
        legacy_v_def recover_sender_def address_from_slice_def)
  have "\<exists>e'. run 1 flat_host (call_machine st s t [] v d g) = Done (Halt, e')" for st s t v d g
    by (rule empty_code_run) (simp_all add: call_machine_def new_with_gas_def)
  then obtain f where f: "run 1 flat_host (call_machine st s t [] v d g) = Done (Halt, f st s t v d g)" for st s t v d g
    by metis
  have "acc_nonce (get_account (rpc_fork funded_server) (replicate 20 7)) = 5" "get_balance (rpc_fork funded_server) (replicate 20 7) = 100"
    by (simp_all add: funded_server_def rpc_state_new_def get_balance_def set_nonce_def set_balance_def)
  then show ?thesis using tx f by (simp add: apply_signed_transaction_def Let_def max_gas_cost_def add_u64_def)
qed

theorem sent_transaction_has_receipt_witness:
  "\<exists>answer rs' receipt. handle_eth_send_raw_transaction 1 flat_host fixed_orders plain_text (sample_crates []) funded_server
       (JArray [JString (hex_string plain_text [0xc1])]) = Done (Inr answer, rs') \<and> rpc_block_number rs' = 1 \<and>
     handle_eth_get_transaction_receipt plain_text rs' (JArray [JString answer]) = Inr (Some receipt)"
proof -
  obtain tx receipt st where t: "decode_raw_tx (sample_crates []) [0xc1] = Done (Inr tx)" "stx_gas_limit tx = 5"
    "apply_signed_transaction 1 flat_host (rpc_fork funded_server) tx = Done (Inr receipt, st)"
    using funded_transaction by blast
  have "pool_ok (by_sender (rpc_tx_pool funded_server))" "pool_view (by_sender (rpc_tx_pool funded_server)) s k = None"
    "rpc_auto_mine funded_server" "min_tip (rpc_tx_pool funded_server) \<le> stx_max_priority_fee_per_gas tx"
    "rpc_block_number funded_server = 0" for s k
    by (simp_all add: funded_server_def rpc_state_new_def pool_new_def pool_ok_def pool_view_def)
  with sent_transaction_has_receipt[OF idle_facts(4) plain_text_ok idle_facts(3) _ _ _ t(1) _ _ t(3)] t(2)
  show ?thesis by (auto simp: saturating_add_def)
qed

end
