(* ===== verification/EvmSocket.thy ===== *)
theory EvmSocket
  imports EvmRpc
begin

text \<open>
  The WebSocket loop (\<open>handle_ws\<close> and \<open>ws_upgrade\<close> of \<open>src/rpc/server.rs\<close>).  \<open>tokio::select!\<close> is a sequence of inputs, each
  a message of the peer or an event of the broadcast channel; the sink answers the \<open>k\<close>-th send by \<open>ok k\<close>.  Parsing of text
  into JSON and the derived deserializer of \<open>LogFilter\<close> are the fields of \<open>socket_crates\<close>; messages that go out are
  JSON values.  \<open>SUB_COUNTER\<close> is shared by all sockets of the process, which \<open>hub\<close> collects.
\<close>

section \<open>JSON forms\<close>

record socket_crates =
  json_of_text :: "string \<Rightarrow> json option"
  log_filter_of_json :: "json \<Rightarrow> log_filter option"

definition json_get :: "json \<Rightarrow> string \<Rightarrow> json option" where
  "json_get j key = (case j of JObject kvs \<Rightarrow> map_of kvs key | _ \<Rightarrow> None)"

definition optional_string :: "string option \<Rightarrow> json" where
  "optional_string s = (case s of None \<Rightarrow> JNull | Some x \<Rightarrow> JString x)"

definition header_json :: "block_header_notification \<Rightarrow> json" where
  "header_json head = JObject [(''number'', JString (hd_number head)), (''hash'', JString (hd_hash head)),
     (''parentHash'', JString (hd_parent_hash head)), (''miner'', JString (hd_miner head)), (''timestamp'', JString (hd_timestamp head))]"

definition log_json :: "log_notification \<Rightarrow> json" where
  "log_json log = JObject [(''address'', JString (ln_address log)), (''topics'', JArray (map JString (ln_topics log))),
     (''data'', JString (ln_data log)), (''blockHash'', optional_string (ln_block_hash log)),
     (''blockNumber'', optional_string (ln_block_number log)), (''transactionHash'', optional_string (ln_transaction_hash log)),
     (''logIndex'', optional_string (ln_log_index log))]"

definition number_text :: "int \<Rightarrow> string" where
  "number_text i = (if i < 0 then ''-'' @ decimal (nat (- i)) else decimal (nat i))"

definition rpc_error_json :: "json_rpc_error \<Rightarrow> json" where
  "rpc_error_json err = JObject ([(''code'', JNumber (number_text (err_code err))), (''message'', JString (err_message err))] @
     json_field ''data'' (\<lambda>j. j) (err_data err))"

definition response_json :: "json_rpc_response \<Rightarrow> json" where
  "response_json resp = JObject ([(''jsonrpc'', JString ''2.0'')] @ json_field ''result'' (\<lambda>j. j) (resp_result resp) @
     json_field ''error'' rpc_error_json (resp_error resp) @ [(''id'', resp_id resp)])"

definition notification_json :: "string \<Rightarrow> json \<Rightarrow> json" where
  "notification_json subscription result = JObject [(''jsonrpc'', JString ''2.0''), (''method'', JString ''eth_subscription''),
     (''params'', JObject [(''subscription'', JString subscription), (''result'', result)])]"

section \<open>Requests on a socket\<close>

definition default_log_filter :: log_filter where
  "default_log_filter = \<lparr>lf_address = None, lf_topics = None\<rparr>"

definition subscription_of :: "socket_crates \<Rightarrow> json list option \<Rightarrow> subscription_kind option" where
  "subscription_of cr params =
     Option.bind (Option.bind (Option.bind params first_of) as_str) (\<lambda>name.
       if name = ''newHeads'' then Some NewHeads
       else if name = ''pendingTransactions'' then Some PendingTransactions
       else if name = ''logs''
       then Some (Logs (unwrap_or default_log_filter
              (Option.bind (Option.bind params (\<lambda>xs. if 1 < length xs then Some (xs ! 1) else None)) (log_filter_of_json cr))))
       else None)"

text \<open>The response to a parsed request, the counter and the subscriptions afterwards.\<close>

definition socket_request ::
    "socket_crates \<Rightarrow> u64 \<Rightarrow> active_subscriptions \<Rightarrow> json \<Rightarrow> json_rpc_response \<times> u64 \<times> active_subscriptions" where
  "socket_request cr counter subs request =
     (let req_id = unwrap_or JNull (json_get request ''id'');
          req_method = unwrap_or [] (Option.bind (json_get request ''method'') as_str);
          params = Option.bind (json_get request ''params'') as_array
      in if req_method = ''eth_subscribe''
         then (case subscription_of cr params of
                 Some kind \<Rightarrow>
                   let (sub_id, counter', subs') = sub_add counter subs kind
                   in (rpc_success (JString sub_id) req_id, counter', subs')
               | None \<Rightarrow> (error_response (rpc_custom (-32601) ''Unsupported subscription type'') req_id, counter, subs))
         else if req_method = ''eth_unsubscribe''
         then let sub_id = unwrap_or [] (Option.bind (Option.bind params first_of) as_str);
                  (removed, subs') = sub_remove subs sub_id
              in (rpc_success (JBool removed) req_id, counter, subs')
         else (error_response (rpc_custom (-32601) ''Method not found'') req_id, counter, subs))"

section \<open>The loop\<close>

datatype socket_input =
    PeerText string
  | PeerGone
  | BroadcastEvent evm_event
  | BroadcastLagged
  | BroadcastClosed

text \<open>\<open>PeerGone\<close> stands for everything that is not a text message: the end of the stream, an error, another kind of message.\<close>

record socket =
  sock_subs :: active_subscriptions
  sock_out :: "json list"
  sock_open :: bool

definition socket_new :: socket where
  "socket_new = \<lparr>sock_subs = [], sock_out = [], sock_open = True\<rparr>"

definition socket_send :: "(nat \<Rightarrow> bool) \<Rightarrow> json \<Rightarrow> socket \<Rightarrow> socket" where
  "socket_send ok msg s =
     (if ok (length (sock_out s)) then s\<lparr>sock_out := sock_out s @ [msg]\<rparr> else s\<lparr>sock_open := False\<rparr>)"

definition notification :: "subscription_kind \<Rightarrow> evm_event \<Rightarrow> json option" where
  "notification kind ev =
     (case (kind, ev) of
        (NewHeads, NewHead head) \<Rightarrow> Some (header_json head)
      | (PendingTransactions, PendingTxEvent hash) \<Rightarrow> Some (JString hash)
      | (Logs f, LogEvent log) \<Rightarrow> if filter_matches f log then Some (log_json log) else None
      | _ \<Rightarrow> None)"

fun notify_loop :: "(nat \<Rightarrow> bool) \<Rightarrow> evm_event \<Rightarrow> (string \<times> subscription_kind) list \<Rightarrow> socket \<Rightarrow> socket" where
  "notify_loop ok ev [] s = s"
| "notify_loop ok ev (sk # rest) s =
     (case notification (snd sk) ev of
        None \<Rightarrow> notify_loop ok ev rest s
      | Some result \<Rightarrow>
          let s' = socket_send ok (notification_json (fst sk) result) s
          in if sock_open s' then notify_loop ok ev rest s' else s')"

text \<open>One turn of the loop; \<open>so\<close> is the iteration order of the map of subscriptions.\<close>

definition socket_step ::
    "socket_crates \<Rightarrow> (nat \<Rightarrow> bool) \<Rightarrow> (active_subscriptions \<Rightarrow> active_subscriptions) \<Rightarrow> socket_input \<Rightarrow> u64 \<times> socket \<Rightarrow> u64 \<times> socket" where
  "socket_step cr ok so inp cs =
     (let counter = fst cs; s = snd cs
      in if \<not> sock_open s then cs
         else case inp of
           PeerText txt \<Rightarrow>
             (case json_of_text cr txt of
                None \<Rightarrow> cs
              | Some request \<Rightarrow>
                  let (resp, counter', subs') = socket_request cr counter (sock_subs s) request
                  in (counter', socket_send ok (response_json resp) (s\<lparr>sock_subs := subs'\<rparr>)))
         | PeerGone \<Rightarrow> (counter, s\<lparr>sock_open := False\<rparr>)
         | BroadcastEvent ev \<Rightarrow> (counter, notify_loop ok ev (so (sock_subs s)) s)
         | BroadcastLagged \<Rightarrow> cs
         | BroadcastClosed \<Rightarrow> (counter, s\<lparr>sock_open := False\<rparr>))"

definition handle_ws ::
    "socket_crates \<Rightarrow> (nat \<Rightarrow> bool) \<Rightarrow> (active_subscriptions \<Rightarrow> active_subscriptions) \<Rightarrow> socket_input list \<Rightarrow> u64 \<Rightarrow> u64 \<times> socket" where
  "handle_ws cr ok so inputs counter = fold (socket_step cr ok so) inputs (counter, socket_new)"

section \<open>What a socket is sent\<close>

text \<open>The notifications that an event causes, in the order in which the subscriptions are walked.\<close>

definition notifications :: "evm_event \<Rightarrow> (string \<times> subscription_kind) list \<Rightarrow> json list" where
  "notifications ev sks = concat (map (\<lambda>(sid, kind). case notification kind ev of None \<Rightarrow> [] | Some r \<Rightarrow> [notification_json sid r]) sks)"

lemma notifications_simps [simp]:
  "notifications ev [] = []"
  "notifications ev (sk # sks) =
     (case notification (snd sk) ev of None \<Rightarrow> notifications ev sks | Some r \<Rightarrow> notification_json (fst sk) r # notifications ev sks)"
  by (simp_all add: notifications_def split: prod.split option.split)

text \<open>How many of \<open>n\<close> sends succeed, from the \<open>k\<close>-th on: the first one that fails ends the loop.\<close>

primrec accepted :: "(nat \<Rightarrow> bool) \<Rightarrow> nat \<Rightarrow> nat \<Rightarrow> nat" where
  "accepted ok k 0 = 0"
| "accepted ok k (Suc n) = (if ok k then Suc (accepted ok (Suc k) n) else 0)"

lemma accepted_all: "(\<And>k. ok k) \<Longrightarrow> accepted ok k n = n"
  by (induction n arbitrary: k) simp_all

lemma notify_loop_out:
  assumes "sock_open s"
  shows "notify_loop ok ev sks s =
    (let ns = notifications ev sks; m = accepted ok (length (sock_out s)) (length ns)
     in s\<lparr>sock_out := sock_out s @ take m ns, sock_open := m = length ns\<rparr>)"
  using assms
proof (induction sks arbitrary: s)
  case (Cons sk sks)
  show ?case
  proof (cases "notification (snd sk) ev")
    case None
    with Cons show ?thesis by simp
  next
    case (Some r)
    with Cons show ?thesis
      by (cases "ok (length (sock_out s))") (simp_all add: socket_send_def Let_def)
  qed
qed simp

lemma notify_loop_all:
  assumes "sock_open s" "\<And>k. ok k"
  shows "notify_loop ok ev sks s = s\<lparr>sock_out := sock_out s @ notifications ev sks\<rparr>"
  using assms(1) by (simp add: notify_loop_out[OF assms(1)] accepted_all[of ok, OF assms(2)] Let_def)

section \<open>Subscription identifiers\<close>

lemma digit_char_inj: "i < 16 \<Longrightarrow> j < 16 \<Longrightarrow> digit_char i = digit_char j \<longleftrightarrow> i = j"
  by (metis option.inject position_digit)

lemma radix_nonempty: "radix b n \<noteq> []"
  by (subst radix.simps) simp

lemma radix_inj:
  assumes "2 \<le> b" "b \<le> 16" shows "radix b m = radix b n \<longleftrightarrow> m = n"
proof
  show "radix b m = radix b n \<Longrightarrow> m = n"
  proof (induction m arbitrary: n rule: less_induct)
    case (less m)
    have small: "k < b \<Longrightarrow> radix b k = [digit_char k]" and
      large: "b \<le> k \<Longrightarrow> radix b k = radix b (k div b) @ [digit_char (k mod b)]" for k
      using assms(1) by (simp_all add: radix.simps[of b k])
    consider "m < b" "n < b" | "b \<le> m" "b \<le> n" | "m < b" "b \<le> n" | "b \<le> m" "n < b" by linarith
    then show ?case
    proof cases
      case 1
      with less.prems assms(2) show ?thesis by (simp add: small digit_char_inj)
    next
      case 2
      have "m mod b < 16" "n mod b < 16" using assms mod_less_divisor[of b m] mod_less_divisor[of b n] by linarith+
      with less.prems 2 have "radix b (m div b) = radix b (n div b)" "m mod b = n mod b"
        by (simp_all add: large digit_char_inj)
      moreover have "m div b < m" using 2(1) assms(1) by simp
      ultimately have "m div b = n div b" "m mod b = n mod b" using less.IH by blast+
      then show ?thesis by (metis div_mult_mod_eq)
    next
      case 3
      with less.prems radix_nonempty[of b "n div b"] show ?thesis by (simp add: small large)
    next
      case 4
      with less.prems radix_nonempty[of b "m div b"] show ?thesis by (simp add: small large)
    qed
  qed
qed simp

lemma hex_number_inj: "hex_number m = hex_number n \<longleftrightarrow> m = n"
  by (simp add: radix_inj)

text \<open>All sockets of a process, with the number of identifiers that have been given out.\<close>

record hub =
  hub_counter :: u64
  hub_sockets :: "socket list"

inductive hub_reach :: "socket_crates \<Rightarrow> nat \<Rightarrow> hub \<Rightarrow> bool" for cr where
  hub_start: "hub_reach cr 0 \<lparr>hub_counter = 1, hub_sockets = []\<rparr>"
| hub_upgrade: "hub_reach cr n hb \<Longrightarrow> hub_reach cr n (hb\<lparr>hub_sockets := hub_sockets hb @ [socket_new]\<rparr>)"
| hub_turn: "hub_reach cr n hb \<Longrightarrow> i < length (hub_sockets hb) \<Longrightarrow>
    socket_step cr ok so inp (hub_counter hb, hub_sockets hb ! i) = (counter, s) \<Longrightarrow>
    hub_reach cr (if counter = hub_counter hb then n else n + 1)
      (hb\<lparr>hub_counter := counter, hub_sockets := (hub_sockets hb)[i := s]\<rparr>)"

abbreviation sock_ids :: "socket \<Rightarrow> string set" where
  "sock_ids s \<equiv> dom (hm_get (sock_subs s))"

lemma notify_loop_subs: "sock_subs (notify_loop ok ev sks s) = sock_subs s"
  by (induction ok ev sks s rule: notify_loop.induct) (auto simp: Let_def socket_send_def split: option.splits)

text \<open>What a turn does to the subscriptions: nothing, one more under the identifier of the counter, or one less.\<close>

lemma socket_request_subs:
  assumes "socket_request cr counter subs request = (resp, counter', subs')"
  shows "(counter' = counter \<and> subs' = subs) \<or> (counter' = counter \<and> (\<exists>sid. subs' = hm_remove sid subs)) \<or>
    (counter' = (counter + 1) mod 2 ^ 64 \<and> (\<exists>kind. subs' = hm_insert (hex_number counter) kind subs))"
  using assms unfolding socket_request_def Let_def sub_add_def sub_remove_def
  by (auto split: if_splits option.splits)

lemma socket_step_subs:
  assumes "socket_step cr ok so inp (counter, s) = (counter', s')"
  shows "(counter' = counter \<and> sock_subs s' = sock_subs s) \<or> (counter' = counter \<and> (\<exists>sid. sock_subs s' = hm_remove sid (sock_subs s))) \<or>
    (counter' = (counter + 1) mod 2 ^ 64 \<and> (\<exists>kind. sock_subs s' = hm_insert (hex_number counter) kind (sock_subs s)))"
proof (cases "sock_open s")
  case False
  with assms show ?thesis by (simp add: socket_step_def)
next
  case True
  show ?thesis
  proof (cases inp)
    case (PeerText msg)
    show ?thesis
    proof (cases "json_of_text cr msg")
      case None
      with assms True PeerText show ?thesis by (simp add: socket_step_def)
    next
      case (Some request)
      obtain resp c subs where r: "socket_request cr counter (sock_subs s) request = (resp, c, subs)" by (metis prod_cases3)
      with assms True PeerText Some have "counter' = c" "sock_subs s' = subs"
        by (auto simp: socket_step_def Let_def socket_send_def split: if_splits)
      with socket_request_subs[OF r] show ?thesis by simp
    qed
  qed (use assms True in \<open>auto simp: socket_step_def notify_loop_subs\<close>)
qed

definition hub_ok :: "nat \<Rightarrow> hub \<Rightarrow> bool" where
  "hub_ok n hb \<longleftrightarrow> hub_counter hb = n + 1 \<and> (\<forall>s \<in> set (hub_sockets hb). hm_wf (sock_subs s) \<and> sock_ids s \<subseteq> hex_number ` {..n}) \<and>
     (\<forall>i < length (hub_sockets hb). \<forall>j < length (hub_sockets hb). i \<noteq> j \<longrightarrow>
        sock_ids (hub_sockets hb ! i) \<inter> sock_ids (hub_sockets hb ! j) = {})"

lemma hub_ok_update:
  assumes "hub_ok n hb" "i < length (hub_sockets hb)" "n \<le> m" "hm_wf (sock_subs s)" "sock_ids s \<subseteq> hex_number ` {..m}"
    "sock_ids s \<subseteq> sock_ids (hub_sockets hb ! i) \<union> hex_number ` {n<..}"
  shows "hub_ok m (hb\<lparr>hub_counter := m + 1, hub_sockets := (hub_sockets hb)[i := s]\<rparr>)"
proof -
  let ?xs = "hub_sockets hb"
  have old: "hm_wf (sock_subs x) \<and> sock_ids x \<subseteq> hex_number ` {..n}" if "x \<in> set ?xs" for x
    using assms(1) that unfolding hub_ok_def by blast
  have mono: "hex_number ` {..n} \<subseteq> hex_number ` {..m}" using assms(3) by (intro image_mono) auto
  have "hm_wf (sock_subs x) \<and> sock_ids x \<subseteq> hex_number ` {..m}" if "x \<in> set (?xs[i := s])" for x
  proof (cases "x = s")
    case False
    with that set_update_subset_insert[of ?xs i s] have "x \<in> set ?xs" by blast
    from old[OF this] mono show ?thesis by (meson order_trans)
  qed (use assms(4,5) in simp)
  moreover have disj: "sock_ids s \<inter> sock_ids (?xs ! j) = {}" if "j < length ?xs" "j \<noteq> i" for j
  proof -
    have "hex_number ` {n<..} \<inter> hex_number ` {..n} = {}" by (auto simp: radix_inj)
    moreover have "sock_ids (?xs ! j) \<subseteq> hex_number ` {..n}" using old that(1) by simp
    moreover have "sock_ids (?xs ! i) \<inter> sock_ids (?xs ! j) = {}" using assms(1,2) that unfolding hub_ok_def by blast
    moreover have "A \<subseteq> B \<union> G \<Longrightarrow> G \<inter> H = {} \<Longrightarrow> C \<subseteq> H \<Longrightarrow> B \<inter> C = {} \<Longrightarrow> A \<inter> C = {}" for A B C G H :: "string set" by blast
    ultimately show ?thesis using assms(6) by meson
  qed
  moreover have "sock_ids (?xs[i := s] ! a) \<inter> sock_ids (?xs[i := s] ! b) = {}"
    if ab: "a < length ?xs" "b < length ?xs" "a \<noteq> b" for a b
  proof -
    consider "a = i" "b \<noteq> i" | "b = i" "a \<noteq> i" | "a \<noteq> i" "b \<noteq> i" using ab(3) by blast
    then show ?thesis
    proof cases
      case 1
      then have "?xs[i := s] ! a = s" "?xs[i := s] ! b = ?xs ! b" using assms(2) by simp_all
      with disj[OF ab(2) 1(2)] show ?thesis by (simp only:)
    next
      case 2
      then have "?xs[i := s] ! b = s" "?xs[i := s] ! a = ?xs ! a" using assms(2) by simp_all
      with disj[OF ab(1) 2(2)] show ?thesis by (simp only: Int_commute)
    next
      case 3
      have "sock_ids (?xs ! a) \<inter> sock_ids (?xs ! b) = {}" using assms(1) ab unfolding hub_ok_def by blast
      moreover have "?xs[i := s] ! a = ?xs ! a" "?xs[i := s] ! b = ?xs ! b" using 3 by simp_all
      ultimately show ?thesis by (simp only:)
    qed
  qed
  ultimately show ?thesis unfolding hub_ok_def by simp
qed

lemma hub_reach_ok: "hub_reach cr n hb \<Longrightarrow> n + 1 < 2 ^ 64 \<Longrightarrow> hub_ok n hb"
proof (induction rule: hub_reach.induct)
  case hub_start
  then show ?case by (simp add: hub_ok_def)
next
  case (hub_upgrade n hb)
  then have "hub_ok n hb" by simp
  moreover have "sock_ids socket_new = {}" by (simp add: socket_new_def)
  ultimately show ?case unfolding hub_ok_def by (auto simp: nth_append socket_new_def less_Suc_eq)
next
  case (hub_turn n hb i ok so inp counter s)
  let ?old = "hub_sockets hb ! i"
  have n: "n + 1 < 2 ^ 64" using hub_turn.prems by (auto split: if_splits)
  then have ok: "hub_ok n hb" using hub_turn.IH by blast
  then have c: "hub_counter hb = n + 1" and wf: "hm_wf (sock_subs ?old)" and ids: "sock_ids ?old \<subseteq> hex_number ` {..n}"
    using hub_turn.hyps(2) by (simp_all add: hub_ok_def)
  note update = hub_ok_update[OF ok hub_turn.hyps(2), of _ s]
  from socket_step_subs[OF hub_turn.hyps(3)] show ?case
  proof (elim disjE conjE exE)
    assume k: "counter = hub_counter hb" "sock_subs s = sock_subs ?old"
    with update[of n] wf ids c show ?thesis by simp
  next
    fix sid assume k: "counter = hub_counter hb" "sock_subs s = hm_remove sid (sock_subs ?old)"
    then have "sock_ids s \<subseteq> sock_ids ?old" "hm_wf (sock_subs s)" using wf by (auto split: if_splits)
    with update[of n] ids c k(1) show ?thesis by (simp add: le_supI1 subset_trans)
  next
    fix kind assume k: "counter = (hub_counter hb + 1) mod 2 ^ 64"
      "sock_subs s = hm_insert (hex_number (hub_counter hb)) kind (sock_subs ?old)"
    have "counter \<noteq> hub_counter hb" using n c k(1) by (cases "n + 2 = 2 ^ 64") simp_all
    with hub_turn.prems have "n + 2 < 2 ^ 64" by simp
    with k(1) c have counter: "counter = n + 2" by simp
    define X where "X = hex_number (n + 1)"
    have wf': "hm_wf (sock_subs s)" and sub: "sock_ids s \<subseteq> insert X (sock_ids ?old)"
      using k(2) c wf by (auto simp: X_def split: if_splits)
    have X: "X \<in> hex_number ` {n<..}" "X \<in> hex_number ` {..n + 1}" unfolding X_def by (rule imageI, simp)+
    have "sock_ids s \<subseteq> sock_ids ?old \<union> hex_number ` {n<..}" using sub X(1) by blast
    moreover have "hex_number ` {..n} \<subseteq> hex_number ` {..n + 1}" by (intro image_mono) auto
    then have "sock_ids s \<subseteq> hex_number ` {..n + 1}" using sub X(2) ids by blast
    ultimately have "hub_ok (n + 1) (hb\<lparr>hub_counter := n + 1 + 1, hub_sockets := (hub_sockets hb)[i := s]\<rparr>)"
      using wf' by (intro update) simp_all
    with \<open>counter \<noteq> hub_counter hb\<close> counter show ?thesis by simp
  qed
qed

section \<open>Events of a block\<close>

lemma mine_transactions_events:
  assumes "mine_transactions n h c bh xs rs = Done (err, rs')"
  shows "\<exists>logs. rpc_events rs' = rpc_events rs @ map LogEvent logs"
  using assms
proof (induction xs arbitrary: rs)
  case (Cons x xs)
  from Cons.prems obtain r st where a: "apply_signed_transaction n h (rpc_fork rs) (ptx_tx x) = Done (r, st)"
    by (auto simp: obind_Done_iff)
  show ?case
  proof (cases r)
    case (Inl e)
    with Cons.prems a show ?thesis by (auto intro: exI[of _ "[]"])
  next
    case (Inr receipt)
    define events where "events = map (\<lambda>(i, l). log_event c bh (rpc_block_number rs) (stx_hash (ptx_tx x)) i l) (enumerate 0 (rcpt_logs receipt))"
    have "\<exists>logs. events = map LogEvent logs"
      unfolding events_def log_event_def by (intro ex_map_conv[THEN iffD2]) auto
    moreover have "mine_transactions n h c bh xs (rs\<lparr>rpc_events := rpc_events rs @ events,
        rpc_receipts := hm_insert (stx_hash (ptx_tx x)) receipt (rpc_receipts rs), rpc_fork := clear_transient_storage st\<rparr>) = Done (err, rs')"
      using Cons.prems a Inr by (simp add: events_def)
    from Cons.IH[OF this] obtain logs where "rpc_events rs' = (rpc_events rs @ events) @ map LogEvent logs" by auto
    ultimately show ?thesis by (metis append.assoc map_append)
  qed
qed (auto intro: exI[of _ "[]"])

text \<open>A subscription is told of the events in which it is interested, and of them only.\<close>

lemma notification_json_inj: "notification_json a r = notification_json b r' \<longleftrightarrow> a = b \<and> r = r'"
  by (simp add: notification_json_def)

lemma notifications_of:
  assumes "distinct (map fst sks)" "(sid, kind) \<in> set sks"
  shows "filter (\<lambda>m. \<exists>r. m = notification_json sid r) (notifications ev sks) =
    (case notification kind ev of None \<Rightarrow> [] | Some r \<Rightarrow> [notification_json sid r])"
  using assms
proof (induction sks)
  case (Cons sk sks)
  have none: "filter (\<lambda>m. \<exists>r. m = notification_json sid r) (notifications ev ts) = []" if "sid \<notin> set (map fst ts)" for ts
    using that by (induction ts) (auto simp: notification_json_inj split: option.splits)
  show ?case
  proof (cases "sk = (sid, kind)")
    case True
    with Cons.prems none[of sks] show ?thesis by (auto split: option.splits)
  next
    case False
    with Cons.prems have "fst sk \<noteq> sid" by (auto simp: image_iff)
    with Cons False show ?thesis by (auto simp: notification_json_inj split: option.splits)
  qed
qed simp

section \<open>A concrete subscription\<close>

definition sample_socket_crates :: socket_crates where
  "sample_socket_crates = \<lparr>json_of_text = (\<lambda>_. Some (JObject [(''method'', JString ''eth_subscribe''), (''params'', JArray [JString ''newHeads''])])),
     log_filter_of_json = (\<lambda>_. None)\<rparr>"

lemma sample_subscribe:
  "socket_step sample_socket_crates (\<lambda>_. True) (\<lambda>subs. subs) (PeerText []) (c, socket_new) =
     ((c + 1) mod 2 ^ 64, snd (socket_step sample_socket_crates (\<lambda>_. True) (\<lambda>subs. subs) (PeerText []) (c, socket_new)))"
  "sock_subs (snd (socket_step sample_socket_crates (\<lambda>_. True) (\<lambda>subs. subs) (PeerText []) (c, socket_new))) = [(hex_number c, NewHeads)]"
  by (simp_all add: socket_step_def socket_new_def sample_socket_crates_def socket_request_def json_get_def as_str_def as_array_def
      subscription_of_def first_of_def sub_add_def Let_def socket_send_def)

end
