(* ===== verification/EvmNode.thy ===== *)
theory EvmNode
  imports EvmSocket EvmFuzzer
begin

text \<open>
  The node: the server state, the routes of \<open>app\<close> (\<open>src/rpc/server.rs\<close>), the process that \<open>src/bin/mini-evm-rpc.rs\<close>
  starts, and the sockets with their receivers of the broadcast channel.  A step is one HTTP request, one message of the peer of
  a socket, or one \<open>recv\<close> of a socket; steps of different clients interleave.  The channel itself is the crate \<open>tokio\<close>: \<open>recv\<close>
  is a parameter, \<open>broadcast_ok\<close> what its documentation promises.  A request that panics is not a step.
\<close>

section \<open>Requests and routes\<close>

datatype http_method = GET | POST | OTHER

datatype endpoint = RpcEndpoint | WsUpgrade | FuzzEndpoint

definition app :: "(string \<times> http_method \<times> endpoint) list" where
  "app = [(''/'', POST, RpcEndpoint), (''/ws'', GET, WsUpgrade), (''/v1/fuzz'', POST, FuzzEndpoint)]"

definition route :: "http_method \<Rightarrow> string \<Rightarrow> endpoint option" where
  "route m path = (case map_of app path of
     None \<Rightarrow> None
   | Some (m', ep) \<Rightarrow> if m = m' then Some ep else None)"

record json_rpc_request =
  rq_jsonrpc :: string
  rq_method :: string
  rq_params :: json
  rq_id :: json

text \<open>The extractors of \<open>axum\<close>: bodies as the arguments of the endpoints, and whether a request is a WebSocket handshake.\<close>

record http_crates =
  rpc_body :: "string \<Rightarrow> json_rpc_request option"
  fuzz_body :: "string \<Rightarrow> fuzz_request option"
  ws_handshake :: "string \<Rightarrow> bool"

datatype http_response =
    RpcAnswer json_rpc_response
  | FuzzAnswer nat fuzz_report
  | SwitchingProtocols
  | Rejected

section \<open>The node\<close>

text \<open>\<open>nd_cursors\<close> holds, for the receiver of each socket, the position in the sequence of published events of the next one it
  will look at.\<close>

record rpc_node =
  nd_rpc :: rpc_state
  nd_hub :: hub
  nd_cursors :: "nat list"

abbreviation nd_events :: "rpc_node \<Rightarrow> evm_event list" where
  "nd_events nd \<equiv> rpc_events (nd_rpc nd)"

abbreviation nd_sockets :: "rpc_node \<Rightarrow> socket list" where
  "nd_sockets nd \<equiv> hub_sockets (nd_hub nd)"

definition node_new :: "state_fork \<Rightarrow> rpc_node" where
  "node_new st = \<lparr>nd_rpc = rpc_state_new st, nd_hub = \<lparr>hub_counter = 1, hub_sockets = []\<rparr>, nd_cursors = []\<rparr>"

definition rpc_main :: rpc_node where
  "rpc_main = node_new default_fork"

text \<open>The upgrade answers the request and, in the callback of the upgraded connection, subscribes to the events; the two are one
  step here, so that a socket's receiver starts at the events published so far.\<close>

definition ws_upgrade :: "rpc_node \<Rightarrow> rpc_node" where
  "ws_upgrade nd = nd\<lparr>nd_hub := (nd_hub nd)\<lparr>hub_sockets := nd_sockets nd @ [socket_new]\<rparr>,
     nd_cursors := nd_cursors nd @ [length (nd_events nd)]\<rparr>"

definition http_request ::
    "nat \<Rightarrow> host \<Rightarrow> walk_orders \<Rightarrow> text_crates \<Rightarrow> tx_crates \<Rightarrow> search \<Rightarrow> string \<Rightarrow> http_crates \<Rightarrow> http_method \<Rightarrow> string \<Rightarrow> string
     \<Rightarrow> rpc_node \<Rightarrow> (http_response \<times> rpc_node) outcome" where
  "http_request n h wo c tc fa join hc m path body nd =
     (case route m path of
        None \<Rightarrow> Done (Rejected, nd)
      | Some RpcEndpoint \<Rightarrow>
          (case rpc_body hc body of
             None \<Rightarrow> Done (Rejected, nd)
           | Some req \<Rightarrow>
               obind (rpc_endpoint n h wo c tc (nd_rpc nd) (rq_method req) (rq_params req) (rq_id req)) (\<lambda>r.
               Done (RpcAnswer (fst r), nd\<lparr>nd_rpc := snd r\<rparr>)))
      | Some FuzzEndpoint \<Rightarrow>
          (case fuzz_body hc body of
             None \<Rightarrow> Done (Rejected, nd)
           | Some req \<Rightarrow>
               obind (fuzz_endpoint n h c fa join (nd_rpc nd) req) (\<lambda>r. Done (FuzzAnswer (fst r) (snd r), nd)))
      | Some WsUpgrade \<Rightarrow>
          if ws_handshake hc body then Done (SwitchingProtocols, ws_upgrade nd) else Done (Rejected, nd))"

text \<open>A turn of the loop of socket \<open>i\<close>, on a message of its peer or on what its receiver yields.\<close>

definition socket_turn ::
    "socket_crates \<Rightarrow> (nat \<Rightarrow> bool) \<Rightarrow> (active_subscriptions \<Rightarrow> active_subscriptions) \<Rightarrow> nat \<Rightarrow> socket_input \<Rightarrow> rpc_node \<Rightarrow> rpc_node" where
  "socket_turn cr ok so i inp nd =
     (let cs = socket_step cr ok so inp (hub_counter (nd_hub nd), nd_sockets nd ! i)
      in nd\<lparr>nd_hub := (nd_hub nd)\<lparr>hub_counter := fst cs, hub_sockets := (nd_sockets nd)[i := snd cs]\<rparr>\<rparr>)"

type_synonym receiver = "evm_event list \<Rightarrow> nat \<Rightarrow> (socket_input \<times> nat) option"

definition event_turn ::
    "socket_crates \<Rightarrow> (nat \<Rightarrow> bool) \<Rightarrow> (active_subscriptions \<Rightarrow> active_subscriptions) \<Rightarrow> receiver \<Rightarrow> nat \<Rightarrow> rpc_node \<Rightarrow> rpc_node" where
  "event_turn cr ok so recv i nd =
     (case recv (nd_events nd) (nd_cursors nd ! i) of
        None \<Rightarrow> nd
      | Some (inp, k) \<Rightarrow> (socket_turn cr ok so i inp nd)\<lparr>nd_cursors := (nd_cursors nd)[i := k]\<rparr>)"

text \<open>
  \<open>broadcast::channel(1024)\<close>: a receiver is given the events one by one in the order in which they were sent; only when it is
  more than 1024 events behind it is told that it has lagged, and goes on at a later event.  The channel is not closed while the
  server runs, because the state of the server holds the sender.
\<close>

definition broadcast_ok :: "receiver \<Rightarrow> bool" where
  "broadcast_ok recv \<longleftrightarrow> (\<forall>evs k. k \<le> length evs \<longrightarrow>
     (case recv evs k of
        None \<Rightarrow> k = length evs
      | Some (inp, k') \<Rightarrow>
          k < length evs \<and> inp = BroadcastEvent (evs ! k) \<and> k' = k + 1 \<or>
          k + 1024 < length evs \<and> inp = BroadcastLagged \<and> k < k' \<and> k' \<le> length evs))"

definition walk_ok :: "(active_subscriptions \<Rightarrow> active_subscriptions) \<Rightarrow> bool" where
  "walk_ok so \<longleftrightarrow> (\<forall>subs. hm_wf subs \<longrightarrow> set (so subs) = set subs \<and> distinct (map fst (so subs)))"

inductive node_step ::
    "host \<Rightarrow> text_crates \<Rightarrow> tx_crates \<Rightarrow> http_crates \<Rightarrow> socket_crates \<Rightarrow> receiver \<Rightarrow> rpc_node \<Rightarrow> rpc_node \<Rightarrow> bool"
  for h c tc hc cr recv where
  step_http: "http_request n h wo c tc fa join hc m path body nd = Done (resp, nd') \<Longrightarrow> orders_ok wo \<Longrightarrow>
    node_step h c tc hc cr recv nd nd'"
| step_peer: "i < length (nd_sockets nd) \<Longrightarrow> inp = PeerText msg \<or> inp = PeerGone \<Longrightarrow>
    node_step h c tc hc cr recv nd (socket_turn cr ok so i inp nd)"
| step_event: "i < length (nd_sockets nd) \<Longrightarrow> walk_ok so \<Longrightarrow> sock_open (nd_sockets nd ! i) \<Longrightarrow>
    node_step h c tc hc cr recv nd (event_turn cr ok so recv i nd)"

text \<open>Runs, with the number of their steps.\<close>

inductive node_run ::
    "host \<Rightarrow> text_crates \<Rightarrow> tx_crates \<Rightarrow> http_crates \<Rightarrow> socket_crates \<Rightarrow> receiver \<Rightarrow> nat \<Rightarrow> rpc_node \<Rightarrow> rpc_node \<Rightarrow> bool"
  for h c tc hc cr recv where
  run_refl: "node_run h c tc hc cr recv 0 nd nd"
| run_snoc: "node_run h c tc hc cr recv k nd nd1 \<Longrightarrow> node_step h c tc hc cr recv nd1 nd2 \<Longrightarrow>
    node_run h c tc hc cr recv (Suc k) nd nd2"

lemmas node_intros = node_step.intros node_run.intros

inductive_cases node_run_SucE: "node_run h c tc hc cr recv (Suc k) nd nd'"
inductive_cases node_run_0E: "node_run h c tc hc cr recv 0 nd nd'"

text \<open>What a step is, with the endpoints and the receiver resolved.\<close>

lemma http_request_cases:
  assumes "http_request n h wo c tc fa join hc m path body nd = Done (resp, nd')"
  obtains "nd' = nd" | "nd' = ws_upgrade nd"
  | rm params rid r rs where "rpc_endpoint n h wo c tc (nd_rpc nd) rm params rid = Done (r, rs)" "nd' = nd\<lparr>nd_rpc := rs\<rparr>"
proof (cases "route m path")
  case None
  with assms that(1) show ?thesis by (simp add: http_request_def)
next
  case (Some ep)
  note run = assms[unfolded http_request_def Some option.case]
  show ?thesis
  proof (cases ep)
    case RpcEndpoint
    note run = run[unfolded RpcEndpoint endpoint.case]
    show ?thesis
    proof (cases "rpc_body hc body")
      case None
      with run that(1) show ?thesis by simp
    next
      case (Some req)
      with run obtain r where "rpc_endpoint n h wo c tc (nd_rpc nd) (rq_method req) (rq_params req) (rq_id req) = Done r"
        "nd' = nd\<lparr>nd_rpc := snd r\<rparr>" by (auto simp: obind_Done_iff)
      with that(3) show ?thesis by (cases r) simp
    qed
  next
    case WsUpgrade
    with run that(1,2) show ?thesis by (auto split: if_splits)
  next
    case FuzzEndpoint
    with run that(1) show ?thesis by (cases "fuzz_body hc body") (auto simp: obind_Done_iff)
  qed
qed

section \<open>Events that requests publish\<close>

definition headless :: "evm_event list \<Rightarrow> bool" where
  "headless evs \<longleftrightarrow> (\<forall>head. NewHead head \<notin> set evs)"

lemma headless_simps [simp]:
  "headless []" "headless (xs @ ys) \<longleftrightarrow> headless xs \<and> headless ys" "headless (map LogEvent ls)"
  "headless (PendingTxEvent t # xs) \<longleftrightarrow> headless xs" "headless (LogEvent l # xs) \<longleftrightarrow> headless xs"
  by (auto simp: headless_def)

text \<open>A request publishes events of logs and pending transactions, and at the end at most one new head, which has the number that
  the block counter then has.\<close>

definition announces :: "rpc_state \<Rightarrow> rpc_state \<Rightarrow> bool" where
  "announces rs rs' \<longleftrightarrow> (\<exists>pre. headless pre \<and>
     (rpc_events rs' = rpc_events rs @ pre \<and> rpc_block_number rs' \<in> {rpc_block_number rs, saturating_add (rpc_block_number rs) 1} \<or>
      (\<exists>head. rpc_events rs' = rpc_events rs @ pre @ [NewHead head] \<and> hd_number head = hex_number (rpc_block_number rs') \<and>
         rpc_block_number rs' = saturating_add (rpc_block_number rs) 1)))"

lemma announces_refl: "announces rs rs"
  unfolding announces_def by (intro exI[of _ "[]"]) simp

lemma announces_quiet:
  "headless pre \<Longrightarrow> rpc_events rs' = rpc_events rs @ pre \<Longrightarrow> rpc_block_number rs' = rpc_block_number rs \<Longrightarrow> announces rs rs'"
  unfolding announces_def by auto

lemma announces_before:
  assumes "announces rs1 rs'" "headless pre" "rpc_events rs1 = rpc_events rs @ pre" "rpc_block_number rs1 = rpc_block_number rs"
  shows "announces rs rs'"
proof -
  from assms(1) obtain mid where "headless mid"
    "rpc_events rs' = rpc_events rs1 @ mid \<and> rpc_block_number rs' \<in> {rpc_block_number rs1, saturating_add (rpc_block_number rs1) 1} \<or>
      (\<exists>head. rpc_events rs' = rpc_events rs1 @ mid @ [NewHead head] \<and> hd_number head = hex_number (rpc_block_number rs') \<and>
         rpc_block_number rs' = saturating_add (rpc_block_number rs1) 1)"
    unfolding announces_def by blast
  then show ?thesis using assms(2-4) unfolding announces_def by (intro exI[of _ "pre @ mid"]) auto
qed

lemma mine_block_announces:
  assumes "mine_block n h wo c rs = Done (r, rs')"
  shows "announces rs rs'"
  using assms
proof (cases rule: mine_block_cases)
  case (1 xs pool' err)
  from mine_transactions_events[OF 1(2)] mine_transactions_keeps[OF 1(2)] obtain logs where
    "rpc_events rs' = rpc_events rs @ map LogEvent logs" "rpc_block_number rs' = saturating_add (rpc_block_number rs) 1"
    by (auto simp: numbered_facts)
  then show ?thesis unfolding announces_def by (intro exI[of _ "map LogEvent logs"]) simp
next
  case (2 xs pool' rs1 root)
  from mine_transactions_events[OF 2(2)] mine_transactions_keeps[OF 2(2)] obtain logs where
    "rpc_events rs1 = rpc_events rs @ map LogEvent logs" "rpc_block_number rs1 = saturating_add (rpc_block_number rs) 1"
    by (auto simp: numbered_facts)
  with 2(5) show ?thesis unfolding announces_def by (intro exI[of _ "map LogEvent logs"]) (simp add: head_event_def Let_def)
qed

lemma submit_announces:
  assumes "submit_transaction n h wo c rs bs tx = Done (r, rs')"
  shows "announces rs rs'"
proof -
  obtain res pool where ins: "pool_insert (rpc_tx_pool rs) (stx_sender tx) tx bs = (res, pool)"
    by (cases "pool_insert (rpc_tx_pool rs) (stx_sender tx) tx bs")
  let ?rs1 = "rs\<lparr>rpc_tx_pool := pool, rpc_events := rpc_events rs @ [PendingTxEvent (hex_string c (stx_hash tx))]\<rparr>"
  from assms consider "rs' = rs" | "rs' = rs\<lparr>rpc_tx_pool := pool\<rparr>" | "rs' = ?rs1" | x where "mine_block n h wo c ?rs1 = Done (x, rs')"
    unfolding submit_transaction_def Let_def ins fst_conv snd_conv
    by (cases res) (auto simp: obind_Done_iff split: if_splits)
  then show ?thesis
  proof cases
    case 4
    show ?thesis by (rule announces_before[OF mine_block_announces[OF 4]]) simp_all
  next
    case 3
    show ?thesis unfolding 3 by (rule announces_quiet[of "[PendingTxEvent (hex_string c (stx_hash tx))]"]) simp_all
  next
    case 2
    show ?thesis unfolding 2 by (rule announces_quiet[of "[]"]) simp_all
  qed (simp add: announces_refl)
qed

lemma send_raw_announces:
  assumes "handle_eth_send_raw_transaction n h wo c tc rs params = Done (r, rs')"
  shows "announces rs rs'"
proof (cases rule: send_raw_cases[of h wo c tc rs params])
  case (1 err)
  with assms announces_refl show ?thesis by simp
next
  case (2 bs)
  from assms[unfolded 2] obtain d where d: "decode_raw_tx tc bs = Done d" unfolding obind_Done_iff by blast
  show ?thesis
  proof (cases d)
    case (Inl e)
    with assms[unfolded 2] d announces_refl show ?thesis by simp
  next
    case (Inr tx)
    with assms[unfolded 2] d show ?thesis by (intro submit_announces[of n h wo c rs bs tx r]) simp
  qed
qed

lemma endpoint_announces:
  "rpc_endpoint n h wo c tc rs m params req_id = Done (resp, rs') \<Longrightarrow> announces rs rs'"
  using endpoint_state announces_refl send_raw_announces mine_block_announces by metis

text \<open>The heads that have been published carry ascending numbers.\<close>

definition head_before :: "evm_event \<Rightarrow> evm_event \<Rightarrow> bool" where
  "head_before a b \<longleftrightarrow> (\<forall>x y. a = NewHead x \<longrightarrow> b = NewHead y \<longrightarrow>
     (\<exists>m n. m < n \<and> hd_number x = hex_number m \<and> hd_number y = hex_number n))"

definition heads_ok :: "rpc_state \<Rightarrow> bool" where
  "heads_ok rs \<longleftrightarrow> rpc_block_number rs \<le> U64_MAX \<and> (rpc_block_number rs < U64_MAX \<longrightarrow>
     sorted_wrt head_before (rpc_events rs) \<and>
     (\<forall>x. NewHead x \<in> set (rpc_events rs) \<longrightarrow> (\<exists>m \<le> rpc_block_number rs. hd_number x = hex_number m)))"

lemma headless_sorted:
  assumes "headless pre"
  shows "sorted_wrt head_before (evs @ pre) \<longleftrightarrow> sorted_wrt head_before evs" "sorted_wrt head_before pre"
proof -
  have *: "head_before a b" if "b \<in> set pre \<or> a \<in> set pre" for a b using assms that unfolding headless_def head_before_def by blast
  then show pre: "sorted_wrt head_before pre" by (simp add: sorted_wrt_iff_nth_less)
  show "sorted_wrt head_before (evs @ pre) \<longleftrightarrow> sorted_wrt head_before evs" using * pre unfolding sorted_wrt_append by blast
qed

lemma heads_ok_announces:
  assumes "heads_ok rs" "announces rs rs'"
  shows "heads_ok rs'"
proof -
  let ?b = "rpc_block_number rs"
  have b: "?b \<le> saturating_add ?b 1" "saturating_add ?b 1 \<le> U64_MAX" "saturating_add ?b 1 < U64_MAX \<Longrightarrow> ?b < saturating_add ?b 1"
    using assms(1) by (auto simp: heads_ok_def saturating_add_def)
  from assms(2) obtain pre where pre: "headless pre" and
    cases: "rpc_events rs' = rpc_events rs @ pre \<and> rpc_block_number rs' \<in> {?b, saturating_add ?b 1} \<or>
      (\<exists>head. rpc_events rs' = rpc_events rs @ pre @ [NewHead head] \<and> hd_number head = hex_number (rpc_block_number rs') \<and>
         rpc_block_number rs' = saturating_add ?b 1)" unfolding announces_def by blast
  have old: "NewHead x \<in> set (rpc_events rs @ pre) \<longleftrightarrow> NewHead x \<in> set (rpc_events rs)" for x
    using pre by (auto simp: headless_def)
  note sorted = headless_sorted(1)[OF pre, of "rpc_events rs"]
  from cases show ?thesis
  proof (elim disjE conjE exE)
    assume e: "rpc_events rs' = rpc_events rs @ pre" and n: "rpc_block_number rs' \<in> {?b, saturating_add ?b 1}"
    from n b(1,2) assms(1) have "?b \<le> rpc_block_number rs'" "rpc_block_number rs' \<le> U64_MAX" by (auto simp: heads_ok_def)
    with assms(1) show ?thesis unfolding heads_ok_def e sorted old by (meson le_less_trans order_trans)
  next
    fix head assume e: "rpc_events rs' = rpc_events rs @ pre @ [NewHead head]"
      and n: "hd_number head = hex_number (rpc_block_number rs')" "rpc_block_number rs' = saturating_add ?b 1"
    show ?thesis unfolding heads_ok_def
    proof (intro conjI impI allI)
      assume lt: "rpc_block_number rs' < U64_MAX"
      with b n(2) have "?b < rpc_block_number rs'" "?b < U64_MAX" by simp_all
      with assms(1) have ok: "sorted_wrt head_before (rpc_events rs)"
        "\<And>x. NewHead x \<in> set (rpc_events rs) \<Longrightarrow> \<exists>m < rpc_block_number rs'. hd_number x = hex_number m"
        unfolding heads_ok_def by (auto intro: le_less_trans)
      have "head_before a (NewHead head)" if "a \<in> set (rpc_events rs @ pre)" for a
        unfolding head_before_def using ok(2) old that n(1) by blast
      with ok(1) sorted show "sorted_wrt head_before (rpc_events rs')" unfolding e
        by (subst append_assoc[symmetric], subst sorted_wrt_append) simp
      show "\<exists>m \<le> rpc_block_number rs'. hd_number x = hex_number m" if "NewHead x \<in> set (rpc_events rs')" for x
        using that ok(2)[of x] old[of x] n(1) unfolding e by (auto intro: less_imp_le)
    qed (use b n in simp)
  qed
qed

section \<open>Well-formed nodes\<close>

definition node_wf :: "rpc_node \<Rightarrow> bool" where
  "node_wf nd \<longleftrightarrow> length (nd_cursors nd) = length (nd_sockets nd) \<and> (\<forall>k \<in> set (nd_cursors nd). k \<le> length (nd_events nd)) \<and>
     (\<forall>s \<in> set (nd_sockets nd). hm_wf (sock_subs s))"

lemma node_wf_new: "node_wf (node_new st)"
  by (simp add: node_wf_def node_new_def)

lemma node_wf_socket:
  assumes "node_wf nd" "i < length (nd_sockets nd)"
  shows "hm_wf (sock_subs (nd_sockets nd ! i))" "i < length (nd_cursors nd)" "nd_cursors nd ! i \<le> length (nd_events nd)"
  using assms by (simp_all add: node_wf_def)

lemma socket_step_wf:
  assumes "hm_wf (sock_subs s)" shows "hm_wf (sock_subs (snd (socket_step cr ok so inp (counter, s))))"
proof -
  obtain counter' s' where step: "socket_step cr ok so inp (counter, s) = (counter', s')" by fastforce
  from socket_step_subs[OF step] assms show ?thesis unfolding step by auto
qed

lemma set_update_cases: "x \<in> set (xs[i := y]) \<Longrightarrow> x = y \<or> x \<in> set xs"
  using set_update_subset_insert[of xs i y] by blast

lemma socket_turn_facts [simp]:
  "nd_rpc (socket_turn cr ok so i inp nd) = nd_rpc nd" "nd_cursors (socket_turn cr ok so i inp nd) = nd_cursors nd"
  "length (nd_sockets (socket_turn cr ok so i inp nd)) = length (nd_sockets nd)"
  by (simp_all add: socket_turn_def Let_def)

lemma socket_turn_at:
  "i < length (nd_sockets nd) \<Longrightarrow> nd_sockets (socket_turn cr ok so i inp nd) ! j =
     (if j = i then snd (socket_step cr ok so inp (hub_counter (nd_hub nd), nd_sockets nd ! i)) else nd_sockets nd ! j)"
  by (simp add: socket_turn_def Let_def)

lemma socket_turn_wf:
  assumes "node_wf nd" "i < length (nd_sockets nd)" shows "node_wf (socket_turn cr ok so i inp nd)"
proof -
  have "hm_wf (sock_subs s)" if "s \<in> set (nd_sockets (socket_turn cr ok so i inp nd))" for s
    using that assms(1) socket_step_wf[OF node_wf_socket(1)[OF assms]]
    by (auto simp: socket_turn_def Let_def node_wf_def dest!: set_update_cases)
  with assms(1) show ?thesis by (simp add: node_wf_def)
qed

text \<open>What the receiver of a socket yields.\<close>

lemma receive_cases:
  assumes "broadcast_ok recv" "k \<le> length evs"
  obtains "recv evs k = None" "k = length evs"
  | "recv evs k = Some (BroadcastEvent (evs ! k), k + 1)" "k < length evs"
  | k' where "recv evs k = Some (BroadcastLagged, k')" "k + 1024 < length evs" "k < k'" "k' \<le> length evs"
  using assms unfolding broadcast_ok_def by (cases "recv evs k") (fastforce split: prod.splits)+

lemma lagged_turn: "i < length (nd_sockets nd) \<Longrightarrow> socket_turn cr ok so i BroadcastLagged nd = nd"
  by (simp add: socket_turn_def socket_step_def Let_def)

text \<open>A step is a request to the server, a new socket, a turn for a message, an event, or a lag; or nothing happens.\<close>

lemma node_step_cases:
  assumes "node_step h c tc hc cr recv nd nd'" "broadcast_ok recv" "node_wf nd"
  obtains (idle) "nd' = nd"
  | (request) n wo m params rid r rs where "rpc_endpoint n h wo c tc (nd_rpc nd) m params rid = Done (r, rs)" "orders_ok wo"
      "nd' = nd\<lparr>nd_rpc := rs\<rparr>"
  | (upgrade) "nd' = ws_upgrade nd"
  | (peer) i ok so inp msg where "i < length (nd_sockets nd)" "inp = PeerText msg \<or> inp = PeerGone" "nd' = socket_turn cr ok so i inp nd"
  | (event) i ok so where "i < length (nd_sockets nd)" "walk_ok so" "sock_open (nd_sockets nd ! i)"
      "nd_cursors nd ! i < length (nd_events nd)"
      "nd' = (socket_turn cr ok so i (BroadcastEvent (nd_events nd ! (nd_cursors nd ! i))) nd)\<lparr>
        nd_cursors := (nd_cursors nd)[i := nd_cursors nd ! i + 1]\<rparr>"
  | (lagged) i k where "i < length (nd_sockets nd)" "nd_cursors nd ! i + 1024 < length (nd_events nd)"
      "nd_cursors nd ! i < k" "k \<le> length (nd_events nd)" "nd' = nd\<lparr>nd_cursors := (nd_cursors nd)[i := k]\<rparr>"
  using assms(1)
proof cases
  case (step_http n wo fa join m path body resp)
  from step_http(1) show ?thesis
  proof (cases rule: http_request_cases)
    case 1
    then show ?thesis by (rule idle)
  next
    case 2
    then show ?thesis by (rule upgrade)
  next
    case (3 rm params rid r rs)
    then show ?thesis using step_http(2) by (intro request)
  qed
next
  case (step_peer i inp msg ok so)
  then show ?thesis by (intro peer)
next
  case (step_event i so ok)
  show ?thesis
  proof (cases rule: receive_cases[OF assms(2) node_wf_socket(3)[OF assms(3) step_event(2)]])
    case 1
    with step_event show ?thesis by (intro idle) (simp add: event_turn_def)
  next
    case 2
    with step_event show ?thesis by (intro event) (simp_all add: event_turn_def)
  next
    case (3 k)
    with step_event show ?thesis by (intro lagged[of i k]) (simp_all add: event_turn_def lagged_turn)
  qed
qed

lemma announces_events: "announces rs rs' \<Longrightarrow> \<exists>new. rpc_events rs' = rpc_events rs @ new"
  unfolding announces_def by blast

lemma node_step_events:
  assumes "node_step h c tc hc cr recv nd nd'" "broadcast_ok recv" "node_wf nd"
  shows "\<exists>new. nd_events nd' = nd_events nd @ new"
  using assms
proof (cases rule: node_step_cases)
  case (request n wo m params rid r rs)
  then show ?thesis using announces_events[OF endpoint_announces] by simp
qed (simp_all add: ws_upgrade_def)

lemma node_step_wf:
  assumes "node_step h c tc hc cr recv nd nd'" "broadcast_ok recv" "node_wf nd"
  shows "node_wf nd'"
  using assms
proof (cases rule: node_step_cases)
  case (request n wo m params rid r rs)
  then obtain new where "rpc_events rs = nd_events nd @ new" using announces_events[OF endpoint_announces] by blast
  with request(3) assms(3) show ?thesis by (auto simp: node_wf_def)
next
  case upgrade
  with assms(3) show ?thesis by (auto simp: node_wf_def ws_upgrade_def socket_new_def)
next
  case (peer i ok so inp msg)
  then show ?thesis by (simp add: socket_turn_wf[OF assms(3)])
next
  case (event i ok so)
  then show ?thesis using socket_turn_wf[OF assms(3) event(1)]
    by (auto simp: node_wf_def dest!: set_update_cases)
next
  case (lagged i k)
  with assms(3) show ?thesis by (auto simp: node_wf_def dest!: set_update_cases)
qed (use assms(3) in simp)

text \<open>The server part of a run is a sequence of requests, its sockets are a run of the hub with at most as many identifiers as
  there were steps, and the published heads ascend.\<close>

definition node_inv :: "host \<Rightarrow> text_crates \<Rightarrow> tx_crates \<Rightarrow> socket_crates \<Rightarrow> state_fork \<Rightarrow> nat \<Rightarrow> rpc_node \<Rightarrow> bool" where
  "node_inv h c tc cr st k nd \<longleftrightarrow> node_wf nd \<and> serves h c tc (rpc_state_new st) (nd_rpc nd) \<and>
     (\<exists>n \<le> k. hub_reach cr n (nd_hub nd)) \<and> heads_ok (nd_rpc nd)"

lemma node_inv_new: "node_inv h c tc cr st 0 (node_new st)"
proof -
  have "hub_reach cr 0 (nd_hub (node_new st))" using hub_start by (simp add: node_new_def)
  moreover have "serves h c tc (rpc_state_new st) (nd_rpc (node_new st))" by (simp add: node_new_def serves_start)
  moreover have "heads_ok (nd_rpc (node_new st))" by (simp add: node_new_def rpc_state_new_def heads_ok_def)
  ultimately show ?thesis using node_wf_new by (auto simp: node_inv_def)
qed

lemma hub_of_turn:
  assumes "hub_reach cr n (nd_hub nd)" "i < length (nd_sockets nd)" "n \<le> k"
  shows "\<exists>n' \<le> Suc k. hub_reach cr n' (nd_hub (socket_turn cr ok so i inp nd))"
proof -
  obtain counter s where "socket_step cr ok so inp (hub_counter (nd_hub nd), nd_sockets nd ! i) = (counter, s)" by fastforce
  from hub_turn[OF assms(1,2) this] this assms(3) show ?thesis
    by (intro exI[of _ "if counter = hub_counter (nd_hub nd) then n else n + 1"]) (simp add: socket_turn_def)
qed

lemma node_inv_step:
  assumes "node_inv h c tc cr st k nd" "node_step h c tc hc cr recv nd nd'" "broadcast_ok recv"
  shows "node_inv h c tc cr st (Suc k) nd'"
proof -
  from assms(1) obtain n where wf: "node_wf nd" and serves: "serves h c tc (rpc_state_new st) (nd_rpc nd)"
    and n: "n \<le> k" "hub_reach cr n (nd_hub nd)" and heads: "heads_ok (nd_rpc nd)" unfolding node_inv_def by blast
  from assms(2,3) wf have "\<exists>n \<le> Suc k. hub_reach cr n (nd_hub nd')"
  proof (cases rule: node_step_cases)
    case upgrade
    with hub_upgrade[OF n(2)] n(1) show ?thesis by (intro exI[of _ n]) (simp add: ws_upgrade_def)
  next
    case (peer i ok so inp msg)
    with hub_of_turn[OF n(2) peer(1) n(1)] show ?thesis by simp
  next
    case (event i ok so)
    with hub_of_turn[OF n(2) event(1) n(1)] show ?thesis by simp
  qed (use n in \<open>auto intro: le_SucI\<close>)
  moreover from assms(2,3) wf have "serves h c tc (rpc_state_new st) (nd_rpc nd') \<and> heads_ok (nd_rpc nd')"
  proof (cases rule: node_step_cases)
    case (request m wo rm params rid r rs)
    from serves_request[OF serves request(2,1)] heads_ok_announces[OF heads endpoint_announces[OF request(1)]] request(3)
    show ?thesis by simp
  qed (use serves heads in \<open>simp_all add: ws_upgrade_def\<close>)
  ultimately show ?thesis using node_step_wf[OF assms(2,3) wf] unfolding node_inv_def by blast
qed

lemma node_run_inv:
  "node_run h c tc hc cr recv k (node_new st) nd \<Longrightarrow> broadcast_ok recv \<Longrightarrow> node_inv h c tc cr st k nd"
proof (induction k "node_new st" nd rule: node_run.induct)
  case run_refl
  show ?case by (rule node_inv_new)
next
  case (run_snoc k nd1 nd2)
  then show ?case using node_inv_step by blast
qed

lemma node_run_append:
  "node_run h c tc hc cr recv j nd1 nd2 \<Longrightarrow> node_run h c tc hc cr recv k nd nd1 \<Longrightarrow> node_run h c tc hc cr recv (k + j) nd nd2"
  by (induction rule: node_run.induct) (auto intro: node_run.intros)

section \<open>Properties\<close>

lemma settled_fuzz_endpoint:
  assumes "search_ok fa" shows "settled (\<lambda>n. fuzz_endpoint n h c fa join rs req)"
proof -
  from settled_fuzz_run[OF assms, of h c req "rpc_fork rs"] obtain n out where
    "out \<noteq> NoFuel" "\<forall>m \<ge> n. fuzz_run m h c fa req (rpc_fork rs) = out" unfolding settled_def by blast
  then show ?thesis unfolding settled_def fuzz_endpoint_def
    by (intro exI[of _ n] exI[of _ "case out of Done (Inr report) \<Rightarrow> Done (200, report) | Done (Inl err) \<Rightarrow> Done (400, fuzz_report_error err)
        | Panic \<Rightarrow> Done (500, fuzz_report_error join) | NoFuel \<Rightarrow> NoFuel"]) (auto split: outcome.split sum.split)
qed

lemma settled_http_request:
  assumes "orders_ok wo" "rpc_ok (nd_rpc nd)" "tx_crates_ok tc" "search_ok fa"
  shows "settled (\<lambda>n. http_request n h wo c tc fa join hc m path body nd)"
proof (cases "route m path")
  case (Some ep)
  show ?thesis
  proof (cases ep)
    case RpcEndpoint
    with Some settled_endpoint[OF assms(1-3)] show ?thesis
      by (cases "rpc_body hc body") (auto simp: http_request_def intro!: settled_const settled_obind)
  next
    case FuzzEndpoint
    with Some settled_fuzz_endpoint[OF assms(4)] show ?thesis
      by (cases "fuzz_body hc body") (auto simp: http_request_def intro!: settled_const settled_obind)
  qed (use Some in \<open>simp add: http_request_def settled_const\<close>)
qed (simp add: http_request_def settled_const)

text \<open>C23.  Every HTTP request to a well-formed node comes to an end, on every route: from some fuel on the outcome is always the
  same and is a response or a panic, also where transactions are executed, a gas limit is searched or bytecode is fuzzed.\<close>

theorem requests_return:
  assumes "orders_ok wo" "rpc_ok (nd_rpc nd)" "tx_crates_ok tc" "search_ok fa"
  shows "\<exists>n out. out \<noteq> NoFuel \<and> (\<forall>k. http_request (n + k) h wo c tc fa join hc m path body nd = out)"
  using settled_http_request[OF assms, of h c join hc m path body] unfolding settled_def by (metis le_add1)

definition sending_client :: http_crates where
  "sending_client = \<lparr>rpc_body = (\<lambda>body. Some \<lparr>rq_jsonrpc = ''2.0'', rq_method = ''eth_sendRawTransaction'',
       rq_params = JArray [JString body], rq_id = JNull\<rparr>),
     fuzz_body = (\<lambda>_. None), ws_handshake = (\<lambda>_. True)\<rparr>"

theorem requests_return_witness:
  "\<exists>n out. out \<noteq> NoFuel \<and> (\<forall>k. http_request (n + k) flat_host fixed_orders plain_text (sample_crates []) first_hit [] sending_client
     POST ''/'' ''0xc1'' rpc_main = out)"
  by (rule requests_return[OF idle_facts(4) _ idle_facts(3) first_hit_ok]) (simp add: rpc_main_def node_new_def idle_facts(2))

end
