(* ===== verification/EvmFeed.thy ===== *)
theory EvmFeed
  imports EvmNode
begin

text \<open>
  What the subscribers of a node are sent.  Messages for a subscription come from the events of the server, in order and at most
  once; a subscription that lasts and a receiver that catches up miss nothing; the headers ascend.  The statements are about runs of
  \<open>EvmNode\<close>, in which requests, messages and events interleave freely; nothing is defined here that models code.
\<close>

section \<open>What subscribers are sent\<close>

definition sent :: "string \<Rightarrow> socket \<Rightarrow> json list" where
  "sent sid s = filter (\<lambda>m. \<exists>r. m = notification_json sid r) (sock_out s)"

text \<open>Sockets that are not there yet have been sent nothing, and will start at the events that are yet to come.\<close>

definition sent_to :: "rpc_node \<Rightarrow> nat \<Rightarrow> string \<Rightarrow> json list" where
  "sent_to nd i sid = (if i < length (nd_sockets nd) then sent sid (nd_sockets nd ! i) else [])"

definition position_of :: "rpc_node \<Rightarrow> nat \<Rightarrow> nat" where
  "position_of nd i = (if i < length (nd_cursors nd) then nd_cursors nd ! i else length (nd_events nd))"

text \<open>Messages that come, in order and without repetition, from events at the positions from \<open>lo\<close> up to \<open>hi\<close>.\<close>

definition fed :: "evm_event list \<Rightarrow> nat \<Rightarrow> nat \<Rightarrow> string \<Rightarrow> json list \<Rightarrow> bool" where
  "fed evs lo hi sid msgs \<longleftrightarrow> lo \<le> hi \<and> (\<exists>ps rs. msgs = map (notification_json sid) rs \<and>
     list_all2 (\<lambda>p r. \<exists>kind. notification kind (evs ! p) = Some r) ps rs \<and> sorted_wrt (<) ps \<and> set ps \<subseteq> {lo..<hi})"

lemma fed_nil: "lo \<le> hi \<Longrightarrow> fed evs lo hi sid []"
  unfolding fed_def by (auto intro: exI[of _ "[]"])

lemma fed_single: "notification kind (evs ! k) = Some r \<Longrightarrow> fed evs k (k + 1) sid [notification_json sid r]"
  unfolding fed_def by (intro conjI exI[of _ "[k]"] exI[of _ "[r]"]) auto

lemma fed_append:
  assumes "fed evs lo mid sid ms" "fed evs mid hi sid ms'"
  shows "fed evs lo hi sid (ms @ ms')"
proof -
  let ?R = "\<lambda>p r. \<exists>kind. notification kind (evs ! p) = Some r"
  from assms obtain ps rs ps' rs' where "lo \<le> mid" "mid \<le> hi"
    "ms = map (notification_json sid) rs" "list_all2 ?R ps rs" "sorted_wrt (<) ps" "set ps \<subseteq> {lo..<mid}"
    "ms' = map (notification_json sid) rs'" "list_all2 ?R ps' rs'" "sorted_wrt (<) ps'" "set ps' \<subseteq> {mid..<hi}"
    unfolding fed_def by blast
  then show ?thesis unfolding fed_def
    by (intro conjI exI[of _ "ps @ ps'"] exI[of _ "rs @ rs'"])
      (force simp: sorted_wrt_append list_all2_appendI)+
qed

lemma fed_prefix:
  assumes "fed evs lo hi sid ms" "hi \<le> length evs"
  shows "fed (evs @ new) lo hi sid ms"
proof -
  from assms(1) obtain ps rs where f: "lo \<le> hi" "ms = map (notification_json sid) rs"
    "list_all2 (\<lambda>p r. \<exists>kind. notification kind (evs ! p) = Some r) ps rs" "sorted_wrt (<) ps" "set ps \<subseteq> {lo..<hi}"
    unfolding fed_def by blast
  have "(evs @ new) ! p = evs ! p" if "p \<in> set ps" for p
    using that f(5) assms(2) by (auto simp: nth_append)
  then have "list_all2 (\<lambda>p r. \<exists>kind. notification kind ((evs @ new) ! p) = Some r) ps rs"
    by (intro list.rel_mono_strong[OF f(3)]) simp
  with f show ?thesis unfolding fed_def by blast
qed

lemma response_not_notification: "response_json resp \<noteq> notification_json sid r"
  by (simp add: response_json_def notification_json_def json_field_def split: option.split)

lemma sent_response [simp]: "sent sid (socket_send ok (response_json resp) s) = sent sid s"
  by (simp add: sent_def socket_send_def response_not_notification)

lemma peer_sent:
  assumes "inp = PeerText msg \<or> inp = PeerGone"
  shows "sent sid (snd (socket_step cr ok so inp (counter, s))) = sent sid s"
  using assms by (auto simp: socket_step_def Let_def sent_def[of _ "_\<lparr>sock_open := _\<rparr>"] sent_def[of _ "_\<lparr>sock_subs := _\<rparr>"]
      sent_def[of _ s] split: option.splits prod.splits)

text \<open>An event leads to at most one message for a subscription, and to exactly one if the socket is still open and the
  subscription is interested.\<close>

lemma notifications_absent: "sid \<notin> fst ` set sks \<Longrightarrow> filter (\<lambda>m. \<exists>r. m = notification_json sid r) (notifications ev sks) = []"
  by (induction sks) (auto simp: notification_json_inj split: option.splits)

lemma filter_take_single:
  assumes "filter P xs = ys" "length ys \<le> 1"
  shows "filter P (take m xs) = [] \<or> filter P (take m xs) = ys"
proof -
  have "ys = filter P (take m xs) @ filter P (drop m xs)" using assms(1) by (simp add: filter_append[symmetric])
  with assms(2) show ?thesis by (cases "filter P (take m xs)") auto
qed

definition interest :: "active_subscriptions \<Rightarrow> evm_event \<Rightarrow> string \<Rightarrow> json list" where
  "interest subs ev sid = (case hm_get subs sid of None \<Rightarrow> [] | Some kind \<Rightarrow>
     (case notification kind ev of None \<Rightarrow> [] | Some r \<Rightarrow> [notification_json sid r]))"

lemma event_sent:
  assumes "sock_open s" "walk_ok so" "hm_wf (sock_subs s)"
    "s' = snd (socket_step cr ok so (BroadcastEvent ev) (counter, s))"
  shows "sent sid s' = sent sid s \<or> sent sid s' = sent sid s @ interest (sock_subs s) ev sid"
    "sock_open s' \<Longrightarrow> sent sid s' = sent sid s @ interest (sock_subs s) ev sid"
    "sock_subs s' = sock_subs s"
proof -
  let ?sks = "so (sock_subs s)" and ?P = "\<lambda>m. \<exists>r. m = notification_json sid r"
  let ?ns = "notifications ev ?sks"
  define m where "m = accepted ok (length (sock_out s)) (length ?ns)"
  have s': "s' = s\<lparr>sock_out := sock_out s @ take m ?ns, sock_open := m = length ?ns\<rparr>"
    using assms(1) by (simp add: assms(4) socket_step_def notify_loop_out[OF assms(1)] Let_def m_def)
  have w: "set ?sks = set (sock_subs s)" "distinct (map fst ?sks)" using assms(2,3) unfolding walk_ok_def by blast+
  have i: "filter ?P ?ns = interest (sock_subs s) ev sid"
  proof (cases "hm_get (sock_subs s) sid")
    case None
    then have "sid \<notin> fst ` set ?sks" using w(1) by (auto simp: map_of_eq_None_iff)
    with None show ?thesis by (simp add: notifications_absent interest_def)
  next
    case (Some kind)
    then have "(sid, kind) \<in> set ?sks" using w(1) by (auto dest: map_of_SomeD)
    with Some notifications_of[OF w(2)] show ?thesis by (simp add: interest_def)
  qed
  have l: "length (interest (sock_subs s) ev sid) \<le> 1" by (simp add: interest_def split: option.split)
  show "sent sid s' = sent sid s \<or> sent sid s' = sent sid s @ interest (sock_subs s) ev sid"
    using filter_take_single[OF i l, of m] by (auto simp: s' sent_def)
  show "sock_open s' \<Longrightarrow> sent sid s' = sent sid s @ interest (sock_subs s) ev sid" using i by (simp add: s' sent_def)
  show "sock_subs s' = sock_subs s" by (simp add: s')
qed

lemma interest_fed: "fed evs k (k + 1) sid (interest subs (evs ! k) sid)"
  unfolding interest_def by (auto intro: fed_nil fed_single[unfolded Suc_eq_plus1[symmetric]] split: option.split)

text \<open>What a step does to socket \<open>i\<close>: it is sent nothing for \<open>sid\<close>, or the event at its position, which is then behind it.\<close>

lemma node_step_socket:
  assumes "node_step h c tc hc cr recv nd nd'" "broadcast_ok recv" "node_wf nd"
  obtains (silent) "sent_to nd' i sid = sent_to nd i sid" "position_of nd i \<le> position_of nd' i"
      "position_of nd' i \<noteq> position_of nd i \<Longrightarrow> i < length (nd_sockets nd) \<Longrightarrow> position_of nd i + 1024 < length (nd_events nd)"
  | (delivers) k s s' where "i < length (nd_sockets nd)" "s = nd_sockets nd ! i" "s' = nd_sockets nd' ! i" "k = position_of nd i"
      "k < length (nd_events nd)" "position_of nd' i = k + 1" "nd_events nd' = nd_events nd" "sock_subs s' = sock_subs s"
      "sent_to nd' i sid = sent_to nd i sid \<or> sent_to nd' i sid = sent_to nd i sid @ interest (sock_subs s) (nd_events nd ! k) sid"
      "sock_open s' \<Longrightarrow> sent_to nd' i sid = sent_to nd i sid @ interest (sock_subs s) (nd_events nd ! k) sid"
proof -
  note wf = assms(3)[unfolded node_wf_def]
  from assms show thesis
  proof (cases rule: node_step_cases)
    case (request n wo m params rid r rs)
    then obtain new where "rpc_events rs = nd_events nd @ new" using announces_events[OF endpoint_announces] by blast
    with request(3) wf show ?thesis by (intro silent) (auto simp: sent_to_def position_of_def)
  next
    case upgrade
    with wf show ?thesis by (intro silent) (auto simp: ws_upgrade_def sent_to_def position_of_def sent_def socket_new_def nth_append)
  next
    case (peer j ok so inp msg)
    with wf show ?thesis
      by (intro silent) (auto simp: sent_to_def position_of_def socket_turn_at peer_sent)
  next
    case (event j ok so)
    show ?thesis
    proof (cases "i = j")
      case True
      let ?ev = "BroadcastEvent (nd_events nd ! (nd_cursors nd ! j))"
      define s where "s = snd (socket_step cr ok so ?ev (hub_counter (nd_hub nd), nd_sockets nd ! j))"
      note sent = event_sent[OF event(3,2) node_wf_socket(1)[OF assms(3) event(1)] s_def]
      show ?thesis using True event wf sent
        by (intro delivers[OF _ refl refl refl]) (simp_all add: sent_to_def position_of_def socket_turn_at s_def[symmetric])
    next
      case False
      with event wf show ?thesis by (intro silent) (auto simp: sent_to_def position_of_def socket_turn_at)
    qed
  next
    case (lagged j k)
    with wf show ?thesis by (intro silent) (auto simp: sent_to_def position_of_def nth_list_update split: if_splits)
  next
    case idle
    then show ?thesis by (intro silent) simp_all
  qed
qed

lemma position_le:
  assumes "node_wf nd" shows "position_of nd i \<le> length (nd_events nd)"
  using assms by (auto simp: position_of_def node_wf_def)

lemma node_run_wf:
  "node_run h c tc hc cr recv k nd nd' \<Longrightarrow> broadcast_ok recv \<Longrightarrow> node_wf nd \<Longrightarrow> node_wf nd'"
  by (induction rule: node_run.induct) (auto intro: node_step_wf)

lemma node_run_feed:
  assumes "node_run h c tc hc cr recv k nd nd'" "broadcast_ok recv" "node_wf nd"
  shows "\<exists>msgs. sent_to nd' i sid = sent_to nd i sid @ msgs \<and> fed (nd_events nd') (position_of nd i) (position_of nd' i) sid msgs"
  using assms
proof (induction rule: node_run.induct)
  case (run_refl nd)
  then show ?case by (auto intro: fed_nil)
next
  case (run_snoc k nd nd1 nd2)
  then have wf: "node_wf nd1" using node_run_wf by blast
  from run_snoc obtain msgs where m: "sent_to nd1 i sid = sent_to nd i sid @ msgs"
    "fed (nd_events nd1) (position_of nd i) (position_of nd1 i) sid msgs" by blast
  obtain new where new: "nd_events nd2 = nd_events nd1 @ new"
    using node_step_events[OF run_snoc.hyps(2) run_snoc.prems(1) wf] by blast
  have old: "fed (nd_events nd2) (position_of nd i) (position_of nd1 i) sid msgs"
    using fed_prefix[OF m(2) position_le[OF wf]] by (simp add: new)
  from run_snoc.hyps(2) run_snoc.prems(1) wf show ?case
  proof (cases rule: node_step_socket[where i = i and sid = sid])
    case silent
    then show ?thesis using m(1) fed_append[OF old fed_nil] by auto
  next
    case (delivers k s s')
    have "fed (nd_events nd2) k (k + 1) sid (interest (sock_subs s) (nd_events nd1 ! k) sid)"
      using interest_fed[of "nd_events nd2"] delivers(7) by simp
    from fed_append[OF old this[unfolded delivers(4)]] fed_append[OF old fed_nil] delivers(4,6,9) m(1) show ?thesis by auto
  qed
qed

subsection \<open>Subscriptions during a run\<close>

text \<open>As long as the counter has not wrapped around, an identifier that was given out before is not given out again: a subscription
  that is there after a step, under an identifier below the counter, was there before it.\<close>

lemma node_step_subs:
  assumes "node_step h c tc hc cr recv nd nd'" "broadcast_ok recv" "node_wf nd" "i < length (nd_sockets nd)"
    "hub_counter (nd_hub nd) + 1 < 2 ^ 64" "m < hub_counter (nd_hub nd)"
  shows "hub_counter (nd_hub nd) \<le> hub_counter (nd_hub nd')" "i < length (nd_sockets nd')"
    "sock_open (nd_sockets nd' ! i) \<Longrightarrow> sock_open (nd_sockets nd ! i)"
    "hm_get (sock_subs (nd_sockets nd' ! i)) (hex_number m) = Some kind \<Longrightarrow> hm_get (sock_subs (nd_sockets nd ! i)) (hex_number m) = Some kind"
proof -
  let ?c = "hub_counter (nd_hub nd)"
  have turn: "?c \<le> hub_counter (nd_hub (socket_turn cr ok so j inp nd)) \<and>
      (sock_open (nd_sockets (socket_turn cr ok so j inp nd) ! i) \<longrightarrow> sock_open (nd_sockets nd ! i)) \<and>
      (hm_get (sock_subs (nd_sockets (socket_turn cr ok so j inp nd) ! i)) (hex_number m) = Some kind \<longrightarrow>
        hm_get (sock_subs (nd_sockets nd ! i)) (hex_number m) = Some kind)" if "j < length (nd_sockets nd)" for ok so j inp kind
  proof -
    obtain counter s where s: "socket_step cr ok so inp (?c, nd_sockets nd ! j) = (counter, s)" by fastforce
    have fresh: "hex_number m \<noteq> hex_number ?c" using assms(6) hex_number_inj[of m ?c] by simp
    have "sock_open (nd_sockets nd ! j)" if "sock_open s"
      using s that by (cases "sock_open (nd_sockets nd ! j)") (simp_all add: socket_step_def)
    moreover have "?c \<le> counter \<and> (hm_get (sock_subs s) (hex_number m) = Some kind \<longrightarrow>
        hm_get (sock_subs (nd_sockets nd ! j)) (hex_number m) = Some kind)"
      using socket_step_subs[OF s] fresh assms(5) by (elim disjE conjE exE) (simp_all split: if_splits)
    ultimately show ?thesis using s that by (simp add: socket_turn_at) (simp add: socket_turn_def)
  qed
  from assms(1-3) have "?c \<le> hub_counter (nd_hub nd') \<and> i < length (nd_sockets nd') \<and>
    (sock_open (nd_sockets nd' ! i) \<longrightarrow> sock_open (nd_sockets nd ! i)) \<and>
    (hm_get (sock_subs (nd_sockets nd' ! i)) (hex_number m) = Some kind \<longrightarrow>
      hm_get (sock_subs (nd_sockets nd ! i)) (hex_number m) = Some kind)" for kind
    by (cases rule: node_step_cases)
      (use assms(4) turn in \<open>simp_all add: ws_upgrade_def nth_append\<close>)
  then show "?c \<le> hub_counter (nd_hub nd')" "i < length (nd_sockets nd')"
    "sock_open (nd_sockets nd' ! i) \<Longrightarrow> sock_open (nd_sockets nd ! i)"
    "hm_get (sock_subs (nd_sockets nd' ! i)) (hex_number m) = Some kind \<Longrightarrow> hm_get (sock_subs (nd_sockets nd ! i)) (hex_number m) = Some kind"
    by blast+
qed

lemma node_inv_hub:
  assumes "node_inv h c tc cr st k nd" "k + 1 < 2 ^ 64"
  shows "\<exists>n \<le> k. hub_ok n (nd_hub nd)"
proof -
  from assms(1) obtain n where "n \<le> k" "hub_reach cr n (nd_hub nd)" unfolding node_inv_def by blast
  with hub_reach_ok[of cr n] assms(2) show ?thesis by auto
qed

text \<open>The messages that are due to a subscription for a sequence of events.\<close>

definition due :: "string \<Rightarrow> subscription_kind \<Rightarrow> evm_event list \<Rightarrow> json list" where
  "due sid kind evs = concat (map (\<lambda>ev. case notification kind ev of None \<Rightarrow> [] | Some r \<Rightarrow> [notification_json sid r]) evs)"

lemma due_simps [simp]: "due sid kind [] = []" "due sid kind (xs @ ys) = due sid kind xs @ due sid kind ys"
  by (simp_all add: due_def)

lemma interest_due: "hm_get subs sid = Some kind \<Longrightarrow> interest subs ev sid = due sid kind [ev]"
  by (simp add: interest_def due_def)

definition delivered :: "rpc_node \<Rightarrow> rpc_node \<Rightarrow> nat \<Rightarrow> string \<Rightarrow> subscription_kind \<Rightarrow> bool" where
  "delivered nd nd' i sid kind \<longleftrightarrow> position_of nd i \<le> position_of nd' i \<and>
     sent_to nd' i sid = sent_to nd i sid @ due sid kind (drop (position_of nd i) (take (position_of nd' i) (nd_events nd')))"

lemma delivered_step:
  assumes "delivered nd nd1 i sid kind" "node_step h c tc hc cr recv nd1 nd2" "broadcast_ok recv" "node_wf nd1"
    "i < length (nd_sockets nd1)" "hm_get (sock_subs (nd_sockets nd1 ! i)) sid = Some kind" "sock_open (nd_sockets nd2 ! i)"
    "length (nd_events nd2) \<le> position_of nd i + 1024"
  shows "delivered nd nd2 i sid kind"
proof -
  obtain new where new: "nd_events nd2 = nd_events nd1 @ new" using node_step_events[OF assms(2-4)] by blast
  have p: "position_of nd i \<le> position_of nd1 i" "position_of nd1 i \<le> length (nd_events nd1)"
    using assms(1) position_le[OF assms(4)] by (simp_all add: delivered_def)
  have old: "take (position_of nd1 i) (nd_events nd2) = take (position_of nd1 i) (nd_events nd1)" using p(2) by (simp add: new)
  from assms(2-4) show ?thesis
  proof (cases rule: node_step_socket[where i = i and sid = sid])
    case silent
    from silent(3) assms(5,8) p have "position_of nd2 i = position_of nd1 i" by (cases "position_of nd2 i = position_of nd1 i") (simp_all add: new)
    with silent(1) assms(1) old show ?thesis by (simp add: delivered_def)
  next
    case (delivers k s s')
    have "take (Suc k) (nd_events nd1) = take k (nd_events nd1) @ [nd_events nd1 ! k]" using delivers(5) by (rule take_Suc_conv_app_nth)
    moreover have "drop (position_of nd i) (take k (nd_events nd1) @ [nd_events nd1 ! k]) =
        drop (position_of nd i) (take k (nd_events nd1)) @ [nd_events nd1 ! k]" using p delivers(4,5) by simp
    ultimately show ?thesis
      using delivers(10) assms(1,6,7) delivers(2-7) by (simp add: delivered_def interest_due)
  qed
qed

lemma node_run_inv_from:
  "node_run h c tc hc cr recv j nd nd1 \<Longrightarrow> broadcast_ok recv \<Longrightarrow> node_inv h c tc cr st k nd \<Longrightarrow> node_inv h c tc cr st (k + j) nd1"
proof (induction rule: node_run.induct)
  case (run_snoc j nd nd1 nd2)
  then show ?case using node_inv_step by fastforce
qed simp

text \<open>A subscription that is still there at the end, on a socket that is still open, has been there all the time, and was sent all
  that was due.\<close>

definition steady :: "rpc_node \<Rightarrow> rpc_node \<Rightarrow> nat \<Rightarrow> string \<Rightarrow> subscription_kind \<Rightarrow> bool" where
  "steady nd nd' i sid kind \<longleftrightarrow> i < length (nd_sockets nd') \<and> hub_counter (nd_hub nd) \<le> hub_counter (nd_hub nd') \<and>
     (length (nd_events nd') \<le> position_of nd i + 1024 \<longrightarrow> sock_open (nd_sockets nd' ! i) \<longrightarrow>
      hm_get (sock_subs (nd_sockets nd' ! i)) sid \<noteq> None \<longrightarrow>
      hm_get (sock_subs (nd_sockets nd' ! i)) sid = Some kind \<and> delivered nd nd' i sid kind)"

lemma steady_step:
  assumes "steady nd nd1 i sid kind" "node_step h c tc hc cr recv nd1 nd2" "broadcast_ok recv" "node_inv h c tc cr st k nd1" "k + 2 < 2 ^ 64"
    "sid = hex_number m" "m < hub_counter (nd_hub nd)"
  shows "steady nd nd2 i sid kind"
proof -
  have wf: "node_wf nd1" using assms(4) by (simp add: node_inv_def)
  from node_inv_hub[OF assms(4)] assms(5) obtain n where n: "n \<le> k" "hub_ok n (nd_hub nd1)" by auto
  have c: "hub_counter (nd_hub nd1) + 1 < 2 ^ 64" using n assms(5) by (simp add: hub_ok_def)
  have i: "i < length (nd_sockets nd1)" and m: "m < hub_counter (nd_hub nd1)" using assms(1,7) by (simp_all add: steady_def)
  note subs = node_step_subs[OF assms(2,3) wf i c m]
  obtain new where new: "nd_events nd2 = nd_events nd1 @ new" using node_step_events[OF assms(2,3) wf] by blast
  show ?thesis unfolding steady_def
  proof (intro conjI impI)
    assume b: "length (nd_events nd2) \<le> position_of nd i + 1024" "sock_open (nd_sockets nd2 ! i)" "hm_get (sock_subs (nd_sockets nd2 ! i)) sid \<noteq> None"
    then obtain kind' where k2: "hm_get (sock_subs (nd_sockets nd2 ! i)) sid = Some kind'" by auto
    then have k1: "hm_get (sock_subs (nd_sockets nd1 ! i)) sid = Some kind'" using subs(4) assms(6) by simp
    with assms(1) b(1) subs(3)[OF b(2)] have "kind' = kind" "delivered nd nd1 i sid kind" by (auto simp: steady_def new)
    with k1 k2 delivered_step[OF _ assms(2,3) wf i _ b(2,1)]
    show "hm_get (sock_subs (nd_sockets nd2 ! i)) sid = Some kind" "delivered nd nd2 i sid kind" by simp_all
  qed (use subs(1,2) assms(1) in \<open>simp_all add: steady_def\<close>)
qed

lemma node_run_steady:
  assumes "node_run h c tc hc cr recv j nd nd1" "broadcast_ok recv" "node_inv h c tc cr st k nd" "k + j + 1 < 2 ^ 64"
    "i < length (nd_sockets nd)" "hm_get (sock_subs (nd_sockets nd ! i)) sid = Some kind" "sid = hex_number m" "m < hub_counter (nd_hub nd)"
  shows "steady nd nd1 i sid kind"
  using assms
proof (induction rule: node_run.induct)
  case (run_refl nd)
  then show ?case by (simp add: steady_def delivered_def)
next
  case (run_snoc j nd nd1 nd2)
  have "steady nd nd1 i sid kind" using run_snoc by simp
  moreover have "node_inv h c tc cr st (k + j) nd1" by (rule node_run_inv_from[OF run_snoc.hyps(1) run_snoc.prems(1,2)])
  moreover have "k + j + 2 < 2 ^ 64" using run_snoc.prems(3) by simp
  ultimately show ?case by (rule steady_step[OF _ run_snoc.hyps(2) run_snoc.prems(1) _ _ run_snoc.prems(6,7)])
qed

lemma node_run_delivers:
  assumes "node_run h c tc hc cr recv k nd nd'" "broadcast_ok recv" "node_inv h c tc cr st k0 nd" "k0 + k + 1 < 2 ^ 64"
    "i < length (nd_sockets nd)" "hm_get (sock_subs (nd_sockets nd ! i)) sid = Some kind"
  shows "steady nd nd' i sid kind"
proof -
  from node_inv_hub[OF assms(3)] assms(4) obtain n where n: "n \<le> k0" "hub_ok n (nd_hub nd)" by auto
  from assms(6) have "sid \<in> sock_ids (nd_sockets nd ! i)" by (rule domI)
  then have "sid \<in> hex_number ` {..n}" using n(2) assms(5) unfolding hub_ok_def by (meson nth_mem subsetD)
  moreover have "hub_counter (nd_hub nd) = n + 1" using n(2) by (simp add: hub_ok_def)
  ultimately obtain m where "sid = hex_number m" "m < hub_counter (nd_hub nd)" by auto
  with node_run_steady[OF assms] show ?thesis .
qed

lemma header_json_inj: "header_json x = header_json y \<longleftrightarrow> x = y"
  by (auto simp: header_json_def intro: block_header_notification.equality)

lemma header_notification: "notification kind ev = Some (header_json x) \<Longrightarrow> ev = NewHead x"
  by (auto simp: notification_def header_json_inj header_json_def log_json_def split: subscription_kind.splits evm_event.splits if_splits)

lemma sent_to_new: "sent_to (node_new st) i sid = []"
  by (simp add: sent_to_def node_new_def)

section \<open>A small run\<close>

text \<open>A client opens a socket, subscribes to new heads and mines a block; the socket then looks at its receiver.\<close>

definition ring_receiver :: receiver where
  "ring_receiver evs k =
     (if length evs \<le> k then None
      else if k + 1024 < length evs then Some (BroadcastLagged, length evs - 1024)
      else Some (BroadcastEvent (evs ! k), k + 1))"

lemma ring_receiver_ok: "broadcast_ok ring_receiver"
  by (auto simp: broadcast_ok_def ring_receiver_def)

definition mining_client :: http_crates where
  "mining_client = \<lparr>rpc_body = (\<lambda>_. Some \<lparr>rq_jsonrpc = ''2.0'', rq_method = ''evm_mine'', rq_params = JNull, rq_id = JNull\<rparr>),
     fuzz_body = (\<lambda>_. None), ws_handshake = (\<lambda>_. True)\<rparr>"

definition sample_subs :: "active_subscriptions \<Rightarrow> active_subscriptions" where
  "sample_subs subs = subs"

lemma sample_subs_ok: "walk_ok sample_subs"
  by (simp add: walk_ok_def sample_subs_def)

definition subscribed_node :: rpc_node where
  "subscribed_node = socket_turn sample_socket_crates (\<lambda>_. True) (\<lambda>subs. subs) 0 (PeerText []) (ws_upgrade rpc_main)"

lemma rpc_main_facts [simp]:
  "nd_rpc rpc_main = rpc_state_new default_fork" "nd_hub rpc_main = \<lparr>hub_counter = 1, hub_sockets = []\<rparr>" "nd_cursors rpc_main = []"
  by (simp_all add: rpc_main_def node_new_def)

lemma subscribed_facts:
  "nd_rpc subscribed_node = rpc_state_new default_fork" "nd_cursors subscribed_node = [0]" "length (nd_sockets subscribed_node) = 1"
  "sock_subs (nd_sockets subscribed_node ! 0) = [(hex_number 1, NewHeads)]" "sock_open (nd_sockets subscribed_node ! 0)"
proof -
  let ?s = "snd (socket_step sample_socket_crates (\<lambda>_. True) (\<lambda>subs. subs) (PeerText []) (1, socket_new))"
  have s: "nd_sockets subscribed_node = [?s]" by (simp add: subscribed_node_def socket_turn_def ws_upgrade_def Let_def)
  show "nd_rpc subscribed_node = rpc_state_new default_fork" "nd_cursors subscribed_node = [0]" "length (nd_sockets subscribed_node) = 1"
    by (simp_all add: subscribed_node_def) (simp_all add: ws_upgrade_def rpc_state_new_def)
  show "sock_subs (nd_sockets subscribed_node ! 0) = [(hex_number 1, NewHeads)]" using sample_subscribe(2)[of 1] by (simp add: s)
  show "sock_open (nd_sockets subscribed_node ! 0)"
    by (simp add: s socket_step_def socket_new_def sample_socket_crates_def socket_request_def json_get_def as_str_def
        as_array_def subscription_of_def first_of_def sub_add_def socket_send_def Let_def)
qed

lemma subscribed_reached:
  "node_run flat_host plain_text (sample_crates []) mining_client sample_socket_crates ring_receiver 2 (node_new default_fork) subscribed_node"
proof -
  have "http_request 0 flat_host fixed_orders plain_text (sample_crates []) first_hit [] mining_client GET ''/ws'' [] rpc_main =
      Done (SwitchingProtocols, ws_upgrade rpc_main)"
    by (simp add: http_request_def route_def app_def mining_client_def)
  from run_snoc[OF run_refl step_http[OF this idle_facts(4)]]
  have "node_run flat_host plain_text (sample_crates []) mining_client sample_socket_crates ring_receiver 1 rpc_main (ws_upgrade rpc_main)" by simp
  from run_snoc[OF this step_peer[of 0 _ "PeerText []"]] show ?thesis
    unfolding subscribed_node_def rpc_main_def[symmetric] by (simp add: ws_upgrade_def numeral_2_eq_2)
qed

text \<open>A node with an empty pool and one socket, which is subscribed to new heads and up to date.\<close>

definition watched :: "nat \<Rightarrow> rpc_node \<Rightarrow> bool" where
  "watched n nd \<longleftrightarrow> rpc_tx_pool (nd_rpc nd) = pool_new \<and> rpc_block_number (nd_rpc nd) = n \<and> length (nd_sockets nd) = 1 \<and>
     sock_open (nd_sockets nd ! 0) \<and> sock_subs (nd_sockets nd ! 0) = [(hex_number 1, NewHeads)] \<and>
     nd_cursors nd = [n] \<and> length (nd_events nd) = n"

lemma subscribed_watched: "watched 0 subscribed_node" "sent_to subscribed_node 0 (hex_number 1) = []"
proof -
  show "watched 0 subscribed_node" using subscribed_facts by (simp add: watched_def rpc_state_new_def)
  have "sent sid (nd_sockets subscribed_node ! 0) = sent sid socket_new" for sid
    unfolding subscribed_node_def by (simp add: socket_turn_at ws_upgrade_def peer_sent[where msg = "[]"])
  then show "sent_to subscribed_node 0 (hex_number 1) = []" by (simp add: sent_to_def sent_def socket_new_def)
qed

lemma empty_pool_mines:
  assumes "rpc_tx_pool rs = pool_new"
  defines "bn \<equiv> saturating_add (rpc_block_number rs) 1"
  shows "\<exists>rs'. mine_block 0 flat_host fixed_orders plain_text rs = Done (Inr (block_hash_of bn), rs') \<and> rpc_tx_pool rs' = pool_new \<and>
    rpc_block_number rs' = bn \<and> rpc_events rs' = rpc_events rs @ [head_event plain_text (block_hash_of bn) bn]"
proof -
  have p: "pop_executable (sender_order fixed_orders) pool_new ns 30000000 = Done ([], pool_new)" for ns
    by (simp add: pop_executable_def pop_loop.simps best_candidate_def pool_new_def fixed_orders_def)
  obtain root where "fork_compute_state_root (keccak256 flat_host) (address_order fixed_orders) (slot_order fixed_orders) (rpc_fork rs) = Done root"
    using fork_root_Done by blast
  then show ?thesis by (simp add: mine_block_def assms(1) p Let_def bn_def del: One_nat_def)
qed

definition sample_head :: "nat \<Rightarrow> block_header_notification" where
  "sample_head n = (case head_event plain_text (block_hash_of n) n of NewHead head \<Rightarrow> head)"

lemma sample_head: "head_event plain_text (block_hash_of n) n = NewHead (sample_head n)" "hd_number (sample_head n) = hex_number n"
  by (simp_all add: sample_head_def head_event_def)

abbreviation sample_run :: "nat \<Rightarrow> rpc_node \<Rightarrow> rpc_node \<Rightarrow> bool" where
  "sample_run \<equiv> node_run flat_host plain_text (sample_crates []) mining_client sample_socket_crates ring_receiver"

lemma watched_turn:
  assumes "watched n nd" "rpc_tx_pool rs = pool_new" "rpc_block_number rs = n + 1" "rpc_events rs = nd_events nd @ [NewHead head]"
  defines "nd' \<equiv> event_turn sample_socket_crates (\<lambda>_. True) sample_subs ring_receiver 0 (nd\<lparr>nd_rpc := rs\<rparr>)"
  shows "watched (n + 1) nd'" "nd_events nd' = nd_events nd @ [NewHead head]"
    "sent_to nd' 0 (hex_number 1) = sent_to nd 0 (hex_number 1) @ [notification_json (hex_number 1) (header_json head)]"
proof -
  let ?s = "nd_sockets nd ! 0" and ?ev = "BroadcastEvent (NewHead head)"
  define s where "s = snd (socket_step sample_socket_crates (\<lambda>_. True) sample_subs ?ev (hub_counter (nd_hub nd), ?s))"
  have w: "length (nd_sockets nd) = 1" "sock_open ?s" "sock_subs ?s = [(hex_number 1, NewHeads)]" "nd_cursors nd = [n]" "length (nd_events nd) = n"
    using assms(1) by (simp_all add: watched_def)
  have e: "nd' = (socket_turn sample_socket_crates (\<lambda>_. True) sample_subs 0 ?ev (nd\<lparr>nd_rpc := rs\<rparr>))\<lparr>nd_cursors := [n + 1]\<rparr>"
    unfolding nd'_def using w by (simp add: event_turn_def ring_receiver_def assms(4) nth_append)
  have s: "nd_sockets nd' ! 0 = s" "length (nd_sockets nd') = 1" using w by (simp_all add: e s_def socket_turn_at)
  have wf: "hm_wf (sock_subs ?s)" by (simp add: w(3))
  note sent = event_sent[OF w(2) sample_subs_ok wf s_def]
  have out: "sock_open s" using notify_loop_all[OF w(2), of "\<lambda>_. True"] w(2) by (simp add: s_def socket_step_def Let_def)
  show "watched (n + 1) nd'" "nd_events nd' = nd_events nd @ [NewHead head]"
    using out sent(3) w s assms(2,3,4) by (simp_all add: watched_def e)
  show "sent_to nd' 0 (hex_number 1) = sent_to nd 0 (hex_number 1) @ [notification_json (hex_number 1) (header_json head)]"
    using sent(2)[OF out] w s by (simp add: sent_to_def interest_def notification_def)
qed

lemma watched_block:
  assumes "watched n nd" "n < 1000"
  obtains nd' where "sample_run 2 nd nd'" "watched (n + 1) nd'" "nd_events nd' = nd_events nd @ [NewHead (sample_head (n + 1))]"
    "sent_to nd' 0 (hex_number 1) = sent_to nd 0 (hex_number 1) @ [notification_json (hex_number 1) (header_json (sample_head (n + 1)))]"
proof -
  have n: "saturating_add (rpc_block_number (nd_rpc nd)) 1 = n + 1" using assms by (simp add: watched_def saturating_add_def)
  have pool: "rpc_tx_pool (nd_rpc nd) = pool_new" using assms(1) by (simp add: watched_def)
  obtain rs where m: "mine_block 0 flat_host fixed_orders plain_text (nd_rpc nd) = Done (Inr (block_hash_of (n + 1)), rs)"
    and rs: "rpc_tx_pool rs = pool_new" "rpc_block_number rs = n + 1" "rpc_events rs = nd_events nd @ [NewHead (sample_head (n + 1))]"
    using empty_pool_mines[OF pool] unfolding n sample_head(1) by blast
  let ?nd = "nd\<lparr>nd_rpc := rs\<rparr>"
  have "http_request 0 flat_host fixed_orders plain_text (sample_crates []) first_hit [] mining_client POST ''/'' [] nd =
      Done (RpcAnswer (rpc_success (JString (hex_string plain_text (block_hash_of (n + 1)))) JNull), ?nd)"
    by (simp add: http_request_def route_def app_def mining_client_def rpc_endpoint_def handle_evm_mine_def m
        answer_state_def respond_def del: One_nat_def)
  from run_snoc[OF run_refl step_http[OF this idle_facts(4)]] have one: "sample_run 1 nd ?nd" by simp
  have "sample_run 2 nd (event_turn sample_socket_crates (\<lambda>_. True) sample_subs ring_receiver 0 ?nd)"
  proof -
    have "0 < length (nd_sockets ?nd)" "sock_open (nd_sockets ?nd ! 0)" using assms(1) by (auto simp: watched_def)
    from run_snoc[OF one step_event[OF this(1) sample_subs_ok this(2)]] show ?thesis by (simp add: numeral_2_eq_2)
  qed
  with watched_turn[OF assms(1) rs] that show ?thesis by blast
qed

section \<open>Properties\<close>

text \<open>C22.  However HTTP requests, messages on sockets and events of the channel interleave, the node stays well formed: world state and
  pool of the server are well formed, every socket has a receiver that is not ahead of the events, and no two subscriptions of the
  process share an identifier, on one socket or on two (for runs of fewer than \<open>2\<^sup>6\<^sup>4\<close> steps, after which the counter may wrap).\<close>

theorem node_invariant:
  assumes "node_run h c tc hc cr recv k (node_new st) nd" "broadcast_ok recv" "tx_crates_ok tc" "fork_ok st" "k + 1 < 2 ^ 64"
  shows "rpc_ok (nd_rpc nd) \<and> node_wf nd \<and>
    (\<forall>i < length (nd_sockets nd). \<forall>j < length (nd_sockets nd). i \<noteq> j \<longrightarrow>
       sock_ids (nd_sockets nd ! i) \<inter> sock_ids (nd_sockets nd ! j) = {})"
proof -
  have inv: "node_inv h c tc cr st k nd" by (rule node_run_inv[OF assms(1,2)])
  then have "rpc_ok (nd_rpc nd)" using serves_ok[OF _ assms(3) rpc_state_new_ok[OF assms(4)]] unfolding node_inv_def by blast
  moreover from node_inv_hub[OF inv assms(5)] obtain n where "hub_ok n (nd_hub nd)" by blast
  ultimately show ?thesis using inv unfolding node_inv_def hub_ok_def by blast
qed

theorem node_invariant_witness:
  "\<exists>nd. sample_run 4 (node_new default_fork) nd \<and> rpc_block_number (nd_rpc nd) = 1 \<and> length (nd_sockets nd) = 1 \<and>
     rpc_ok (nd_rpc nd) \<and> node_wf nd"
proof -
  obtain nd where nd: "sample_run 2 subscribed_node nd" "watched (0 + 1) nd" by (rule watched_block[OF subscribed_watched(1)]) simp_all
  have "sample_run 4 (node_new default_fork) nd" using node_run_append[OF nd(1) subscribed_reached] by simp
  with node_invariant[OF this ring_receiver_ok idle_facts(3,1)] nd(2) show ?thesis by (auto simp: watched_def)
qed

text \<open>C37.  What a subscriber is sent comes from the server's events, in order and without repetition: between two states of a run, the
  messages for a subscription are the notifications of events at ascending positions, from the position of the socket's receiver
  in the first state (for a socket that opens later, the events yet to come) up to its position in the second.\<close>

theorem notifications_in_order:
  assumes "node_run h c tc hc cr recv j (node_new st) nd" "node_run h c tc hc cr recv k nd nd'" "broadcast_ok recv"
  shows "\<exists>ps rs. sent_to nd' i sid = sent_to nd i sid @ map (notification_json sid) rs \<and>
    list_all2 (\<lambda>p r. \<exists>kind. notification kind (nd_events nd' ! p) = Some r) ps rs \<and>
    sorted_wrt (<) ps \<and> set ps \<subseteq> {position_of nd i..<position_of nd' i}"
proof -
  have "node_wf nd" using node_run_inv[OF assms(1,3)] by (simp add: node_inv_def)
  from node_run_feed[OF assms(2,3) this] show ?thesis unfolding fed_def by blast
qed

theorem notifications_in_order_witness:
  "\<exists>nd ps rs. sample_run 2 subscribed_node nd \<and> watched 1 nd \<and> sent_to nd 0 (hex_number 1) = map (notification_json (hex_number 1)) rs \<and>
     list_all2 (\<lambda>p r. \<exists>kind. notification kind (nd_events nd ! p) = Some r) ps rs \<and> set ps \<subseteq> {0..<1}"
proof -
  obtain nd where nd: "sample_run 2 subscribed_node nd" "watched (0 + 1) nd" by (rule watched_block[OF subscribed_watched(1)]) simp_all
  have "position_of subscribed_node 0 = 0" "position_of nd 0 = 1" using subscribed_watched nd(2) by (simp_all add: position_of_def watched_def)
  with notifications_in_order[OF subscribed_reached nd(1) ring_receiver_ok, of 0 "hex_number 1"] nd subscribed_watched(2) show ?thesis
    by (simp del: One_nat_def) blast
qed

text \<open>C36.  Nothing is lost: a subscription that is still there on an open socket whose receiver has caught up, no more than 1024
  events after it started, has been sent exactly the notifications that the events in between call for, each once and in order.\<close>

theorem subscribers_served:
  assumes "node_run h c tc hc cr recv j (node_new st) nd" "node_run h c tc hc cr recv k nd nd'" "broadcast_ok recv" "j + k + 1 < 2 ^ 64"
    "i < length (nd_sockets nd)" "hm_get (sock_subs (nd_sockets nd ! i)) sid = Some kind"
    "sock_open (nd_sockets nd' ! i)" "hm_get (sock_subs (nd_sockets nd' ! i)) sid \<noteq> None"
    "length (nd_events nd') \<le> position_of nd i + 1024" "position_of nd' i = length (nd_events nd')"
  shows "sent_to nd' i sid = sent_to nd i sid @ due sid kind (drop (position_of nd i) (nd_events nd'))"
  using node_run_delivers[OF assms(2,3) node_run_inv[OF assms(1,3)] assms(4-6)] assms(7-10)
  by (simp add: steady_def delivered_def)

theorem subscribers_served_witness:
  "\<exists>nd. sample_run 2 subscribed_node nd \<and> watched 1 nd \<and>
     sent_to nd 0 (hex_number 1) = [notification_json (hex_number 1) (header_json (sample_head 1))]"
proof -
  obtain nd where nd: "sample_run 2 subscribed_node nd" "watched (0 + 1) nd" "nd_events nd = nd_events subscribed_node @ [NewHead (sample_head (0 + 1))]"
    by (rule watched_block[OF subscribed_watched(1)]) simp_all
  have "nd_events subscribed_node = []" "position_of subscribed_node 0 = 0" "position_of nd 0 = 1" "length (nd_sockets subscribed_node) = 1"
    using subscribed_watched nd(2) by (simp_all add: position_of_def watched_def)
  moreover have "hm_get (sock_subs (nd_sockets subscribed_node ! 0)) (hex_number 1) = Some NewHeads" "sock_open (nd_sockets nd ! 0)"
    "hm_get (sock_subs (nd_sockets nd ! 0)) (hex_number 1) \<noteq> None" using subscribed_watched(1) nd(2) by (simp_all add: watched_def)
  ultimately have "sent_to nd 0 (hex_number 1) = [notification_json (hex_number 1) (header_json (sample_head 1))]"
    using subscribers_served[OF subscribed_reached nd(1) ring_receiver_ok, of 0 "hex_number 1" NewHeads] nd(3) subscribed_watched(2)
    by (simp add: due_def notification_def del: One_nat_def)
  with nd(1,2) show ?thesis by (intro exI[of _ nd]) simp
qed

text \<open>C38.  The headers that a subscriber receives carry strictly ascending block numbers, whatever other clients do and however much
  the socket lags (as long as the 64-bit block number is not exhausted).\<close>

theorem headers_ascend:
  assumes "node_run h c tc hc cr recv k (node_new st) nd" "broadcast_ok recv" "rpc_block_number (nd_rpc nd) < U64_MAX"
    "a < b" "b < length (sent_to nd i sid)" "sent_to nd i sid ! a = notification_json sid (header_json x)"
    "sent_to nd i sid ! b = notification_json sid (header_json y)"
  shows "\<exists>m n. m < n \<and> hd_number x = hex_number m \<and> hd_number y = hex_number n"
proof -
  let ?R = "\<lambda>p r. \<exists>kind. notification kind (nd_events nd ! p) = Some r"
  have inv: "node_inv h c tc cr st k nd" by (rule node_run_inv[OF assms(1,2)])
  then have wf: "node_wf nd" and sorted: "sorted_wrt head_before (nd_events nd)" using assms(3) by (auto simp: node_inv_def heads_ok_def)
  from node_run_feed[OF assms(1,2) node_wf_new, of i sid] obtain ps rs where
    f: "sent_to nd i sid = map (notification_json sid) rs" "list_all2 ?R ps rs" "sorted_wrt (<) ps"
      "set ps \<subseteq> {position_of (node_new st) i..<position_of nd i}"
    unfolding fed_def by (auto simp: sent_to_new)
  have l: "a < length rs" "b < length rs" "length ps = length rs" using assms(4,5) f(1,2) by (auto dest: list_all2_lengthD)
  have "rs ! a = header_json x" "rs ! b = header_json y" using assms(6,7) f(1) l by (simp_all add: notification_json_inj)
  with list_all2_nthD2[OF f(2) l(1)] list_all2_nthD2[OF f(2) l(2)]
  have h: "nd_events nd ! (ps ! a) = NewHead x" "nd_events nd ! (ps ! b) = NewHead y" by (auto dest: header_notification)
  have p: "ps ! a < ps ! b" using f(3) assms(4) l by (simp add: sorted_wrt_nth_less)
  have "ps ! b \<in> set ps" using l by simp
  with f(4) position_le[OF wf, of i] have "ps ! b < length (nd_events nd)" by (meson atLeastLessThan_iff less_le_trans subsetD)
  from sorted_wrt_nth_less[OF sorted p this] have "head_before (NewHead x) (NewHead y)" unfolding h .
  then show ?thesis by (simp add: head_before_def)
qed


theorem headers_ascend_witness:
  "\<exists>nd. watched 2 nd \<and> length (sent_to nd 0 (hex_number 1)) = 2 \<and>
     (\<exists>m n. m < n \<and> hd_number (sample_head 1) = hex_number m \<and> hd_number (sample_head 2) = hex_number n)"
proof -
  obtain nd1 where nd1: "sample_run 2 subscribed_node nd1" "watched (0 + 1) nd1"
    "sent_to nd1 0 (hex_number 1) = sent_to subscribed_node 0 (hex_number 1) @ [notification_json (hex_number 1) (header_json (sample_head (0 + 1)))]"
    by (rule watched_block[OF subscribed_watched(1)]) simp_all
  obtain nd where nd: "sample_run 2 nd1 nd" "watched (0 + 1 + 1) nd"
    "sent_to nd 0 (hex_number 1) = sent_to nd1 0 (hex_number 1) @ [notification_json (hex_number 1) (header_json (sample_head (0 + 1 + 1)))]"
    by (rule watched_block[OF nd1(2)]) simp_all
  have run: "sample_run (2 + 2 + 2) (node_new default_fork) nd" by (rule node_run_append[OF nd(1) node_run_append[OF nd1(1) subscribed_reached]])
  have out: "sent_to nd 0 (hex_number 1) = map (\<lambda>n. notification_json (hex_number 1) (header_json (sample_head n))) [1, 2]"
    using nd(3) nd1(3) subscribed_watched(2) by (simp add: numeral_2_eq_2)
  have "rpc_block_number (nd_rpc nd) < U64_MAX" using nd(2) by (simp add: watched_def)
  with headers_ascend[OF run ring_receiver_ok, of 0 1 0 "hex_number 1" "sample_head 1" "sample_head 2"] nd(2) out show ?thesis
    by (intro exI[of _ nd]) (simp add: numeral_2_eq_2)
qed

end
