(* ===== verification/Spec2Isabelle.thy ===== *)
theory Spec2Isabelle
  imports EvmFrames EvmArbitrage EvmCli EvmSubmission EvmFeed
begin

text \<open>
  A model of the \<open>mini-evm\<close> crate (\<open>src/src\<close>): an interpreter for EVM bytecode with a forked world state and a Merkle
  Patricia trie, and on top of it transaction decoding and execution, a transaction pool, a JSON-RPC server that mines
  blocks, a gas estimator, an arbitrage simulator, a calldata fuzzer and the command line listing.  This theory imports all
  others and holds the properties of the interpreter that span components.

  \<^bold>\<open>Parts, theories and sources.\<close>

  \<^item> \<open>EvmPrelude\<close>: outcomes, machine integers, byte strings, hash maps as association lists; what the components share.
  \<^item> \<open>EvmStack\<close> (\<open>stack.rs\<close>), \<open>EvmGas\<close> (\<open>gas.rs\<close>), \<open>EvmOpcodes\<close> (\<open>opcodes.rs\<close>), \<open>EvmDisasm\<close> (\<open>disasm.rs\<close> and the
    scan for jump destinations of \<open>vm.rs\<close>).
  \<^item> \<open>EvmRlp\<close> (the RLP encoders of \<open>crypto.rs\<close>, \<open>mpt/account.rs\<close> and \<open>mpt/node.rs\<close>), \<open>EvmMpt\<close> (\<open>mpt/node.rs\<close>,
    \<open>mpt/trie.rs\<close>), \<open>EvmState\<close> (\<open>state.rs\<close>), \<open>EvmPrecompiles\<close> (\<open>precompiles.rs\<close>).
  \<^item> \<open>vm.rs\<close> is split: \<open>EvmMachine\<close> (the record \<open>evm\<close>, builder, memory pricing, synchronisation of the legacy maps),
    \<open>EvmArith\<close>, \<open>EvmMemOps\<close>, \<open>EvmEnvOps\<close> (one definition per handler \<open>op_*\<close>), \<open>EvmCalls\<close> (calls, creation and
    self-destruction, over a parameter that runs the child), \<open>EvmExec\<close> (gas and dispatch tables, \<open>step\<close>, the loop, nested runs).
  \<^item> \<open>EvmTx\<close> (\<open>tx/decoder.rs\<close>), \<open>EvmSimulation\<close> (\<open>simulation.rs\<close>, \<open>vm/runner.rs\<close>), \<open>EvmMempool\<close> (\<open>mempool/mod.rs\<close>),
    \<open>EvmRpcTypes\<close> (\<open>rpc/types.rs\<close>, with \<open>mine_block\<close>), \<open>EvmEstimator\<close> (\<open>rpc/estimator.rs\<close>), \<open>EvmRpc\<close>
    (\<open>rpc/handler.rs\<close> and \<open>rpc_endpoint\<close> of \<open>rpc/server.rs\<close>), \<open>EvmSocket\<close> (\<open>handle_ws\<close> of
    \<open>rpc/server.rs\<close>), \<open>EvmArbitrage\<close> (\<open>sim/*.rs\<close>), \<open>EvmFuzzer\<close> (\<open>fuzzer.rs\<close> and \<open>fuzz_endpoint\<close>), \<open>EvmTrace\<close>
    (what a tracer sees, \<open>tracer.rs\<close>), \<open>EvmCli\<close> (\<open>bin/mini-evm-cli.rs\<close>).
  \<^item> \<open>EvmNode\<close>: the process that \<open>bin/mini-evm-rpc.rs\<close> starts, with the routes of \<open>app\<close>.  Its state is the server state, all
    sockets and the receivers of the broadcast channel; \<open>node_step\<close> interleaves requests, messages of peers and events.
  \<^item> Lemmas without a model of their own: \<open>EvmLaws\<close> (the interfaces of the handlers), \<open>EvmInvariant\<close>, \<open>EvmPinned\<close>, \<open>EvmTermination\<close>,
    \<open>EvmOpSpecs\<close>, \<open>EvmFrames\<close>, \<open>EvmSubmission\<close> (from a raw transaction to its receipt),
    \<open>EvmFeed\<close> (what subscribers are sent).

  \<^bold>\<open>Conventions.\<close>  A computation answers an \<open>outcome\<close>: \<open>Done\<close>, \<open>Panic\<close>, or \<open>NoFuel\<close> when the bound on the loop and the call depth
  that the model carries is used up.  \<open>Result\<close> values are sums with the error on the left.  A handler is a function on the machine
  that answers \<open>Inl\<close> the execution result with which it returns early, or \<open>Inr\<close>; the machine is passed in both cases, so that
  partial effects in front of an error are visible.  \<open>u64\<close> and \<open>usize\<close> values are naturals with the overflow of each operator
  written out (a panic, as in the profile with overflow checks; \<open>saturating_*\<close>, \<open>checked_*\<close> and \<open>wrapping_*\<close> are what they
  say); \<open>U256\<close> of \<open>ruint\<close> is \<open>256 word\<close> and wraps.  A slice out of range panics.  Code that is not in the repository is a
  parameter: the records \<open>host\<close> (hashes, curve arithmetic, iteration order of the dirty accounts), \<open>tx_crates\<close> (RLP reader and
  writer, signature recovery), \<open>text_crates\<close> (\<open>hex\<close>, error texts of \<open>serde\<close>), \<open>socket_crates\<close> (\<open>serde_json\<close>), \<open>paint_crates\<close>
  (\<open>colored\<close>), \<open>walk_orders\<close> (iteration orders of hash maps) and \<open>search\<close> (\<open>rayon\<close>).
  What is relied on is a named hypothesis: \<open>tx_crates_ok\<close>, \<open>text_ok\<close>, \<open>orders_ok\<close>, \<open>walk_ok\<close>, \<open>search_ok\<close>, and for the
  channel of \<open>tokio\<close>, the parameter \<open>recv\<close>, \<open>broadcast_ok\<close>.

  \<^bold>\<open>Interfaces.\<close>  \<open>bounded_lifo\<close> (the stack), \<open>path_map\<close> (the trie), \<open>keyed_cells\<close> (balances, code, nonces, storage and
  transient storage of the fork), \<open>ordered_map\<close> (the trees of the pool), and the tower \<open>vm_order\<close>, \<open>vm_laws\<close>, \<open>vm_write_laws\<close>,
  \<open>vm_pc_laws\<close>, \<open>vm_jump_laws\<close>, \<open>vm_call_laws\<close>, \<open>vm_full_laws\<close>, \<open>vm_run_laws\<close>: a relation on machines that is reflexive,
  transitive and holds for the primitive updates is kept by every handler and by every run, nested runs included.  The tower is
  interpreted with \<open>evolves\<close> (invariant, gas, frame and logs), \<open>pins\<close> (snapshots), \<open>traces\<close> (what the tracer is shown), and in part
  with \<open>quiet\<close> (static frames) and \<open>same_pc\<close> (handlers that do not jump).

  \<^bold>\<open>Fuel.\<close>  \<open>run n h e\<close> spends one unit per instruction and one per nesting level.  \<open>EvmTermination\<close> shows that every run settles:
  each instruction uses gas, or moves the program counter forward, and a nested run has less gas; from some \<open>n\<close> on the outcome is
  the same and is not \<open>NoFuel\<close>.  \<open>settled\<close> states this for all clients, up to \<open>http_request\<close>, the estimator, the arbitrage search
  and the fuzzer.  The loops of the pool, the estimator, the trie, the disassembler and the fee computation are total functions.

  \<^bold>\<open>What the lemmas show.\<close>  Arithmetic handlers against the mathematical operations; memory and storage handlers (read back,
  price, growth, refusal); the trie as a finite map with a canonical shape; the state root independent of iteration orders;
  snapshots restored (but for base accounts that SELFDESTRUCT removed, of which a snapshot keeps no copy); failed calls, simulations and transactions without effect but for gas and nonce; static frames
  without effect; gas never created; program counters on instruction boundaries; the pool refining a selection specification;
  mining with and without errors, against a relation that executes the transactions of a block one after the other; a sent transaction mined and its receipt found; the invariant of the node under
  all interleavings; round trips of encodings; minimality of gas estimates; the truth of fuzz reports;
  subscribers told of every event in order and once, with
  ascending block numbers; traces.
  Several properties record behaviour that is not what an EVM does (STOP does not stop, a failed block is not rolled back);
  they are stated as the code behaves.

  \<^bold>\<open>Not modelled.\<close>  Argument parsing, the HTTP transport and the extractors of \<open>axum\<close> (parameters of \<open>http_request\<close>), the
  scheduling inside one request and the locks (an operation is the sequence of its effects; a lock is poisoned only by a panic
  while it is held; what a panicking request leaves behind is not followed),
  allocation failure, and the unit tests.
\<close>

section \<open>Concrete machines for the examples\<close>

definition demo_host :: host where
  "demo_host = \<lparr>keccak256 = (\<lambda>_. replicate 32 0), sha256_digest = (\<lambda>_. replicate 32 0),
     ripemd160_digest = (\<lambda>_. replicate 20 0), signature_from_slice = (\<lambda>_. None),
     recover_from_prehash = (\<lambda>_ _ _. None), iter_rank = (\<lambda>_ _. 0)\<rparr>"

text \<open>The program PUSH1 5 with ten units of gas, and the machine it ends in.\<close>

definition demo_evm :: evm where
  "demo_evm = new_with_gas [0x60, 5] 10"

definition demo_end :: evm where
  "demo_end = demo_evm\<lparr>pc := 2, gas_left := 7, stack := \<lparr>data = (replicate 1024 0)[0 := 5], sp = 1\<rparr>\<rparr>"

text \<open>A machine whose stack holds the given words (the last one on top).\<close>

definition demo_stack :: "u256 list \<Rightarrow> stack" where
  "demo_stack xs = \<lparr>data = xs @ replicate (1024 - length xs) 0, sp = length xs\<rparr>"

definition demo_with :: "u256 list \<Rightarrow> evm" where
  "demo_with xs = (evm_new [])\<lparr>stack := demo_stack xs\<rparr>"

lemma demo_stack_facts [simp]:
  "stack_values (demo_stack xs) = xs"
  "length xs \<le> 1024 \<Longrightarrow> stack_ok (demo_stack xs)" "length xs \<le> 1024 \<Longrightarrow> length (data (demo_stack xs)) = 1024"
  by (simp_all add: demo_stack_def stack_values_def stack_ok_def)

lemma demo_with_facts [simp]:
  "stack (demo_with xs) = demo_stack xs" "memory (demo_with xs) = []" "gas_left (demo_with xs) = 10000000"
  "is_static (demo_with xs) = False" "accessed_slots (demo_with xs) = {}" "state (demo_with xs) = default_fork"
  "length xs \<le> 1024 \<Longrightarrow> evm_ok (demo_with xs)"
  using new_with_gas_ok[of 10000000 "[]"]
  by (simp_all add: demo_with_def evm_new_def new_with_gas_def evm_ok_def)

lemma default_fork_ok [simp]: "fork_ok default_fork"
  by (simp add: fork_ok_def default_fork_def accounts_ok_def snapshots_ok_def)

lemma demo_step: "step demo_host rc demo_evm = Done (Halt, demo_end)"
proof -
  have "gas_table 0x60 = 3" by (simp add: gas_table_def gas_table_2_def gas_table_1_def fill_range_def)
  moreover have "dispatch_table demo_host rc 0x60 = op_push1"
    by (simp add: dispatch_table_def dispatch_context_def dispatch_core_def dispatch_push_def dispatch_arith_def)
  ultimately show ?thesis
    by (simp add: step_def demo_evm_def new_with_gas_def Let_def trace_step_def op_push1_def some_or_return_def
        push_or_def push_with_def stack_push_def stack_new_def handler_result_def demo_end_def)
qed

lemma demo_run: "run 2 demo_host demo_evm = Done (Halt, demo_end)"
proof -
  have sync: "sync_legacy_state_into_fork demo_evm = demo_evm"
    by (simp add: sync_legacy_state_into_fork_def demo_evm_def new_with_gas_def Let_def)
  have "run_without_sync 2 demo_host demo_evm = Done (Halt, demo_end)"
    by (simp add: numeral_2_eq_2 run_without_sync_Suc demo_step)
      (simp add: demo_end_def demo_evm_def new_with_gas_def)
  then show ?thesis
    by (simp add: run_def sync sync_fork_into_legacy_state_def dirty_order_def Let_def)
      (simp add: demo_end_def demo_evm_def new_with_gas_def default_fork_def clear_transient_storage_def)
qed

lemma demo_evm_ok: "evm_ok demo_evm"
  by (simp add: demo_evm_def new_with_gas_ok)

section \<open>The interpreter\<close>

text \<open>C1.  \<open>Evm::run\<close> comes to an end on every machine: from some fuel on the outcome is always the same
  and is a result or a panic, never a lack of fuel.\<close>

theorem run_returns: "\<exists>n out. out \<noteq> NoFuel \<and> (\<forall>k. run (n + k) h e = out)"
proof -
  from run_total[of h e] obtain n out where "out \<noteq> NoFuel" "\<forall>m \<ge> n. run m h e = out" by blast
  then have "out \<noteq> NoFuel \<and> (\<forall>k. run (n + k) h e = out)" by simp
  then show ?thesis by blast
qed

text \<open>C2.  A run keeps the well-formedness invariant of the machine: stack pointer inside a stack of 1024
  words, memory in whole words of 32 bytes, the jump table of the code, gas a \<open>u64\<close>, snapshot identifiers
  equal to their positions, distinct keys in every map.\<close>

theorem run_keeps_invariant:
  assumes "evm_ok e" "run n h e = Done (r, e')" shows "evm_ok e'"
  using run_evolves[OF assms(2)] assms(1) by (simp add: evolves_def)

theorem run_keeps_invariant_witness: "evm_ok demo_end"
  using run_keeps_invariant[OF demo_evm_ok demo_run] .

text \<open>C3.  Gas is never created: whatever a frame and all its nested calls and creations do, it ends with at
  most the gas it started with.\<close>

theorem run_gas_bounded:
  assumes "run n h e = Done (r, e')" shows "gas_left e' \<le> gas_left e"
  using run_evolves[OF assms] by (simp add: evolves_def)

theorem run_gas_bounded_witness: "gas_left demo_end \<le> gas_left demo_evm \<and> gas_left demo_end = 7"
  using run_gas_bounded[OF demo_run] by (simp add: demo_end_def)

text \<open>C4.  A run does not touch the identity of its frame (code, environment, call context, storage and
  transient addresses, static flag), only appends to the logs, and never shrinks the memory.\<close>

theorem run_frame:
  assumes "run n h e = Done (r, e')"
  shows "code e' = code e \<and> env e' = env e \<and> txc e' = txc e \<and> storage_address e' = storage_address e \<and>
    transient_storage_address e' = transient_storage_address e \<and> is_static e' = is_static e \<and>
    prefix (logs e) (logs e') \<and> length (memory e) \<le> length (memory e')"
  using run_evolves[OF assms] by (simp add: evolves_def)

theorem run_frame_witness: "code demo_end = code demo_evm \<and> prefix (logs demo_evm) (logs demo_end)"
  using run_frame[OF demo_run] by blast

text \<open>C5.  A static frame emits no log, neither itself nor through the frames it calls.\<close>

theorem static_run_no_logs:
  assumes "is_static e" "run n h e = Done (r, e')" shows "logs e' = logs e"
  using run_evolves[OF assms(2)] assms(1) by (simp add: evolves_def)

text \<open>A static frame that tries to log, on a stack with an offset and a length.\<close>

definition demo_static :: evm where
  "demo_static = demo_evm\<lparr>code := [OP_LOG0], is_static := True, stack := \<lparr>data = replicate 1024 0, sp = 2\<rparr>\<rparr>"

lemma demo_static_run: "\<exists>e'. run 1 demo_host demo_static = Done (VmErr StaticCallViolation, e')"
proof -
  have "gas_table OP_LOG0 = 0" by (simp add: gas_table_def gas_table_2_def gas_table_1_def fill_range_def)
  moreover have "dispatch_table demo_host rc OP_LOG0 = op_log 0" for rc
    by (simp add: dispatch_table_def dispatch_context_def)
  ultimately show ?thesis
    by (simp add: run_def run_without_sync_Suc step_def sync_legacy_state_into_fork_def Let_def trace_step_def
        op_log_def deny_static_def tbind_def handler_result_def demo_static_def demo_evm_def new_with_gas_def)
qed

theorem static_run_no_logs_witness:
  "\<exists>e'. is_static demo_static \<and> run 1 demo_host demo_static = Done (VmErr StaticCallViolation, e') \<and> logs e' = logs demo_static"
proof -
  obtain e' where r: "run 1 demo_host demo_static = Done (VmErr StaticCallViolation, e')" using demo_static_run by blast
  have s: "is_static demo_static" by (simp add: demo_static_def)
  show ?thesis using static_run_no_logs[OF s r] s r by blast
qed

text \<open>C6.  In a static frame every instruction other than the three calls leaves the world state, the legacy
  maps and the logs as they are, whether it succeeds or fails.\<close>

theorem static_step_quiet:
  assumes "step h rc e = Done (r, e')" "is_static e" "code e ! pc e \<notin> {OP_CALL, OP_DELEGATECALL, OP_STATICCALL}"
  shows "state e' = state e \<and> logs e' = logs e \<and> storage e' = storage e \<and> balances e' = balances e \<and>
    nonces e' = nonces e \<and> contracts e' = contracts e"
  using step_quiet[OF assms(1,3)] assms(2) by (simp add: quiet_def)

lemma demo_static_step: "step demo_host rc (demo_evm\<lparr>is_static := True\<rparr>) = Done (Halt, demo_end\<lparr>is_static := True\<rparr>)"
proof -
  have "gas_table 0x60 = 3" by (simp add: gas_table_def gas_table_2_def gas_table_1_def fill_range_def)
  moreover have "dispatch_table demo_host rc 0x60 = op_push1"
    by (simp add: dispatch_table_def dispatch_context_def dispatch_core_def dispatch_push_def dispatch_arith_def)
  ultimately show ?thesis
    by (simp add: step_def demo_evm_def new_with_gas_def Let_def trace_step_def op_push1_def some_or_return_def
        push_or_def push_with_def stack_push_def stack_new_def handler_result_def demo_end_def)
qed

theorem static_step_quiet_witness:
  "state (demo_end\<lparr>is_static := True\<rparr>) = state (demo_evm\<lparr>is_static := True\<rparr>)"
proof -
  have "code (demo_evm\<lparr>is_static := True\<rparr>) ! pc (demo_evm\<lparr>is_static := True\<rparr>)
      \<notin> {OP_CALL, OP_DELEGATECALL, OP_STATICCALL}"
    by (simp add: demo_evm_def new_with_gas_def)
  from static_step_quiet[OF demo_static_step[of "\<lambda>_. NoFuel"] _ this] show ?thesis by simp
qed

text \<open>C7.  The program counter of every machine that the interpreter loop passes through stands on the start of
  an instruction of the code, as the linear walk over PUSH data defines it (or behind the code): jumps land on
  JUMPDEST instructions only, and PUSH data is never executed.\<close>

theorem pc_on_instruction:
  assumes "reaches h e0 e" "evm_ok e0" "pc e0 = 0" "length (code e0) + 32 \<le> U64_MAX"
  shows "follows (code e0) 0 (pc e)"
  using reaches_invariant[OF assms] by blast

theorem pc_on_instruction_witness: "follows [0x60, 5] 0 (pc demo_end)"
proof -
  have "reaches demo_host demo_evm demo_end"
    by (rule reaches_next[OF reaches_start _ demo_step]) (simp add: demo_evm_def new_with_gas_def)
  from pc_on_instruction[OF this demo_evm_ok] show ?thesis by (simp add: demo_evm_def new_with_gas_def)
qed

text \<open>C8.  A call that fails (revert, error or out of gas in the child) leaves the caller's world state,
  storage, balances, logs and created accounts as they were, and hands over the revert data.\<close>

theorem failed_call_restores:
  assumes "fork_ok (state e)" "nested_call rc fs dl t v input g e = Done (Inr (False, out), e')"
  shows "state e' = state e \<and> storage e' = storage e \<and> logs e' = logs e \<and> balances e' = balances e \<and>
    created_in_transaction e' = created_in_transaction e \<and> return_data e' = out"
  by (rule nested_call_failure[OF assms])

text \<open>The child runner of the example writes storage and a log and then reverts.\<close>

definition reverting_runner :: runner where
  "reverting_runner c = Done (Revert [1],
     c\<lparr>state := set_storage (state c) (self_address c) 1 2,
       logs := [\<lparr>log_address = zero_address, log_topics = [], log_data = []\<rparr>]\<rparr>)"

theorem failed_call_restores_witness:
  "\<exists>e'. nested_call reverting_runner False False zero_address 0 [] 100 (demo_with []) = Done (Inr (False, [1]), e') \<and>
     state e' = default_fork"
proof -
  have "\<exists>e'. nested_call reverting_runner False False zero_address 0 [] 100 (demo_with []) = Done (Inr (False, [1]), e')"
    by (simp add: nested_call_def Let_def reverting_runner_def call_outcome_def)
  then obtain e' where run: "nested_call reverting_runner False False zero_address 0 [] 100 (demo_with []) = Done (Inr (False, [1]), e')"
    by blast
  from failed_call_restores[OF _ this] have "state e' = default_fork" by simp
  with run show ?thesis by blast
qed

text \<open>C13.  STOP does not stop: it answers \<open>ExecutionResult::Halt\<close>, which the loop of \<open>run_without_sync\<close> takes as
  the sign to go on, so execution continues behind the STOP.\<close>

theorem stop_does_not_stop:
  assumes "pc e < length (code e)" "code e ! pc e = OP_STOP" "tracer e = None"
  shows "run_without_sync (Suc n) h e = run_without_sync n h (e\<lparr>pc := pc e + 1\<rparr>)"
  by (rule stop_continues[OF assms])

theorem stop_does_not_stop_witness:
  "run_without_sync 2 demo_host (new_with_gas [0, 0xfe] 9) = Done (InvalidOpcode 0xfe, (new_with_gas [0, 0xfe] 9)\<lparr>pc := 2, gas_left := 0\<rparr>)"
proof -
  let ?e = "new_with_gas [0, 0xfe] 9"
  have "gas_table OP_INVALID = 0" by (simp add: gas_table_def gas_table_2_def gas_table_1_def fill_range_def)
  moreover have "dispatch_table demo_host rc OP_INVALID = op_invalid_opcode" for rc
    by (simp add: dispatch_table_def dispatch_context_def)
  ultimately have "run_without_sync (Suc 0) demo_host (?e\<lparr>pc := 1\<rparr>) = Done (InvalidOpcode 0xfe, ?e\<lparr>pc := 2, gas_left := 0\<rparr>)"
    by (simp add: run_without_sync_Suc step_def new_with_gas_def Let_def trace_step_def op_invalid_opcode_def handler_result_def)
  moreover have "run_without_sync (Suc (Suc 0)) demo_host ?e = run_without_sync (Suc 0) demo_host (?e\<lparr>pc := pc ?e + 1\<rparr>)"
    by (rule stop_does_not_stop) (simp_all add: new_with_gas_def)
  ultimately show ?thesis by (simp add: numeral_2_eq_2 new_with_gas_def)
qed

section \<open>Handlers\<close>

text \<open>C14.  ADDMOD and MULMOD compute the mathematical sum and product modulo the word on top of the stack, without
  intermediate wrap-around, and leave everything else in place.\<close>

theorem modular_arithmetic:
  assumes "stack_ok (stack e)" "stack_values (stack e) = xs @ [a, b, m]" "m \<noteq> 0"
  shows "\<exists>v w. replaces op_addmod e (xs @ [v]) \<and> unat v = (unat a + unat b) mod unat m \<and>
    replaces op_mulmod e (xs @ [w]) \<and> unat w = (unat a * unat b) mod unat m"
  using triop_replaces[OF assms(1,2)] unat_addmod_word[OF assms(3)] unat_mulmod_word[OF assms(3)]
  unfolding op_addmod_def op_mulmod_def by blast

theorem modular_arithmetic_witness:
  "\<exists>v w. replaces op_addmod (demo_with [10, 9, 7]) [v] \<and> unat v = 5 \<and> replaces op_mulmod (demo_with [10, 9, 7]) [w] \<and> unat w = 6"
  using modular_arithmetic[of "demo_with [10, 9, 7]" "[]" 10 9 7] by simp

text \<open>C15.  EXP is exponentiation in the ring of 256-bit words; SDIV and SMOD are division and remainder of two's complement
  integers truncated towards zero (with quotient 0 for divisor 0); SHL, SHR and SAR are the left, logical right and arithmetic right
  shifts for every shift word, 256 and beyond included; BYTE selects the byte of the big-endian representation, and SIGNEXTEND
  extends the sign bit of the byte it names.\<close>

theorem word_operations:
  assumes "i < 32" "as_usize b < 32"
  shows "exp_word x base = base ^ unat x \<and>
    sdiv_word divisor dividend = word_of_int (sint dividend sdiv sint divisor) \<and>
    smod_word modulus v = (if modulus = 0 then 0 else word_of_int (sint v smod sint modulus)) \<and>
    shl_word s v = push_bit (unat s) v \<and> shr_word s v = drop_bit (unat s) v \<and> sar_word s v = signed_drop_bit (unat s) v \<and>
    unat (byte_word i v) = unat (u256_to_be_bytes v ! unat i) \<and>
    signextend_word b v = signed_take_bit (as_usize b * 8 + 7) v"
  by (simp add: exp_word_power sdiv_word_eq smod_word_eq smod_word_def[of 0] shl_word_eq shr_word_eq sar_word_eq
      byte_word_eq[OF assms(1)] signextend_word_eq[OF assms(2)])

theorem word_operations_witness: "signextend_word 0 0xff = signed_take_bit 7 0xff \<and> sar_word 300 0xff = signed_drop_bit 300 0xff"
  using word_operations[where i = 31 and b = 0 and v = "0xff" and s = 300] by (simp add: as_usize_def)

text \<open>C16.  What MSTORE stores MLOAD of the same offset reads back, without further gas or memory growth.\<close>

theorem mload_reads_mstore:
  assumes "evm_ok e" "stack_values (stack e) = xs @ [v, w]" "op_mstore e = Done (Inr (), e1)"
    "stack_ok s" "stack_values s = ys @ [w]"
  shows "replaces op_mload (e1\<lparr>stack := s\<rparr>) (ys @ [v])"
  by (rule mload_after_mstore[OF assms])

lemma demo_mstore: "\<exists>e1. op_mstore (demo_with [7, 0]) = Done (Inr (), e1)"
proof -
  obtain s where s: "pop2_or (Error ''Stack Underflow on MSTORE'') (demo_with [7, 0]) = Done (Inr (0, 7), (demo_with [7, 0])\<lparr>stack := s\<rparr>)"
    using pop2_snoc[of "demo_with [7, 0]" "[]" 7 0] by auto
  have "touch_memory 0 32 ((demo_with [7, 0])\<lparr>stack := s\<rparr>) =
      Done (Inr (), (demo_with [7, 0])\<lparr>stack := s, gas_left := 9999997, memory := resize [] 32 0\<rparr>)"
    by (simp add: touch_memory_eq memory_price_def)
  then show ?thesis
    using s by (simp add: op_mstore_def Let_def tbind_def as_usize_def write_memory_def write_slice_def)
qed

theorem mload_reads_mstore_witness:
  "\<exists>e1. op_mstore (demo_with [7, 0]) = Done (Inr (), e1) \<and> replaces op_mload (e1\<lparr>stack := demo_stack [0]\<rparr>) [7]"
proof -
  obtain e1 where e1: "op_mstore (demo_with [7, 0]) = Done (Inr (), e1)" using demo_mstore by blast
  from mload_reads_mstore[OF _ _ e1, of "[]" 7 0 "demo_stack [0]" "[]"] e1 show ?thesis by auto
qed

text \<open>C17.  Memory is priced at \<open>3 w + w * w / 512\<close> for \<open>w\<close> words (below 64 GiB): touching a range charges exactly the
  difference and zero-fills up to the rounded end, charges nothing inside the memory, and refuses without effect when the gas
  does not suffice.\<close>

theorem touch_memory_charges:
  assumes "0 < n" "off + n < 2 ^ 36"
  shows "touch_memory off n e =
    (let new_words = (off + n + 31) div 32; words = length (memory e) div 32;
         cost = memory_price new_words - memory_price words
     in if new_words \<le> words then Done (Inr (), e)
        else if gas_left e < cost then Done (Inl OutOfGas, e)
        else Done (Inr (), e\<lparr>gas_left := gas_left e - cost, memory := resize (memory e) (new_words * 32) 0\<rparr>))"
  by (rule touch_memory_eq[OF assms])

theorem touch_memory_charges_witness:
  "touch_memory 0 33 (demo_with []) = Done (Inr (), (demo_with [])\<lparr>gas_left := 9999994, memory := replicate 64 0\<rparr>)"
  by (subst touch_memory_charges) (simp_all add: memory_price_def resize_def)

text \<open>C18.  SSTORE in a non-static frame: it warms the slot; its price is 100 when the value is unchanged, otherwise 20000 when
  the cell holds zero and 2900 when it does not, plus 2100 when the slot was cold.  It either charges exactly that and writes
  exactly that cell of the frame's account or, short of gas, ends in OutOfGas with the state and the gas as they were.\<close>

theorem sstore_effect:
  assumes "stack_ok (stack e)" "stack_values (stack e) = xs @ [v, k]" "\<not> is_static e"
    "current = get_storage (state e) (self_address e) k"
    "cost = (if current = v then 100 else if current = 0 then 20000 else 2900) + (if k \<in> accessed_slots e then 0 else 2100)"
  shows "\<exists>r e'. op_sstore e = Done (r, e') \<and> accessed_slots e' = insert k (accessed_slots e) \<and>
    (if gas_left e < cost
     then r = Inl OutOfGas \<and> state e' = state e \<and> gas_left e' = gas_left e
     else r = Inr () \<and> gas_left e' = gas_left e - cost \<and>
       (\<forall>a k'. get_storage (state e') a k' = (if a = self_address e \<and> k' = k then v else get_storage (state e) a k')))"
proof -
  have cost: "cost = sstore_cost e k v"
    by (simp add: assms(4,5) sstore_cost_def sstore_base_cost_def)
  obtain s where s: "op_sstore e = (let e1 = e\<lparr>stack := s, accessed_slots := insert k (accessed_slots e)\<rparr>
       in if gas_left e < sstore_cost e k v then Done (Inl OutOfGas, e1)
          else Done (Inr (), e1\<lparr>gas_left := gas_left e - sstore_cost e k v,
                                state := set_storage (state e) (self_address e) k v\<rparr>))"
    by (rule op_sstore_eq[OF assms(1-3)])
  have "get_storage (set_storage (state e) (self_address e) k v) a k' =
      (if a = self_address e \<and> k' = k then v else get_storage (state e) a k')" for a k'
    using storage.get_put[of "state e" "(self_address e, k)" v "(a, k')"] by simp
  then show ?thesis unfolding s cost Let_def by (cases "gas_left e < sstore_cost e k v") simp_all
qed

theorem sstore_effect_witness:
  "(\<exists>e'. op_sstore (demo_with [9, 3]) = Done (Inr (), e') \<and> gas_left e' = 9977900 \<and>
      get_storage (state e') (self_address (demo_with [9, 3])) 3 = 9) \<and>
   (let e = (demo_with [9, 3])\<lparr>state := set_storage default_fork (self_address (demo_with [9, 3])) 3 5, accessed_slots := {3}\<rparr>
    in \<exists>e'. op_sstore e = Done (Inr (), e') \<and> gas_left e' = 9997100 \<and> get_storage (state e') (self_address e) 3 = 9)"
proof -
  let ?e = "demo_with [9, 3]"
  let ?e2 = "?e\<lparr>state := set_storage default_fork (self_address ?e) 3 5, accessed_slots := {3}\<rparr>"
  have "get_storage (state ?e) (self_address ?e) 3 = 0"
    by (simp add: get_storage_def get_account_def default_fork_def default_account_def)
  then have 1: "\<exists>e'. op_sstore ?e = Done (Inr (), e') \<and> gas_left e' = 9977900 \<and> get_storage (state e') (self_address ?e) 3 = 9"
    using sstore_effect[of ?e "[]" 9 3, OF _ _ _ refl refl] by auto
  have "get_storage (state ?e2) (self_address ?e2) 3 = 5"
    using storage.get_put_same[of default_fork "(self_address ?e, 3)" 5] by simp
  then have "\<exists>e'. op_sstore ?e2 = Done (Inr (), e') \<and> gas_left e' = 9997100 \<and> get_storage (state e') (self_address ?e2) 3 = 9"
    using sstore_effect[of ?e2 "[]" 9 3, OF _ _ _ refl refl] by auto
  with 1 show ?thesis by (simp add: Let_def)
qed

end
